(* ===== verification/Prelude.thy ===== *)
theory Prelude
  imports
    Main
    "HOL-Library.Word"
    "HOL-Library.Char_ord"
    "HOL-Library.List_Lexorder"
    "HOL-Library.Multiset"
begin

text \<open>
  Shared vocabulary of the development.

  \<^item> Machine integers: Rust's \<open>u8\<close> .. \<open>u64\<close> are words of HOL-Library; the saturating
    operators of the standard library (\<open>saturating_add\<close>, \<open>saturating_sub\<close>,
    \<open>saturating_mul\<close>) and the saturating folds over iterators are defined here, with the
    lemmas (\<open>u_nat\<close>) that move a goal about words to one about natural numbers.
  \<^item> Containers: \<open>BTreeMap\<close> is a list of pairs with strictly ascending keys, \<open>HashMap\<close>
    is a list of pairs with distinct keys in no particular order.  Both satisfy the
    interface \<open>keyed_map\<close>, whose laws are what the components rely on.
  \<^item> Selection: the loop "keep the best candidate seen so far" which the routers, the
    fleet planner and the eviction code share, with the interface \<open>ranking\<close> for the
    comparison they pass to it.
  \<^item> Strings: byte strings; the ASCII part of Rust's case conversion, trimming and
    character classes.
\<close>

section \<open>Fact collections\<close>

named_theorems u_nat \<open>machine-word operators read as natural numbers\<close>
named_theorems map_laws \<open>lookup after an update of a keyed map\<close>

section \<open>Chains of guards\<close>

text \<open>An early return of an error: the rest of the function runs when the guard does not fire.\<close>

lemma guard_None_iff: "(if b then Some x else y) = None \<longleftrightarrow> \<not> b \<and> y = None"
  by simp

lemma guard_Inr_iff: "(if b then Inl e else y) = Inr v \<longleftrightarrow> \<not> b \<and> y = Inr v"
  by simp

lemma case_option_False_iff: "(case x of None \<Rightarrow> False | Some v \<Rightarrow> P v) \<longleftrightarrow> (\<exists>v. x = Some v \<and> P v)"
  by (simp split: option.splits)

section \<open>Machine integers\<close>

type_synonym u8 = "8 word"
type_synonym u16 = "16 word"
type_synonym u32 = "32 word"
type_synonym u64 = "64 word"

lemma word_of_nat_unat [simp]: "word_of_nat (unat w) = w"
  by simp

declare of_nat_unat [simp del]

definition sat_add :: "'a::len word \<Rightarrow> 'a word \<Rightarrow> 'a word" where
  "sat_add a b = (if unat a + unat b < 2 ^ LENGTH('a) then a + b else - 1)"

definition sat_sub :: "'a::len word \<Rightarrow> 'a word \<Rightarrow> 'a word" where
  "sat_sub a b = (if b \<le> a then a - b else 0)"

definition sat_mul :: "'a::len word \<Rightarrow> 'a word \<Rightarrow> 'a word" where
  "sat_mul a b = (if unat a * unat b < 2 ^ LENGTH('a) then a * b else - 1)"

definition checked_add :: "'a::len word \<Rightarrow> 'a word \<Rightarrow> 'a word option" where
  "checked_add a b = (if unat a + unat b < 2 ^ LENGTH('a) then Some (a + b) else None)"

text \<open>Evaluation stays on binary integers.\<close>

lemma unat_lt_iff_uint:
  "unat a + unat b < 2 ^ n \<longleftrightarrow> uint a + uint b < 2 ^ n" "unat a * unat b < 2 ^ n \<longleftrightarrow> uint a * uint b < 2 ^ n"
proof -
  have "int (unat a + unat b) < int (2 ^ n) \<longleftrightarrow> uint a + uint b < 2 ^ n"
    "int (unat a * unat b) < int (2 ^ n) \<longleftrightarrow> uint a * uint b < 2 ^ n"
    by (simp_all add: of_nat_unat)
  then show "unat a + unat b < 2 ^ n \<longleftrightarrow> uint a + uint b < 2 ^ n" "unat a * unat b < 2 ^ n \<longleftrightarrow> uint a * uint b < 2 ^ n"
    by (simp_all only: of_nat_less_iff)
qed

lemma sat_code [code]:
  "sat_add a b = (if uint a + uint b < 2 ^ LENGTH('a) then a + b else (- 1 :: 'a::len word))"
  "sat_mul a b = (if uint a * uint b < 2 ^ LENGTH('a) then a * b else (- 1 :: 'a::len word))"
  "checked_add a b = (if uint a + uint b < 2 ^ LENGTH('a) then Some (a + b :: 'a::len word) else None)"
  by (simp_all add: sat_add_def sat_mul_def checked_add_def unat_lt_iff_uint)

lemma unat_max_word: "unat (- 1 :: 'a::len word) = 2 ^ LENGTH('a) - 1"
  by (simp add: unsigned_minus_1_eq_mask mask_eq_exp_minus_1)

lemma unat_sat_add [u_nat]:
  "unat (sat_add a b :: 'a::len word) = min (unat a + unat b) (2 ^ LENGTH('a) - 1)"
  by (auto simp: sat_add_def unat_word_ariths unat_max_word min_def)

lemma unat_sat_sub [u_nat]: "unat (sat_sub a b) = unat a - unat b"
  by (auto simp: sat_sub_def unat_sub word_le_nat_alt)

lemma unat_sat_mul [u_nat]:
  "unat (sat_mul a b :: 'a::len word) = min (unat a * unat b) (2 ^ LENGTH('a) - 1)"
proof (cases "unat a * unat b < 2 ^ LENGTH('a)")
  case True
  then have "unat a * unat b \<le> 2 ^ LENGTH('a) - 1" by linarith
  with True show ?thesis by (simp add: sat_mul_def unat_word_ariths)
next
  case False
  then have "2 ^ LENGTH('a) - 1 \<le> unat a * unat b" by linarith
  with False show ?thesis by (simp add: sat_mul_def unat_max_word)
qed

lemma checked_add_Some_iff:
  "checked_add a b = Some c \<longleftrightarrow> unat c = unat a + unat b"
proof
  assume "checked_add a b = Some c"
  then show "unat c = unat a + unat b"
    by (auto simp: checked_add_def unat_word_ariths split: if_splits)
next
  assume *: "unat c = unat a + unat b"
  then have lt: "unat a + unat b < 2 ^ LENGTH('a)"
    by (metis unsigned_less)
  then have "unat (a + b) = unat c"
    using * by (simp add: unat_word_ariths)
  then have "a + b = c" by (simp add: word_unat_eq_iff)
  with lt show "checked_add a b = Some c" by (simp add: checked_add_def)
qed

lemma unat_le_max: "unat (a :: 'a::len word) \<le> 2 ^ LENGTH('a) - 1"
  using unsigned_less [of a, where 'a = nat] by linarith

lemma sat_add_1: "sat_add (g :: u64) 1 = (if g = - 1 then - 1 else g + 1)" "g \<le> sat_add g 1"
  "g \<noteq> - 1 \<Longrightarrow> g < sat_add g 1"
proof -
  have top: "unat g + 1 < 2 ^ 64 \<longleftrightarrow> g \<noteq> - 1"
    using unat_le_max [of g] unat_max_word [where 'a = 64] by (auto simp: word_unat_eq_iff)
  then show "sat_add g 1 = (if g = - 1 then - 1 else g + 1)" by (simp add: sat_add_def)
  show "g \<le> sat_add g 1" using unat_le_max [of g] by (simp add: word_le_nat_alt unat_sat_add)
  show "g < sat_add g 1" if "g \<noteq> - 1" using top that by (simp add: word_less_nat_alt unat_sat_add)
qed

lemma unat_ucast_up [u_nat]:
  "LENGTH('a) \<le> LENGTH('b) \<Longrightarrow> unat (ucast (w :: 'a::len word) :: 'b::len word) = unat w"
  using less_le_trans [OF unsigned_less [of w, where 'a = nat] power_increasing [of "LENGTH('a)" "LENGTH('b)" "2::nat"]]
  by (simp add: unsigned_ucast_eq take_bit_nat_eq_self)

lemma sat_mul_assoc: "sat_mul (sat_mul a b) c = sat_mul a (sat_mul b c)"
proof (rule unsigned_word_eqI)
  have *: "min (min x M * z) M = min (x * z) M" for x z M :: nat
    by (cases z) (auto simp: min_def not_le)
  have "unat (sat_mul (sat_mul a b) c) = min (unat a * unat b * unat c) (2 ^ LENGTH('a) - 1)"
    by (simp only: unat_sat_mul *)
  also have "\<dots> = unat (sat_mul a (sat_mul b c))"
    using * [of "unat b * unat c" "2 ^ LENGTH('a) - 1" "unat a"]
    by (simp only: unat_sat_mul mult.commute [of "unat a"] mult.assoc)
  finally show "unat (sat_mul (sat_mul a b) c) = unat (sat_mul a (sat_mul b c))" .
qed

text \<open>\<open>iter().fold(0, u64::saturating_add)\<close>.\<close>

definition sat_sum :: "'a::len word list \<Rightarrow> 'a word" where
  "sat_sum xs = foldl sat_add 0 xs"

lemma unat_foldl_sat_add:
  "unat (foldl sat_add a xs :: 'a::len word)
     = min (unat a + sum_list (map unat xs)) (2 ^ LENGTH('a) - 1)"
proof (induction xs arbitrary: a)
  case Nil
  then show ?case using unat_le_max [of a] by simp
next
  case (Cons x xs)
  have "min (min (unat a + unat x) M + S) M = min (unat a + (unat x + S)) M" for M S :: nat
    by (simp add: min_def)
  with Cons show ?case by (simp add: unat_sat_add)
qed

lemma unat_sat_sum [u_nat]:
  "unat (sat_sum xs :: 'a::len word) = min (sum_list (map unat xs)) (2 ^ LENGTH('a) - 1)"
  by (simp add: sat_sum_def unat_foldl_sat_add)

lemma sat_sum_perm: "mset xs = mset ys \<Longrightarrow> sat_sum xs = sat_sum (ys :: 'a::len word list)"
proof (rule unsigned_word_eqI)
  assume "mset xs = mset ys"
  then have "mset (map unat xs) = mset (map unat ys)" by simp
  then have "sum_list (map unat xs) = sum_list (map unat ys)"
    by (metis sum_mset_sum_list)
  then show "unat (sat_sum xs) = unat (sat_sum ys)" by (simp add: unat_sat_sum)
qed

lemma sat_sum_member: "x \<in> set xs \<Longrightarrow> x \<le> sat_sum xs"
  using member_le_sum_list [of "unat x" "map unat xs"] unat_le_max [of x]
  by (simp add: word_le_nat_alt unat_sat_sum)

lemma map_filter_mset: "mset xs = mset ys \<Longrightarrow> mset (List.map_filter f xs) = mset (List.map_filter f ys)"
  by (simp add: List.map_filter_def)

section \<open>Keyed maps\<close>

text \<open>\<open>HashMap\<close>: an association list with distinct keys; the order of the entries is the
  (unspecified) iteration order.\<close>

type_synonym ('k, 'v) hash_map = "('k \<times> 'v) list"

definition hm_wf :: "('k, 'v) hash_map \<Rightarrow> bool" where
  "hm_wf m = distinct (map fst m)"

definition hm_get :: "('k, 'v) hash_map \<Rightarrow> 'k \<Rightarrow> 'v option" where
  "hm_get m k = map_of m k"

fun hm_insert :: "'k \<Rightarrow> 'v \<Rightarrow> ('k, 'v) hash_map \<Rightarrow> ('k, 'v) hash_map" where
  "hm_insert k v [] = [(k, v)]"
| "hm_insert k v ((k', v') # m) = (if k = k' then (k, v) # m else (k', v') # hm_insert k v m)"

definition hm_remove :: "'k \<Rightarrow> ('k, 'v) hash_map \<Rightarrow> ('k, 'v) hash_map" where
  "hm_remove k m = filter (\<lambda>(k', _). k' \<noteq> k) m"

definition hm_retain :: "('k \<Rightarrow> 'v \<Rightarrow> bool) \<Rightarrow> ('k, 'v) hash_map \<Rightarrow> ('k, 'v) hash_map" where
  "hm_retain P m = filter (\<lambda>(k, v). P k v) m"

text \<open>\<open>BTreeMap\<close>: an association list with strictly ascending keys.\<close>

type_synonym ('k, 'v) btree_map = "('k \<times> 'v) list"

definition bt_wf :: "('k::linorder, 'v) btree_map \<Rightarrow> bool" where
  "bt_wf m = sorted_wrt (<) (map fst m)"

definition bt_get :: "('k, 'v) btree_map \<Rightarrow> 'k \<Rightarrow> 'v option" where
  "bt_get m k = map_of m k"

fun bt_insert :: "'k::linorder \<Rightarrow> 'v \<Rightarrow> ('k, 'v) btree_map \<Rightarrow> ('k, 'v) btree_map" where
  "bt_insert k v [] = [(k, v)]"
| "bt_insert k v ((k', v') # m) =
     (if k < k' then (k, v) # (k', v') # m
      else if k = k' then (k, v) # m
      else (k', v') # bt_insert k v m)"

definition bt_remove :: "'k \<Rightarrow> ('k, 'v) btree_map \<Rightarrow> ('k, 'v) btree_map" where
  "bt_remove k m = filter (\<lambda>(k', _). k' \<noteq> k) m"

definition bt_retain :: "('k \<Rightarrow> 'v \<Rightarrow> bool) \<Rightarrow> ('k, 'v) btree_map \<Rightarrow> ('k, 'v) btree_map" where
  "bt_retain P m = filter (\<lambda>(k, v). P k v) m"

text \<open>
  What the components rely on: a lookup after each update, how the size moves, and that
  every operation keeps the representation invariant.
\<close>

locale keyed_map =
  fixes wf :: "'m \<Rightarrow> bool"
    and get :: "'m \<Rightarrow> 'k \<Rightarrow> 'v option"
    and put :: "'k \<Rightarrow> 'v \<Rightarrow> 'm \<Rightarrow> 'm"
    and del :: "'k \<Rightarrow> 'm \<Rightarrow> 'm"
    and keep :: "('k \<Rightarrow> 'v \<Rightarrow> bool) \<Rightarrow> 'm \<Rightarrow> 'm"
    and count :: "'m \<Rightarrow> nat"
  assumes get_put: "get (put k v m) k' = (if k' = k then Some v else get m k')"
    and get_del: "get (del k m) k' = (if k' = k then None else get m k')"
    and get_keep: "wf m \<Longrightarrow>
      get (keep P m) k = (case get m k of None \<Rightarrow> None | Some v \<Rightarrow> if P k v then Some v else None)"
    and wf_put: "wf m \<Longrightarrow> wf (put k v m)"
    and wf_del: "wf m \<Longrightarrow> wf (del k m)"
    and wf_keep: "wf m \<Longrightarrow> wf (keep P m)"
    and count_put: "wf m \<Longrightarrow> count (put k v m) = (if get m k = None then Suc (count m) else count m)"
    and count_del: "wf m \<Longrightarrow> count (del k m) = (if get m k = None then count m else count m - 1)"
    and count_keep: "count (keep P m) \<le> count m"
begin

lemmas map_simps = get_put get_del wf_put wf_del wf_keep

lemma keep_subset: "wf m \<Longrightarrow> get (keep P m) k = Some v \<Longrightarrow> get m k = Some v \<and> P k v"
  by (auto simp: get_keep split: option.splits if_splits)

lemma keep_intro: "wf m \<Longrightarrow> get m k = Some v \<Longrightarrow> P k v \<Longrightarrow> get (keep P m) k = Some v"
  by (simp add: get_keep)

lemma keep_keep:
  "wf m \<Longrightarrow> get (keep Q (keep P m)) k = get (keep (\<lambda>k v. P k v \<and> Q k v) m) k"
  by (simp add: get_keep wf_keep split: option.splits)

text \<open>Insertion under a size cap: the cap survives when room was made for a new key.\<close>

lemma bounded_put:
  assumes "wf m" and "count m \<le> n" and "get m k = None \<Longrightarrow> count m < n"
  shows "count (put k v m) \<le> n"
  using assms by (auto simp: count_put)

lemma bounded_keep_put:
  assumes "wf m" and "count m \<le> n" and "get (keep P m) k = None \<Longrightarrow> count (keep P m) < n"
  shows "count (put k v (keep P m)) \<le> n"
  using assms wf_keep [of m P] count_keep [of P m]
  by (intro bounded_put) auto

lemma put_restores:
  "get m k = Some v \<Longrightarrow> get (put k v (del k m)) k' = get m k'"
  by (simp add: get_put get_del)

end

lemma map_of_filter_pair:
  "distinct (map fst m) \<Longrightarrow>
   map_of (filter (\<lambda>(k, v). P k v) m) k
     = (case map_of m k of None \<Rightarrow> None | Some v \<Rightarrow> if P k v then Some v else None)"
proof (induction m)
  case Nil
  then show ?case by simp
next
  case (Cons a m)
  obtain k' v' where a: "a = (k', v')" by (cases a)
  have "map_of (filter (\<lambda>(k, v). P k v) m) k' = None"
    using Cons.prems by (auto simp: a map_of_eq_None_iff)
  with Cons a show ?case by auto
qed

lemma map_of_filter_neq:
  "map_of (filter (\<lambda>(k', _). k' \<noteq> k) m) k' = (if k' = k then None else map_of m k')"
  by (induction m) auto

lemma length_filter_neq:
  "distinct (map fst m) \<Longrightarrow>
   length (filter (\<lambda>(k', _). k' \<noteq> k) m)
     = (if map_of m k = None then length m else length m - 1)"
proof (induction m)
  case Nil
  then show ?case by simp
next
  case (Cons a m)
  obtain k' v' where a: "a = (k', v')" by (cases a)
  show ?case
  proof (cases "k' = k")
    case True
    then have "map_of m k = None" using Cons.prems by (auto simp: a map_of_eq_None_iff)
    with Cons True show ?thesis by (simp add: a)
  next
    case False
    have "map_of m k \<noteq> None \<Longrightarrow> 0 < length m" by (cases m) auto
    with Cons False show ?thesis by (auto simp: a)
  qed
qed

lemma distinct_map_filter: "distinct (map f xs) \<Longrightarrow> distinct (map f (filter P xs))"
  by (induction xs) auto

lemma hm_insert_keys: "fst ` set (hm_insert k v m) = insert k (fst ` set m)"
  by (induction k v m rule: hm_insert.induct) auto

lemma hm_insert_get: "map_of (hm_insert k v m) k' = (if k' = k then Some v else map_of m k')"
  by (induction m) auto

lemma hm_insert_distinct: "distinct (map fst m) \<Longrightarrow> distinct (map fst (hm_insert k v m))"
proof (induction m)
  case Nil
  then show ?case by simp
next
  case (Cons a m)
  then show ?case using hm_insert_keys [of k v m] by (cases a) auto
qed

lemma hm_insert_length:
  "length (hm_insert k v m) = (if map_of m k = None then Suc (length m) else length m)"
  by (induction m) auto

interpretation hm: keyed_map hm_wf hm_get hm_insert hm_remove hm_retain length
proof unfold_locales
qed (auto simp: hm_wf_def hm_get_def hm_remove_def hm_retain_def hm_insert_get
      map_of_filter_neq map_of_filter_pair hm_insert_distinct hm_insert_length
      length_filter_neq distinct_map_filter)

lemma bt_insert_keys: "fst ` set (bt_insert k v m) = insert k (fst ` set m)"
  by (induction k v m rule: bt_insert.induct) auto

lemma bt_insert_get: "map_of (bt_insert k v m) k' = (if k' = k then Some v else map_of m k')"
  by (induction m) auto

lemma bt_insert_sorted:
  "sorted_wrt (<) (map fst m) \<Longrightarrow> sorted_wrt (<) (map fst (bt_insert (k::'k::linorder) v m))"
proof (induction m)
  case Nil
  then show ?case by simp
next
  case (Cons a m)
  obtain k' v' where a: "a = (k', v')" by (cases a)
  have keys: "set (map fst (bt_insert k v m)) = insert k (fst ` set m)"
    using bt_insert_keys [of k v m] by simp
  show ?case
  proof (cases k k' rule: linorder_cases)
    case less
    with Cons a show ?thesis by (auto intro: less_trans)
  next
    case equal
    with Cons a show ?thesis by simp
  next
    case greater
    moreover have "\<forall>x \<in> insert k (fst ` set m). k' < x"
      using Cons.prems greater by (auto simp: a)
    ultimately show ?thesis using Cons a keys by (auto simp del: set_map)
  qed
qed

lemma sorted_lt_distinct: "sorted_wrt (<) xs \<Longrightarrow> distinct (xs :: 'k::linorder list)"
  by (induction xs) auto

lemma bt_insert_length:
  "sorted_wrt (<) (map fst m) \<Longrightarrow>
   length (bt_insert (k::'k::linorder) v m) = (if map_of m k = None then Suc (length m) else length m)"
proof (induction m)
  case Nil
  then show ?case by simp
next
  case (Cons a m)
  have "k < fst a \<Longrightarrow> map_of m k = None"
    using Cons.prems by (force simp: map_of_eq_None_iff)
  then show ?case using Cons by (cases a) auto
qed

lemma sorted_map_filter:
  "sorted_wrt R (map f xs) \<Longrightarrow> sorted_wrt R (map f (filter P xs))"
  by (induction xs) auto

interpretation bt: keyed_map bt_wf bt_get "bt_insert :: 'k::linorder \<Rightarrow> 'v \<Rightarrow> _" bt_remove bt_retain length
proof unfold_locales
qed (auto simp: bt_wf_def bt_get_def bt_remove_def bt_retain_def bt_insert_get
      map_of_filter_neq map_of_filter_pair bt_insert_sorted bt_insert_length
      length_filter_neq sorted_map_filter sorted_lt_distinct)

lemma bt_wf_Nil [simp]: "bt_wf []" by (simp add: bt_wf_def)
lemma hm_wf_Nil [simp]: "hm_wf []" by (simp add: hm_wf_def)
lemma bt_get_Nil [simp]: "bt_get [] k = None" by (simp add: bt_get_def)
lemma hm_get_Nil [simp]: "hm_get [] k = None" by (simp add: hm_get_def)

lemmas [map_laws] = hm.map_simps hm.get_keep bt.map_simps bt.get_keep

lemma bt_get_in_set: "bt_get m k = Some v \<Longrightarrow> (k, v) \<in> set m"
  by (simp add: bt_get_def map_of_SomeD)

lemma bt_in_set_get: "bt_wf m \<Longrightarrow> (k, v) \<in> set m \<Longrightarrow> bt_get m k = Some v"
  by (simp add: bt_get_def bt_wf_def sorted_lt_distinct)

lemma hm_get_in_set: "hm_get m k = Some v \<Longrightarrow> (k, v) \<in> set m"
  by (simp add: hm_get_def map_of_SomeD)

lemma hm_in_set_get: "hm_wf m \<Longrightarrow> (k, v) \<in> set m \<Longrightarrow> hm_get m k = Some v"
  by (simp add: hm_get_def hm_wf_def)

section \<open>Keeping the best candidate\<close>

text \<open>
  The loop \<open>for (i, r) in candidates \<dots> if best.is_none_or(|(_, b)| r.better_than(b))\<close>:
  a later candidate replaces the current best only when it is strictly better.
\<close>

fun pick_best :: "('r \<Rightarrow> 'r \<Rightarrow> bool) \<Rightarrow> (nat \<times> 'r) option \<Rightarrow> (nat \<times> 'r) list \<Rightarrow> (nat \<times> 'r) option" where
  "pick_best better best [] = best"
| "pick_best better best ((i, r) # xs) =
     pick_best better
       (case best of None \<Rightarrow> Some (i, r) | Some (j, b) \<Rightarrow> if better r b then Some (i, r) else Some (j, b))
       xs"

lemma pick_best_Some_result: "pick_best better (Some b) xs \<noteq> None"
  by (induction better "Some b" xs arbitrary: b rule: pick_best.induct) auto

lemma pick_best_None_iff: "pick_best better None xs = None \<longleftrightarrow> xs = []"
proof (cases xs)
  case (Cons a xs')
  then show ?thesis using pick_best_Some_result [of better a xs'] by (cases a) auto
qed simp

lemma pick_best_mem: "pick_best better best xs = Some x \<Longrightarrow> best = Some x \<or> x \<in> set xs"
  by (induction better best xs rule: pick_best.induct) (auto split: option.splits if_splits)

text \<open>A property that the comparison puts first decides the winner even when the comparison is not
  transitive below it.\<close>

lemma pick_best_dominant:
  assumes dom: "\<And>a b. P a \<Longrightarrow> \<not> P b \<Longrightarrow> better a b" and keeps: "\<And>a b. better a b \<Longrightarrow> P b \<Longrightarrow> P a"
    and ex: "(\<exists>j s. best = Some (j, s) \<and> P s) \<or> (\<exists>(j, s) \<in> set xs. P s)"
    and res: "pick_best better best xs = Some (i, r)"
  shows "P r"
  using ex res
proof (induction xs arbitrary: best)
  case (Cons x xs)
  obtain i' r' where x: "x = (i', r')" by (cases x)
  define nb where "nb = (case best of None \<Rightarrow> (i', r') | Some (j, b) \<Rightarrow> if better r' b then (i', r') else (j, b))"
  have "P (snd nb) \<or> (\<exists>(j, s) \<in> set xs. P s)"
  proof (cases best)
    case None
    with Cons.prems(1) show ?thesis by (auto simp: nb_def x)
  next
    case (Some jb)
    obtain j b where jb: "jb = (j, b)" by (cases jb)
    show ?thesis using Cons.prems(1) Some jb dom [of r' b] keeps [of r' b] by (auto simp: nb_def x)
  qed
  moreover have "pick_best better (Some nb) xs = Some (i, r)"
    using Cons.prems(2) by (auto simp: x nb_def split: option.splits if_splits prod.splits)
  ultimately show ?case using Cons.IH [of "Some nb"] by (cases nb) auto
qed auto

text \<open>\<open>Iterator::min_by_key\<close>: the first element whose key is least.\<close>

fun first_min :: "('a \<Rightarrow> 'b::linorder) \<Rightarrow> 'a list \<Rightarrow> 'a option" where
  "first_min f [] = None"
| "first_min f (x # xs) =
     (case first_min f xs of None \<Rightarrow> Some x | Some y \<Rightarrow> if f y < f x then Some y else Some x)"

lemma first_min_None_iff [simp]: "first_min f xs = None \<longleftrightarrow> xs = []"
  by (cases xs) (auto split: option.splits)

lemma first_min_least:
  "first_min f xs = Some m \<Longrightarrow> m \<in> set xs \<and> (\<forall>x \<in> set xs. f m \<le> f x)"
proof (induction xs arbitrary: m)
  case (Cons x xs)
  then show ?case
    by (cases "first_min f xs") (fastforce split: if_splits)+
qed simp

locale ranking =
  fixes better :: "'r \<Rightarrow> 'r \<Rightarrow> bool"
  assumes asym: "better a b \<Longrightarrow> \<not> better b a"
    and ntrans: "\<not> better a b \<Longrightarrow> \<not> better b c \<Longrightarrow> \<not> better a c"
begin

lemma irrefl: "\<not> better a a"
  using asym by blast

lemma trans: "better a b \<Longrightarrow> better b c \<Longrightarrow> better a c"
  using asym ntrans by blast

lemma pick_best_optimal_gen:
  assumes "pick_best better best xs = Some (i, r)"
  shows "(\<forall>(j, s) \<in> set xs. \<not> better s r) \<and> (\<forall>j s. best = Some (j, s) \<longrightarrow> \<not> better s r)"
  using assms
proof (induction xs arbitrary: best)
  case Nil
  then show ?case using irrefl by auto
next
  case (Cons x xs)
  obtain i' r' where x: "x = (i', r')" by (cases x)
  show ?case
  proof (cases best)
    case None
    with Cons x show ?thesis by fastforce
  next
    case (Some jb)
    obtain j b where best: "best = Some (j, b)" using Some by (cases jb) auto
    show ?thesis
    proof (cases "better r' b")
      case True
      with Cons.IH [of "Some (i', r')"] Cons.prems best x
      have "\<forall>(j, s) \<in> set xs. \<not> better s r" "\<not> better r' r" by auto
      moreover have "\<not> better b r" using \<open>\<not> better r' r\<close> True trans by blast
      ultimately show ?thesis using best x by auto
    next
      case False
      with Cons.IH [of "Some (j, b)"] Cons.prems best x
      have "\<forall>(j, s) \<in> set xs. \<not> better s r" "\<not> better b r" by auto
      moreover have "\<not> better r' r" using \<open>\<not> better b r\<close> False ntrans by blast
      ultimately show ?thesis using best x by auto
    qed
  qed
qed

lemma pick_best_optimal:
  "pick_best better None xs = Some (i, r) \<Longrightarrow> (j, s) \<in> set xs \<Longrightarrow> \<not> better s r"
  using pick_best_optimal_gen by fastforce

end

text \<open>A comparison that also separates any two distinct ranks, so the winner does not depend on
  the order in which the candidates are offered.\<close>

locale strict_ranking = ranking +
  fixes key :: "'r \<Rightarrow> 'k"
  assumes separates: "\<not> better a b \<Longrightarrow> \<not> better b a \<Longrightarrow> key a = key b"
begin

lemma pick_best_order_free:
  assumes "set (map snd xs) = set (map snd ys)"
    and "pick_best better None xs = Some (i, r)"
    and "pick_best better None ys = Some (j, s)"
  shows "key r = key s"
proof -
  have "r \<in> set (map snd xs)" "s \<in> set (map snd ys)"
    using pick_best_mem [OF assms(2)] pick_best_mem [OF assms(3)] by force+
  then obtain i' j' where "(i', s) \<in> set xs" "(j', r) \<in> set ys"
    using assms(1) by fastforce
  then have "\<not> better s r" "\<not> better r s"
    using pick_best_optimal assms(2,3) by blast+
  then show ?thesis by (rule separates [rotated])
qed

end

end
