(* ===== verification/Text.thy ===== *)
theory Text
  imports Prelude
begin

text \<open>
  The part of Rust's \<open>str\<close> that the sources use, on byte strings: character classes, case
  conversion and trimming (on ASCII, the only characters these inputs are compared with),
  splitting, decimal parsing and printing.  Every function is the standard library's, branch
  by branch; the lemmas are the round trips and the trimming laws the components need.
\<close>

section \<open>Characters\<close>

abbreviation ccode :: "char \<Rightarrow> nat" where
  "ccode c \<equiv> of_char c"

definition is_ws :: "char \<Rightarrow> bool" where
  "is_ws c = (let n = ccode c in n = 32 \<or> (9 \<le> n \<and> n \<le> 13))"

definition is_digit :: "char \<Rightarrow> bool" where
  "is_digit c = (let n = ccode c in 48 \<le> n \<and> n \<le> 57)"

definition is_upper :: "char \<Rightarrow> bool" where
  "is_upper c = (let n = ccode c in 65 \<le> n \<and> n \<le> 90)"

definition is_lower :: "char \<Rightarrow> bool" where
  "is_lower c = (let n = ccode c in 97 \<le> n \<and> n \<le> 122)"

definition is_alnum :: "char \<Rightarrow> bool" where
  "is_alnum c = (is_digit c \<or> is_upper c \<or> is_lower c)"

definition is_hexdigit :: "char \<Rightarrow> bool" where
  "is_hexdigit c = (let n = ccode c in (48 \<le> n \<and> n \<le> 57) \<or> (65 \<le> n \<and> n \<le> 70) \<or> (97 \<le> n \<and> n \<le> 102))"

definition is_control :: "char \<Rightarrow> bool" where
  "is_control c = (let n = ccode c in n < 32 \<or> n = 127)"

definition lower_char :: "char \<Rightarrow> char" where
  "lower_char c = (if is_upper c then char_of (ccode c + 32) else c)"

definition upper_char :: "char \<Rightarrow> char" where
  "upper_char c = (if is_lower c then char_of (ccode c - 32) else c)"

definition to_lower :: "string \<Rightarrow> string" where
  "to_lower s = map lower_char s"

definition to_upper :: "string \<Rightarrow> string" where
  "to_upper s = map upper_char s"

definition eq_ignore_case :: "string \<Rightarrow> string \<Rightarrow> bool" where
  "eq_ignore_case a b = (to_lower a = to_lower b)"

section \<open>Trimming, prefixes and splitting\<close>

definition trim_start :: "string \<Rightarrow> string" where
  "trim_start s = dropWhile is_ws s"

definition trim_end :: "string \<Rightarrow> string" where
  "trim_end s = rev (dropWhile is_ws (rev s))"

definition trim :: "string \<Rightarrow> string" where
  "trim s = trim_end (trim_start s)"

fun strip_prefix :: "string \<Rightarrow> string \<Rightarrow> string option" where
  "strip_prefix [] s = Some s"
| "strip_prefix (p # ps) [] = None"
| "strip_prefix (p # ps) (c # cs) = (if p = c then strip_prefix ps cs else None)"

definition starts_with :: "string \<Rightarrow> string \<Rightarrow> bool" where
  "starts_with s p = (strip_prefix p s \<noteq> None)"

definition strip_suffix :: "string \<Rightarrow> string \<Rightarrow> string option" where
  "strip_suffix p s = (case strip_prefix (rev p) (rev s) of None \<Rightarrow> None | Some r \<Rightarrow> Some (rev r))"

definition ends_with :: "string \<Rightarrow> string \<Rightarrow> bool" where
  "ends_with s p = (strip_suffix p s \<noteq> None)"

fun has_sub :: "string \<Rightarrow> string \<Rightarrow> bool" where
  "has_sub [] p = (p = [])"
| "has_sub (c # cs) p = (starts_with (c # cs) p \<or> has_sub cs p)"

text \<open>\<open>trim_end_matches\<close>: removes a (non-empty) suffix as often as it occurs.\<close>

function trim_end_matches :: "string \<Rightarrow> string \<Rightarrow> string" where
  "trim_end_matches p s =
     (if p = [] then s
      else case strip_suffix p s of None \<Rightarrow> s | Some r \<Rightarrow> trim_end_matches p r)"
  by pat_completeness auto

lemma strip_prefix_length: "strip_prefix p s = Some r \<Longrightarrow> length s = length p + length r"
  by (induction p s rule: strip_prefix.induct) (auto split: if_splits)

termination trim_end_matches
  by (relation "measure (\<lambda>(p, s). length s)")
    (auto simp: strip_suffix_def dest!: strip_prefix_length split: option.splits)

declare trim_end_matches.simps [simp del]

text \<open>\<open>split(c)\<close>, \<open>split_once(c)\<close>, \<open>rsplit_once(c)\<close>, \<open>split_whitespace\<close> and \<open>lines\<close>.\<close>

fun split_on :: "char \<Rightarrow> string \<Rightarrow> string list" where
  "split_on c [] = [[]]"
| "split_on c (x # xs) =
     (if x = c then [] # split_on c xs
      else (case split_on c xs of [] \<Rightarrow> [[x]] | y # ys \<Rightarrow> (x # y) # ys))"

definition split_once :: "char \<Rightarrow> string \<Rightarrow> (string \<times> string) option" where
  "split_once c s =
     (case dropWhile (\<lambda>x. x \<noteq> c) s of [] \<Rightarrow> None
      | _ # rest \<Rightarrow> Some (takeWhile (\<lambda>x. x \<noteq> c) s, rest))"

definition rsplit_once :: "char \<Rightarrow> string \<Rightarrow> (string \<times> string) option" where
  "rsplit_once c s =
     (case split_once c (rev s) of None \<Rightarrow> None | Some (a, b) \<Rightarrow> Some (rev b, rev a))"

fun split_ws_from :: "string \<Rightarrow> string \<Rightarrow> string list" where
  "split_ws_from acc [] = (if acc = [] then [] else [rev acc])"
| "split_ws_from acc (c # cs) =
     (if is_ws c then (if acc = [] then split_ws_from [] cs else rev acc # split_ws_from [] cs)
      else split_ws_from (c # acc) cs)"

definition split_whitespace :: "string \<Rightarrow> string list" where
  "split_whitespace s = split_ws_from [] s"

abbreviation newline :: char where
  "newline \<equiv> CHR 0x0A"

abbreviation carriage :: char where
  "carriage \<equiv> CHR 0x0D"

definition drop_cr :: "string \<Rightarrow> string" where
  "drop_cr s = (if s \<noteq> [] \<and> last s = carriage then butlast s else s)"

definition lines :: "string \<Rightarrow> string list" where
  "lines s =
     (let parts = split_on newline s
      in map drop_cr (butlast parts) @ (if last parts = [] then [] else [last parts]))"

fun join :: "string \<Rightarrow> string list \<Rightarrow> string" where
  "join sep [] = []"
| "join sep [x] = x"
| "join sep (x # y # ys) = x @ sep @ join sep (y # ys)"

section \<open>Decimal numbers\<close>

fun dec_value :: "nat \<Rightarrow> string \<Rightarrow> nat" where
  "dec_value acc [] = acc"
| "dec_value acc (c # cs) = dec_value (acc * 10 + (ccode c - 48)) cs"

text \<open>\<open>str::parse::<uN>()\<close>: one optional plus sign, at least one digit, no overflow.\<close>

definition parse_nat :: "string \<Rightarrow> nat option" where
  "parse_nat s =
     (let d = (case s of [] \<Rightarrow> [] | c # cs \<Rightarrow> if c = CHR ''+'' then cs else s)
      in if d \<noteq> [] \<and> list_all is_digit d then Some (dec_value 0 d) else None)"

definition parse_word :: "string \<Rightarrow> 'a::len word option" where
  "parse_word s =
     (case parse_nat s of None \<Rightarrow> None
      | Some n \<Rightarrow> if n < 2 ^ LENGTH('a) then Some (of_nat n) else None)"

definition parse_usize :: "string \<Rightarrow> nat option" where
  "parse_usize s =
     (case parse_nat s of None \<Rightarrow> None | Some n \<Rightarrow> if n < 2 ^ 64 then Some n else None)"

fun show_nat :: "nat \<Rightarrow> string" where
  "show_nat n = (if n < 10 then [char_of (48 + n)] else show_nat (n div 10) @ [char_of (48 + n mod 10)])"

declare show_nat.simps [simp del]

lemma dec_value_snoc: "dec_value a (xs @ [c]) = dec_value a xs * 10 + (ccode c - 48)"
  by (induction xs arbitrary: a) auto

lemma code_digit [simp]: "d < 10 \<Longrightarrow> ccode (char_of (48 + d)) = 48 + d"
  by (simp add: of_char_of)

lemma is_digit_digit [simp]: "d < 10 \<Longrightarrow> is_digit (char_of (48 + d :: nat))"
  by (simp add: is_digit_def Let_def)

lemma dec_value_show_nat: "dec_value 0 (show_nat n) = n"
proof (induction n rule: show_nat.induct)
  case (1 n)
  then show ?case by (subst show_nat.simps) (simp add: dec_value_snoc)
qed

lemma show_nat_digits: "list_all is_digit (show_nat n)"
proof (induction n rule: show_nat.induct)
  case (1 n)
  then show ?case by (subst show_nat.simps) simp
qed

lemma show_nat_nonempty [simp]: "show_nat n \<noteq> []"
  by (subst show_nat.simps) simp

lemma parse_show_nat [simp]: "parse_nat (show_nat n) = Some n"
proof -
  obtain c cs where s: "show_nat n = c # cs" by (metis show_nat_nonempty neq_Nil_conv)
  have "is_digit c" using show_nat_digits [of n] s by simp
  then have "c \<noteq> CHR ''+''" by (auto simp: is_digit_def)
  then show ?thesis
    using show_nat_digits [of n] dec_value_show_nat [of n] s by (simp add: parse_nat_def)
qed

lemma parse_show_word: "parse_word (show_nat (unat (w :: 'a::len word))) = Some w"
  using unsigned_less [of w, where 'a = nat] by (simp add: parse_word_def)

lemma show_nat_inj: "show_nat m = show_nat n \<Longrightarrow> m = n"
  by (metis dec_value_show_nat)

section \<open>Laws\<close>

lemma strip_prefix_Some_iff: "strip_prefix p s = Some r \<longleftrightarrow> s = p @ r"
  by (induction p s rule: strip_prefix.induct) auto

lemma starts_with_iff: "starts_with s p \<longleftrightarrow> (\<exists>r. s = p @ r)"
  by (auto simp: starts_with_def strip_prefix_Some_iff)

lemma ends_with_iff: "ends_with s p \<longleftrightarrow> (\<exists>r. s = r @ p)"
proof -
  have "strip_suffix p s = Some r \<longleftrightarrow> s = r @ p" for r
    by (auto simp: strip_suffix_def strip_prefix_Some_iff rev_eq_append_conv split: option.splits)
      (metis option.distinct(1) rev_append strip_prefix_Some_iff)
  then show ?thesis by (auto simp: ends_with_def)
qed

lemma has_sub_iff: "has_sub s p \<longleftrightarrow> (\<exists>a b. s = a @ p @ b)"
proof (induction s)
  case (Cons c cs)
  have "(\<exists>a b. c # cs = a @ p @ b) \<longleftrightarrow> (\<exists>b. c # cs = p @ b) \<or> (\<exists>a b. cs = a @ p @ b)"
    by (metis append_Cons append_Nil list.inject neq_Nil_conv)
  with Cons show ?case by (simp add: starts_with_iff)
qed auto

lemma trim_end_append_ws: "is_ws c \<Longrightarrow> trim_end (s @ [c]) = trim_end s"
  by (simp add: trim_end_def)

lemma trim_start_idem [simp]: "trim_start (trim_start s) = trim_start s"
  by (simp add: trim_start_def dropWhile_idem)

lemma trim_end_idem [simp]: "trim_end (trim_end s) = trim_end s"
  by (simp add: trim_end_def dropWhile_idem)

lemma trim_start_trim_end: "trim_start (trim_end (trim_start s)) = trim_end (trim_start s)"
proof (cases "trim_start s")
  case (Cons c cs)
  then have "\<not> is_ws c" unfolding trim_start_def by (metis hd_dropWhile list.discI list.sel(1))
  then have "trim_end (c # cs) = c # trim_end cs"
    by (simp add: trim_end_def dropWhile_append)
  with Cons \<open>\<not> is_ws c\<close> show ?thesis by (simp add: trim_start_def)
next
  case Nil
  then show ?thesis by (simp add: trim_end_def) (simp add: trim_start_def)
qed

lemma trim_idem [simp]: "trim (trim s) = trim s"
  by (simp add: trim_def trim_start_trim_end)

lemma split_on_nonempty [simp]: "split_on c s \<noteq> []"
  by (induction s) (auto split: list.splits)

lemma join_split_on: "join [c] (split_on c s) = s"
proof (induction s)
  case (Cons x xs)
  obtain y ys where s: "split_on c xs = y # ys" by (meson list.exhaust split_on_nonempty)
  show ?case using Cons s by (cases ys) auto
qed simp

lemma split_on_parts: "p \<in> set (split_on c s) \<Longrightarrow> c \<notin> set p"
  by (induction s arbitrary: p) (auto split: list.splits if_splits)

lemma split_on_join:
  "ps \<noteq> [] \<Longrightarrow> \<forall>p \<in> set ps. c \<notin> set p \<Longrightarrow> split_on c (join [c] ps) = ps"
proof (induction "[c]" ps rule: join.induct)
  case (2 x)
  then have "c \<notin> set x" by simp
  then show ?case by (induction x) auto
next
  case (3 x y ys)
  have "c \<notin> set x" using 3 by simp
  then have "split_on c (x @ c # s) = x # split_on c s" for s by (induction x) auto
  with 3 show ?case by simp
qed simp

lemma lower_char_idem [simp]: "lower_char (lower_char c) = lower_char c"
proof (cases "is_upper c")
  case True
  then have "ccode c + 32 < 256" "90 < ccode c + 32" by (auto simp: is_upper_def Let_def)
  then have "\<not> is_upper (char_of (ccode c + 32))" by (simp add: is_upper_def Let_def of_char_of)
  with True show ?thesis by (simp add: lower_char_def)
qed (simp add: lower_char_def)

lemma to_lower_idem [simp]: "to_lower (to_lower s) = to_lower s"
  by (simp add: to_lower_def)

lemma split_once_Some: "split_once c s = Some (a, b) \<Longrightarrow> s = a @ c # b \<and> c \<notin> set a"
proof -
  assume *: "split_once c s = Some (a, b)"
  then obtain x where d: "dropWhile (\<lambda>x. x \<noteq> c) s = x # b" and a: "a = takeWhile (\<lambda>x. x \<noteq> c) s"
    by (auto simp: split_once_def split: list.splits)
  have "x = c" using d by (simp add: dropWhile_eq_Cons_conv)
  moreover have "s = a @ dropWhile (\<lambda>x. x \<noteq> c) s" by (simp add: a)
  moreover have "c \<notin> set a" unfolding a by (auto dest: set_takeWhileD)
  ultimately show ?thesis using d by simp
qed

end
