(* ===== verification/Ieee.thy ===== *)
theory Ieee
  imports Prelude "HOL-Library.Log_Nat"
begin

text \<open>
  Rust's \<open>f64\<close> and \<open>f32\<close>: IEEE 754 binary arithmetic with round-to-nearest, ties to even.
  A finite value is a rational number; each arithmetic operator is the exact rational
  operation followed by one rounding to the format (precision \<open>p\<close>, least exponent
  \<open>emin\<close>), with overflow to infinity, gradual underflow and NaN as the standard has
  them.  The sign of zero is not represented: no operation of the code reads it.

  The lemmas are the ones the planner's arithmetic needs: rounding is monotone, it is exact
  on small integers, and it moves a normal number by at most half a unit in the last place.
\<close>

section \<open>Rounding a rational number\<close>

definition ilog2 :: "rat \<Rightarrow> int" where
  "ilog2 x =
     (let (p, q) = quotient_of x;
          k = int (floorlog 2 (nat p)) - int (floorlog 2 (nat q))
      in if 2 powi k \<le> x then k else k - 1)"

definition round_half_even :: "rat \<Rightarrow> int" where
  "round_half_even x =
     (let f = \<lfloor>x\<rfloor>; d = x - of_int f
      in if d < 1 / 2 then f
         else if 1 / 2 < d then f + 1
         else if even f then f else f + 1)"

definition ulp_exp :: "nat \<Rightarrow> int \<Rightarrow> rat \<Rightarrow> int" where
  "ulp_exp p emin x = max (ilog2 \<bar>x\<bar> - (int p - 1)) emin"

definition rnd :: "nat \<Rightarrow> int \<Rightarrow> rat \<Rightarrow> rat" where
  "rnd p emin x =
     (if x = 0 then 0
      else let e = ulp_exp p emin x in of_int (round_half_even (x / 2 powi e)) * 2 powi e)"

lemma ilog2_bounds:
  assumes "0 < x"
  shows "2 powi (ilog2 x) \<le> x" and "x < 2 powi (ilog2 x + 1)"
proof -
  obtain p q where pq: "quotient_of x = (p, q)" by (cases "quotient_of x")
  have q: "0 < q" using quotient_of_denom_pos [OF pq] .
  have x: "x = of_int p / of_int q" using quotient_of_div [OF pq] .
  with assms q have p: "0 < p" by (simp add: zero_less_divide_iff)
  define a where "a = floorlog 2 (nat p)"
  define b where "b = floorlog 2 (nat q)"
  have pb: "2 ^ (a - 1) \<le> nat p \<and> nat p < 2 ^ a"
    using floorlog_bounds [of "nat p" 2] p by (simp add: a_def)
  have qb: "2 ^ (b - 1) \<le> nat q \<and> nat q < 2 ^ b"
    using floorlog_bounds [of "nat q" 2] q by (simp add: b_def)
  have a0: "0 < a" and b0: "0 < b"
    using p q floorlog_eq_zero_iff [of 2 "nat p"] floorlog_eq_zero_iff [of 2 "nat q"]
    by (auto simp: a_def b_def)
  have p_rat: "(2::rat) powi (int a - 1) \<le> of_int p \<and> of_int p < (2::rat) powi int a" 
  proof -
    have "of_nat (2 ^ (a - 1)) \<le> (of_nat (nat p) :: rat)" "(of_nat (nat p) :: rat) < of_nat (2 ^ a)"
      using pb by (auto simp only: of_nat_le_iff of_nat_less_iff)
    moreover have "(2::rat) powi (int a - 1) = 2 ^ (a - 1)"
      using a0 by (metis Suc_pred' diff_Suc_1 of_nat_Suc power_int_of_nat add_diff_cancel_left' add.commute)
    ultimately show ?thesis using p by simp
  qed
  have q_rat: "(2::rat) powi (int b - 1) \<le> of_int q \<and> of_int q < (2::rat) powi int b" 
  proof -
    have "of_nat (2 ^ (b - 1)) \<le> (of_nat (nat q) :: rat)" "(of_nat (nat q) :: rat) < of_nat (2 ^ b)"
      using qb by (auto simp only: of_nat_le_iff of_nat_less_iff)
    moreover have "(2::rat) powi (int b - 1) = 2 ^ (b - 1)"
      using b0 by (metis Suc_pred' diff_Suc_1 of_nat_Suc power_int_of_nat add_diff_cancel_left' add.commute)
    ultimately show ?thesis using q by simp
  qed
  define k where "k = int a - int b"
  have upper: "x < 2 powi (k + 1)"
  proof -
    have "of_int p < (2::rat) powi int a" using p_rat by simp
    also have "\<dots> = 2 powi (k + 1) * 2 powi (int b - 1)"
      by (simp add: k_def flip: power_int_add)
    also have "\<dots> \<le> 2 powi (k + 1) * of_int q"
      using q_rat by (intro mult_left_mono) auto
    finally show ?thesis using q by (simp add: x pos_divide_less_eq)
  qed
  have lower: "2 powi (k - 1) \<le> x"
  proof -
    have "2 powi (k - 1) * of_int q \<le> (2::rat) powi (k - 1) * 2 powi int b"
      using q_rat by (intro mult_left_mono) auto
    also have "\<dots> = 2 powi (k - 1 + int b)" by (rule power_int_add [symmetric]) simp
    also have "\<dots> = 2 powi (int a - 1)" by (simp add: k_def)
    also have "\<dots> \<le> of_int p" using p_rat by simp
    finally show ?thesis using q by (simp add: x pos_le_divide_eq)
  qed
  have il: "ilog2 x = (if 2 powi k \<le> x then k else k - 1)"
    by (simp add: ilog2_def pq a_def b_def k_def Let_def)
  show "2 powi (ilog2 x) \<le> x" using il lower by auto
  show "x < 2 powi (ilog2 x + 1)" using il upper by auto
qed

lemma powi2_mono: "a \<le> b \<Longrightarrow> (2::rat) powi a \<le> 2 powi b"
  by (simp add: power_int_increasing)

lemma powi2_pos [simp]: "0 < (2::rat) powi a"
  by simp

lemma powi2_less_imp: "(2::rat) powi a < 2 powi b \<Longrightarrow> a < b"
  by (meson linorder_not_less powi2_mono)

lemma ilog2_unique:
  assumes "2 powi e \<le> x" and "x < 2 powi (e + 1)"
  shows "ilog2 x = e"
proof -
  have x: "0 < x" using assms(1) powi2_pos [of e] by linarith
  have "(2::rat) powi (ilog2 x) < 2 powi (e + 1)" "(2::rat) powi e < 2 powi (ilog2 x + 1)"
    using ilog2_bounds [OF x] assms by linarith+
  then have "ilog2 x < e + 1" "e < ilog2 x + 1" by (auto dest: powi2_less_imp)
  then show ?thesis by simp
qed

lemma ilog2_mono:
  assumes "0 < x" and "x \<le> y"
  shows "ilog2 x \<le> ilog2 y"
proof -
  have "(2::rat) powi (ilog2 x) < 2 powi (ilog2 y + 1)"
    using ilog2_bounds [of x] ilog2_bounds [of y] assms by linarith
  then show ?thesis using powi2_less_imp by fastforce
qed

lemma round_half_even_bounds:
  "of_int (round_half_even x) \<le> x + 1 / 2" "x - 1 / 2 \<le> of_int (round_half_even x)"
  unfolding round_half_even_def Let_def by (auto; linarith)+

lemma round_half_even_of_int [simp]: "round_half_even (of_int n) = n"
  by (simp add: round_half_even_def)

lemma round_half_even_mono: "x \<le> y \<Longrightarrow> round_half_even x \<le> round_half_even y"
proof -
  assume xy: "x \<le> y"
  then have fl: "\<lfloor>x\<rfloor> \<le> \<lfloor>y\<rfloor>" by (rule floor_mono)
  show ?thesis
  proof (cases "\<lfloor>x\<rfloor> = \<lfloor>y\<rfloor>")
    case True
    then show ?thesis using xy by (auto simp: round_half_even_def Let_def)
  next
    case False
    with fl have "\<lfloor>x\<rfloor> + 1 \<le> \<lfloor>y\<rfloor>" by simp
    then show ?thesis by (auto simp: round_half_even_def Let_def)
  qed
qed

lemma round_half_even_ge: "of_int n \<le> x \<Longrightarrow> n \<le> round_half_even x"
  using round_half_even_mono [of "of_int n" x] by simp

lemma round_half_even_le: "x \<le> of_int n \<Longrightarrow> round_half_even x \<le> n"
  using round_half_even_mono [of x "of_int n"] by simp

lemma rnd_0 [simp]: "rnd p emin 0 = 0"
  by (simp add: rnd_def)

lemma rnd_eq:
  "0 < x \<Longrightarrow> rnd p emin x
     = of_int (round_half_even (x / 2 powi ulp_exp p emin x)) * 2 powi ulp_exp p emin x"
  by (simp add: rnd_def Let_def)

lemma ulp_exp_mono: "0 < x \<Longrightarrow> x \<le> y \<Longrightarrow> ulp_exp p emin x \<le> ulp_exp p emin y"
  using ilog2_mono [of x y] by (simp add: ulp_exp_def)

lemma rnd_nonneg: "0 \<le> x \<Longrightarrow> 0 \<le> rnd p emin x"
proof (cases "x = 0")
  case False
  assume "0 \<le> x"
  with False have "0 < x" by simp
  then have "0 \<le> round_half_even (x / 2 powi ulp_exp p emin x)"
    by (intro round_half_even_ge) simp
  with \<open>0 < x\<close> show ?thesis by (simp add: rnd_eq)
qed simp

lemma rnd_upper:
  assumes "0 < x"
  shows "rnd p emin x \<le> 2 powi (ulp_exp p emin x + int p)"
proof -
  let ?e = "ulp_exp p emin x"
  have "x < 2 powi (ilog2 x + 1)" using ilog2_bounds(2) [OF assms] .
  also have "\<dots> \<le> 2 powi (?e + int p)" using assms by (intro powi2_mono) (simp add: ulp_exp_def)
  also have "\<dots> = 2 powi int p * 2 powi ?e" by (simp add: power_int_add)
  finally have "x / 2 powi ?e \<le> of_int (2 ^ p)" by (simp add: pos_divide_le_eq)
  then have "round_half_even (x / 2 powi ?e) \<le> 2 ^ p" by (rule round_half_even_le)
  then have "(of_int (round_half_even (x / 2 powi ?e)) :: rat) \<le> of_int (2 ^ p)"
    by (simp only: of_int_le_iff)
  then have "of_int (round_half_even (x / 2 powi ?e)) * 2 powi ?e \<le> (2 ^ p) * (2::rat) powi ?e"
    by (intro mult_right_mono) auto
  then show ?thesis using assms by (simp add: rnd_eq power_int_add mult.commute)
qed

lemma rnd_lower:
  assumes "0 < x" and "0 < p" and "ulp_exp p emin x = ilog2 x - (int p - 1)"
  shows "2 powi (ulp_exp p emin x + int p - 1) \<le> rnd p emin x"
proof -
  let ?e = "ulp_exp p emin x"
  have "2 powi int (p - 1) * 2 powi ?e = (2::rat) powi (ilog2 x)"
    using assms(2,3) by (simp flip: power_int_add add: of_nat_diff)
  also have "\<dots> \<le> x" using ilog2_bounds(1) [OF assms(1)] .
  finally have "of_int (2 ^ (p - 1)) \<le> x / 2 powi ?e" by (simp add: pos_le_divide_eq)
  then have "2 ^ (p - 1) \<le> round_half_even (x / 2 powi ?e)" by (rule round_half_even_ge)
  then have "(of_int (2 ^ (p - 1)) :: rat) \<le> of_int (round_half_even (x / 2 powi ?e))"
    by (simp only: of_int_le_iff)
  then have "2 ^ (p - 1) * (2::rat) powi ?e \<le> rnd p emin x"
    using assms(1) by (simp add: rnd_eq mult_right_mono)
  moreover have "2 ^ (p - 1) * (2::rat) powi ?e = 2 powi (?e + int p - 1)"
  proof -
    have eq: "?e + int p - 1 = int (p - 1) + ?e" using assms(2) by (simp add: of_nat_diff)
    show ?thesis unfolding eq by (subst power_int_add) simp_all
  qed
  ultimately show ?thesis by simp
qed

lemma rnd_mono:
  assumes "0 \<le> x" and "x \<le> y" and "0 < p"
  shows "rnd p emin x \<le> rnd p emin y"
proof (cases "x = 0")
  case True
  then show ?thesis using assms rnd_nonneg [of y p emin] by simp
next
  case False
  with assms have x: "0 < x" and y: "0 < y" by auto
  let ?ex = "ulp_exp p emin x" and ?ey = "ulp_exp p emin y"
  have le: "?ex \<le> ?ey" using ulp_exp_mono x assms(2) by blast
  show ?thesis
  proof (cases "?ex = ?ey")
    case True
    have "x / 2 powi ?ey \<le> y / 2 powi ?ey" using assms(2) by (simp add: divide_right_mono)
    then have "round_half_even (x / 2 powi ?ey) \<le> round_half_even (y / 2 powi ?ey)"
      by (rule round_half_even_mono)
    then show ?thesis using x y True by (simp add: rnd_eq mult_right_mono)
  next
    case False
    with le have lt: "?ex < ?ey" by simp
    then have ey: "?ey = ilog2 y - (int p - 1)" using y by (auto simp: ulp_exp_def)
    have "rnd p emin x \<le> 2 powi (?ex + int p)" using rnd_upper [OF x] .
    also have "\<dots> \<le> 2 powi (?ey + int p - 1)" using lt by (intro powi2_mono) simp
    also have "\<dots> \<le> rnd p emin y" using rnd_lower [OF y assms(3) ey] .
    finally show ?thesis .
  qed
qed

lemma rnd_exact:
  assumes "\<bar>m\<bar> < 2 ^ p" and "emin \<le> k" and "0 < p"
  shows "rnd p emin (of_int m * 2 powi k) = of_int m * 2 powi k"
proof (cases "m = 0")
  case False
  let ?x = "of_int m * 2 powi k :: rat"
  have ax: "0 < \<bar>?x\<bar>" using False by simp
  have "\<bar>?x\<bar> = of_int \<bar>m\<bar> * 2 powi k" by (simp add: abs_mult)
  also have "\<dots> < of_int (2 ^ p) * 2 powi k"
    using assms(1) by (intro mult_strict_right_mono) (simp_all only: of_int_less_iff powi2_pos)
  also have "\<dots> = 2 powi (int p + k)" by (simp add: power_int_add)
  finally have "(2::rat) powi (ilog2 \<bar>?x\<bar>) < 2 powi (int p + k)"
    using ilog2_bounds(1) [OF ax] by linarith
  then have "ilog2 \<bar>?x\<bar> < int p + k" by (rule powi2_less_imp)
  then have e: "ulp_exp p emin ?x \<le> k" using assms(2) by (simp add: ulp_exp_def)
  let ?e = "ulp_exp p emin ?x"
  have "?x / 2 powi ?e = of_int m * 2 powi (k - ?e)"
    by (simp add: power_int_diff)
  also have "\<dots> = of_int (m * 2 ^ nat (k - ?e))"
    using e by (simp add: power_int_def)
  finally have "of_int (round_half_even (?x / 2 powi ?e)) = ?x / 2 powi ?e"
    by (simp only: round_half_even_of_int)
  then show ?thesis using False by (simp add: rnd_def Let_def)
qed simp

lemma rnd_of_int: "\<bar>m\<bar> < 2 ^ p \<Longrightarrow> emin \<le> 0 \<Longrightarrow> 0 < p \<Longrightarrow> rnd p emin (of_int m) = of_int m"
  using rnd_exact [of m p emin 0] by simp

text \<open>In the normal range rounding moves a number by a relative \<open>2\<^sup>-\<^sup>p\<close> at most.\<close>

lemma rnd_rel_error:
  assumes "0 < x" and "2 powi (emin + int p - 1) \<le> x"
  shows "\<bar>rnd p emin x - x\<bar> \<le> x * 2 powi (- int p)"
proof -
  have "(2::rat) powi (emin + int p - 1) < 2 powi (ilog2 x + 1)"
    using ilog2_bounds(2) [OF assms(1)] assms(2) by linarith
  then have "emin + int p - 1 < ilog2 x + 1" by (rule powi2_less_imp)
  then have e: "ulp_exp p emin x = ilog2 x - (int p - 1)" using assms(1) by (simp add: ulp_exp_def)
  let ?e = "ulp_exp p emin x"
  let ?r = "of_int (round_half_even (x / 2 powi ?e)) :: rat"
  have "\<bar>?r - x / 2 powi ?e\<bar> \<le> 1 / 2"
    using round_half_even_bounds [of "x / 2 powi ?e"] by linarith
  then have "\<bar>?r - x / 2 powi ?e\<bar> * 2 powi ?e \<le> 1 / 2 * 2 powi ?e"
    by (intro mult_right_mono) auto
  moreover have "\<bar>?r - x / 2 powi ?e\<bar> * 2 powi ?e = \<bar>rnd p emin x - x\<bar>"
  proof -
    have "\<bar>?r - x / 2 powi ?e\<bar> * 2 powi ?e = \<bar>(?r - x / 2 powi ?e) * 2 powi ?e\<bar>"
      by (simp add: abs_mult)
    also have "(?r - x / 2 powi ?e) * 2 powi ?e = rnd p emin x - x"
      using assms(1) by (simp add: rnd_eq left_diff_distrib)
    finally show ?thesis .
  qed
  moreover have "1 / 2 * 2 powi ?e = (2::rat) powi (ilog2 x) * 2 powi (- int p)"
  proof -
    have "(2::rat) powi ?e = 2 powi (ilog2 x + - int p) * 2 powi 1"
      unfolding e by (subst power_int_add [symmetric]) (auto simp: algebra_simps)
    also have "2 powi (ilog2 x + - int p) = (2::rat) powi (ilog2 x) * 2 powi (- int p)"
      by (rule power_int_add) simp
    finally show ?thesis by simp
  qed
  moreover have "(2::rat) powi (ilog2 x) * 2 powi (- int p) \<le> x * 2 powi (- int p)"
    using ilog2_bounds(1) [OF assms(1)] by (intro mult_right_mono) auto
  ultimately show ?thesis by linarith
qed

section \<open>Floating-point values\<close>

datatype fl = NaN | Inf bool \<comment> \<open>True for minus infinity\<close> | Fin rat

definition round_to :: "nat \<Rightarrow> int \<Rightarrow> int \<Rightarrow> rat \<Rightarrow> fl" where
  "round_to p emin emax x =
     (let r = rnd p emin x in if 2 powi emax \<le> \<bar>r\<bar> then Inf (r < 0) else Fin r)"

definition round64 :: "rat \<Rightarrow> fl" where
  "round64 = round_to 53 (- 1074) 1024"

definition round32 :: "rat \<Rightarrow> fl" where
  "round32 = round_to 24 (- 149) 128"

definition fl_neg :: "fl \<Rightarrow> bool" where
  "fl_neg x = (case x of NaN \<Rightarrow> False | Inf s \<Rightarrow> s | Fin r \<Rightarrow> r < 0)"

fun fmul :: "(rat \<Rightarrow> fl) \<Rightarrow> fl \<Rightarrow> fl \<Rightarrow> fl" where
  "fmul R (Fin a) (Fin b) = R (a * b)"
| "fmul R (Inf s) (Inf t) = Inf (s \<noteq> t)"
| "fmul R (Inf s) (Fin b) = (if b = 0 then NaN else Inf (s \<noteq> (b < 0)))"
| "fmul R (Fin a) (Inf t) = (if a = 0 then NaN else Inf ((a < 0) \<noteq> t))"
| "fmul R _ _ = NaN"

fun fdiv :: "(rat \<Rightarrow> fl) \<Rightarrow> fl \<Rightarrow> fl \<Rightarrow> fl" where
  "fdiv R (Fin a) (Fin b) = (if b = 0 then (if a = 0 then NaN else Inf (a < 0)) else R (a / b))"
| "fdiv R (Inf s) (Fin b) = Inf (s \<noteq> (b < 0))"
| "fdiv R (Fin a) (Inf t) = Fin 0"
| "fdiv R _ _ = NaN"

fun fsub :: "(rat \<Rightarrow> fl) \<Rightarrow> fl \<Rightarrow> fl \<Rightarrow> fl" where
  "fsub R (Fin a) (Fin b) = R (a - b)"
| "fsub R (Inf s) (Inf t) = (if s = t then NaN else Inf s)"
| "fsub R (Inf s) (Fin b) = Inf s"
| "fsub R (Fin a) (Inf t) = Inf (\<not> t)"
| "fsub R _ _ = NaN"

fun fabs :: "fl \<Rightarrow> fl" where
  "fabs (Fin a) = Fin \<bar>a\<bar>"
| "fabs (Inf s) = Inf False"
| "fabs NaN = NaN"

fun flt :: "fl \<Rightarrow> fl \<Rightarrow> bool" where
  "flt (Fin a) (Fin b) = (a < b)"
| "flt (Inf s) (Inf t) = (s \<and> \<not> t)"
| "flt (Inf s) (Fin b) = s"
| "flt (Fin a) (Inf t) = (\<not> t)"
| "flt _ _ = False"

fun fle :: "fl \<Rightarrow> fl \<Rightarrow> bool" where
  "fle (Fin a) (Fin b) = (a \<le> b)"
| "fle (Inf s) (Inf t) = (s \<or> \<not> t)"
| "fle (Inf s) (Fin b) = s"
| "fle (Fin a) (Inf t) = (\<not> t)"
| "fle _ _ = False"

definition is_finite :: "fl \<Rightarrow> bool" where
  "is_finite x = (case x of Fin _ \<Rightarrow> True | _ \<Rightarrow> False)"

definition is_nan :: "fl \<Rightarrow> bool" where
  "is_nan x = (case x of NaN \<Rightarrow> True | _ \<Rightarrow> False)"

fun ffloor :: "fl \<Rightarrow> fl" where
  "ffloor (Fin a) = Fin (of_int \<lfloor>a\<rfloor>)"
| "ffloor x = x"

fun fceil :: "fl \<Rightarrow> fl" where
  "fceil (Fin a) = Fin (of_int \<lceil>a\<rceil>)"
| "fceil x = x"

text \<open>The numeric casts: \<open>x as f64\<close> from an unsigned integer, and the saturating \<open>x as uN\<close>.\<close>

definition of_word64 :: "'a::len word \<Rightarrow> fl" where
  "of_word64 w = round64 (of_nat (unat w))"

definition of_word32 :: "'a::len word \<Rightarrow> fl" where
  "of_word32 w = round32 (of_nat (unat w))"

fun as_word :: "fl \<Rightarrow> 'a::len word" where
  "as_word (Fin a) =
     (if a \<le> 0 then 0 else if 2 ^ LENGTH('a) \<le> a then - 1 else of_nat (nat \<lfloor>a\<rfloor>))"
| "as_word (Inf s) = (if s then 0 else - 1)"
| "as_word NaN = 0"

section \<open>Evaluation\<close>

text \<open>Code equations that stay on binary integers, so that concrete sizes evaluate.\<close>

fun int_len :: "int \<Rightarrow> int" where
  "int_len n = (if n \<le> 0 then 0 else 1 + int_len (n div 2))"

declare int_len.simps [simp del]

lemma int_len_floorlog: "int_len n = int (floorlog 2 (nat n))"
proof (induction n rule: int_len.induct)
  case (1 n)
  show ?case
  proof (cases "n \<le> 0")
    case False
    then have "floorlog 2 (nat n) = Suc (floorlog 2 (nat n div 2))"
      by (subst compute_floorlog) simp
    moreover have "nat n div 2 = nat (n div 2)" using False by (simp add: nat_div_distrib)
    ultimately show ?thesis using 1 False by (subst int_len.simps) simp
  qed (simp add: int_len.simps floorlog_def)
qed

definition pow2 :: "int \<Rightarrow> rat" where
  "pow2 e = (if 0 \<le> e then of_int (2 ^ nat e) else 1 / of_int (2 ^ nat (- e)))"

lemma pow2_powi: "2 powi e = pow2 e"
  by (simp add: pow2_def power_int_def power_inverse field_simps)

lemma ilog2_code [code]:
  "ilog2 x =
     (let (p, q) = quotient_of x; k = int_len p - int_len q
      in if pow2 k \<le> x then k else k - 1)"
  by (simp add: ilog2_def int_len_floorlog flip: pow2_powi)

lemma rnd_code [code]:
  "rnd p emin x =
     (if x = 0 then 0
      else let u = pow2 (ulp_exp p emin x) in of_int (round_half_even (x / u)) * u)"
  by (simp add: rnd_def Let_def flip: pow2_powi)

lemma powi2_le_iff_ilog2: "0 < x \<Longrightarrow> 2 powi e \<le> x \<longleftrightarrow> e \<le> ilog2 x"
proof
  assume x: "0 < x"
  show "e \<le> ilog2 x" if "2 powi e \<le> x"
    using ilog2_bounds(2) [OF x] that powi2_less_imp [of e "ilog2 x + 1"] by simp
  show "2 powi e \<le> x" if "e \<le> ilog2 x"
    using ilog2_bounds(1) [OF x] powi2_mono [OF that] by linarith
qed

lemma round_to_code [code]:
  "round_to p emin emax x =
     (let r = rnd p emin x in if r \<noteq> 0 \<and> emax \<le> ilog2 \<bar>r\<bar> then Inf (r < 0) else Fin r)"
  using powi2_le_iff_ilog2 [of "\<bar>rnd p emin x\<bar>" emax] powi2_pos [of emax]
  by (cases "rnd p emin x = 0") (simp_all add: round_to_def Let_def not_le)

lemma of_int_uint: "(of_int (uint w) :: rat) = of_nat (unat w)"
  by (metis of_int_of_nat_eq of_nat_unat)

lemma of_word64_code [code]: "of_word64 w = round64 (of_int (uint w))"
  by (simp only: of_word64_def of_int_uint)

lemma of_word32_code [code]: "of_word32 w = round32 (of_int (uint w))"
  by (simp only: of_word32_def of_int_uint)

lemma as_word_code [code]:
  "as_word (Fin a) =
     (if a \<le> 0 then 0 else if 2 ^ LENGTH('a) \<le> a then - 1 else (word_of_int \<lfloor>a\<rfloor> :: 'a::len word))"
  "as_word (Inf s) = (if s then 0 else (- 1 :: 'a word))"
  "as_word NaN = (0 :: 'a word)"
  by auto

section \<open>The order on values, and monotone operations\<close>

lemma fle_trans: "fle a b \<Longrightarrow> fle b c \<Longrightarrow> fle a c"
  by (cases a; cases b; cases c) auto

lemma round_to_mono:
  assumes "0 \<le> x" and "x \<le> y" and "0 < p"
  shows "fle (round_to p emin emax x) (round_to p emin emax y)"
proof -
  have "rnd p emin x \<le> rnd p emin y" using assms rnd_mono by blast
  moreover have "0 \<le> rnd p emin x" "0 \<le> rnd p emin y" using assms rnd_nonneg by auto
  ultimately show ?thesis by (auto simp: round_to_def Let_def)
qed

lemma unat_le_top: "unat (a :: 'a::len word) \<le> unat (- 1 :: 'a word)"
  using unat_le_max [of a] by (simp only: unat_max_word)

lemma as_word_mono: "fle a b \<Longrightarrow> as_word a \<le> (as_word b :: 'a::len word)"
proof (cases a; cases b)
  fix x y
  assume le: "fle a b" and xy: "a = Fin x" "b = Fin y"
  have small: "unat (of_nat (nat \<lfloor>z\<rfloor>) :: 'a word) = nat \<lfloor>z\<rfloor>" if "0 \<le> z" "z < 2 ^ LENGTH('a)" for z :: rat
  proof -
    have "\<lfloor>z\<rfloor> < 2 ^ LENGTH('a)" using that by (simp add: floor_less_iff)
    then have "nat \<lfloor>z\<rfloor> < 2 ^ LENGTH('a)" by (simp add: nat_less_iff)
    then show ?thesis by (simp add: unat_of_nat)
  qed
  have "\<lfloor>x\<rfloor> \<le> \<lfloor>y\<rfloor>" using le xy by (simp add: floor_mono)
  then show ?thesis using le xy small [of x] small [of y]
    using unat_le_top [of "word_of_int \<lfloor>x\<rfloor> :: 'a word"]
    by (auto simp: word_le_nat_alt nat_mono)
qed auto

lemma as_word_upper: "0 \<le> x \<Longrightarrow> rat_of_nat (unat (as_word (Fin x) :: 'a::len word)) \<le> x"
proof -
  assume x: "0 \<le> x"
  consider "x = 0" | "2 ^ LENGTH('a) \<le> x" | "0 < x" "x < 2 ^ LENGTH('a)" using x by linarith
  then show ?thesis
  proof cases
    case 2
    have "rat_of_nat (unat (- 1 :: 'a word)) \<le> 2 ^ LENGTH('a)"
      using unat_max_word [where 'a = 'a] of_nat_le_iff [of _ "2 ^ LENGTH('a)", where 'a = rat] by simp
    with 2 show ?thesis by (simp add: order_trans [OF _ 2])
  next
    case 3
    then have "\<lfloor>x\<rfloor> < 2 ^ LENGTH('a)" by (simp add: floor_less_iff)
    then have "unat (of_nat (nat \<lfloor>x\<rfloor>) :: 'a word) = nat \<lfloor>x\<rfloor>"
      by (simp add: unat_of_nat nat_less_iff)
    with 3 show ?thesis by (simp add: of_nat_nat)
  qed simp
qed

section \<open>Relative error\<close>

abbreviation u53 :: rat where
  "u53 \<equiv> 1 / 2 ^ 53"

abbreviation u24 :: rat where
  "u24 \<equiv> 1 / 2 ^ 24"

lemma round_to_normal:
  assumes "0 < x" and "2 powi (emin + int p - 1) \<le> x" and "x \<le> 2 powi (emax - 2)" and "0 < p"
  shows "\<exists>r. round_to p emin emax x = Fin r \<and> x * (1 - 1 / 2 ^ p) \<le> r \<and> r \<le> x * (1 + 1 / 2 ^ p) \<and> 0 < r"
proof -
  let ?r = "rnd p emin x"
  have e: "\<bar>?r - x\<bar> \<le> x * (1 / 2 ^ p)"
    using rnd_rel_error [OF assms(1,2)] by (simp add: power_int_minus field_simps)
  have p2: "(1::rat) / 2 ^ p \<le> 1 / 2"
    using assms(4) power_increasing [of 1 p "2::rat"] by (simp add: field_simps)
  then have xh: "x * (1 / 2 ^ p) \<le> x / 2" using assms(1) mult_left_mono [OF p2, of x] by simp
  have r12: "x * (1 - 1 / 2 ^ p) \<le> ?r" "?r \<le> x * (1 + 1 / 2 ^ p)"
    using e by (auto simp: algebra_simps abs_le_iff)
  have "\<bar>?r - x\<bar> \<le> x / 2" using e xh by (rule order_trans)
  then have "x - ?r \<le> x / 2" by linarith
  then have "0 < ?r" using assms(1) by linarith
  note r = r12 this
  have "?r \<le> x * 2" using order_trans [OF e xh] assms(1) by linarith
  also have "\<dots> \<le> 2 powi (emax - 2) * 2 powi 1" using assms(3) by simp
  also have "\<dots> = 2 powi (emax - 1)" by (subst power_int_add [symmetric]) auto
  also have "\<dots> < 2 powi emax" by (simp add: power_int_strict_increasing)
  finally have "\<not> 2 powi emax \<le> \<bar>?r\<bar>" using r(3) by simp
  then show ?thesis using r by (auto simp: round_to_def Let_def)
qed

lemma round64_normal:
  assumes "1 / 2 ^ 500 \<le> x" and "x \<le> 2 ^ 500"
  shows "\<exists>r. round64 x = Fin r \<and> x * (1 - u53) \<le> r \<and> r \<le> x * (1 + u53) \<and> 0 < r"
proof -
  have "(0::rat) < 1 / 2 ^ 500" by simp
  then have x: "0 < x" using assms(1) by (rule less_le_trans)
  have "(2::rat) powi (- 1074 + int 53 - 1) \<le> 2 powi (- 500)" by (intro powi2_mono) simp
  also have "\<dots> = 1 / 2 ^ 500" by (simp add: power_int_minus field_simps)
  finally have "2 powi (- 1074 + int 53 - 1) \<le> x" using assms(1) by (rule order_trans)
  moreover have "x \<le> 2 powi (1024 - 2)"
  proof -
    have "(2::rat) ^ 500 = 2 powi 500" by simp
    also have "\<dots> \<le> 2 powi (1024 - 2)" by (intro powi2_mono) simp
    finally show ?thesis using assms(2) by (rule order_trans [rotated])
  qed
  ultimately show ?thesis unfolding round64_def using round_to_normal [of x "- 1074" 53 1024] x by simp
qed

lemma unat_le_2_64: "LENGTH('a) \<le> 64 \<Longrightarrow> rat_of_nat (unat (w :: 'a::len word)) \<le> 2 ^ 64"
proof -
  assume "LENGTH('a) \<le> 64"
  then have "unat w < 2 ^ 64"
    using less_le_trans [OF unsigned_less [of w, where 'a = nat] power_increasing [of "LENGTH('a)" 64 "2::nat"]]
    by simp
  then have "rat_of_nat (unat w) < rat_of_nat (2 ^ 64)" by (simp only: of_nat_less_iff)
  then show ?thesis by simp
qed

lemma of_word64_near:
  fixes w :: "'a::len word"
  assumes "LENGTH('a) \<le> 64" and "w \<noteq> 0"
  shows "\<exists>r. of_word64 w = Fin r \<and> of_nat (unat w) * (1 - u53) \<le> r \<and> r \<le> of_nat (unat w) * (1 + u53) \<and> 0 < r"
proof -
  have "1 \<le> unat w" using assms(2) by (simp add: unat_gt_0 Suc_leI)
  then have 1: "(1::rat) \<le> of_nat (unat w)" by (metis of_nat_1 of_nat_le_iff)
  have "(1::rat) / 2 ^ 500 \<le> 1" "(2::rat) ^ 64 \<le> 2 ^ 500" by simp_all
  then show ?thesis
    using round64_normal [of "of_nat (unat w)"] order_trans [OF _ 1]
      order_trans [OF unat_le_2_64 [OF assms(1), of w]]
    by (simp only: of_word64_def)
qed

lemma of_word64_0 [simp]: "of_word64 0 = Fin 0"
  by (simp add: of_word64_def round64_def round_to_def)

lemma of_word64_fin: "LENGTH('a) \<le> 64 \<Longrightarrow> \<exists>r. of_word64 (w :: 'a::len word) = Fin r \<and> 0 \<le> r"
  using of_word64_near [of w] by (cases "w = 0") (auto intro: less_imp_le)

lemma of_word64_mono: "a \<le> b \<Longrightarrow> fle (of_word64 (a :: 'a::len word)) (of_word64 b)"
  unfolding of_word64_def round64_def by (rule round_to_mono) (auto simp: word_le_nat_alt)

lemma of_word64_exact:
  assumes "unat w < 2 ^ 53"
  shows "of_word64 w = Fin (of_nat (unat w))"
proof -
  have n: "rat_of_nat (unat w) < 2 ^ 53"
    using assms by (metis of_nat_less_iff of_nat_numeral of_nat_power)
  have "rnd 53 (- 1074) (of_int (int (unat w))) = of_int (int (unat w))"
    using assms by (intro rnd_of_int) (auto)
  moreover have "(2::rat) ^ 53 \<le> 2 powi 1024" using powi2_mono [of 53 1024] by simp
  then have "\<not> 2 powi 1024 \<le> rat_of_nat (unat w)" using n by (meson leD less_le_trans)
  ultimately show ?thesis by (simp add: of_word64_def round64_def round_to_def Let_def)
qed

lemma fmul_round64_mono:
  "fle (Fin a) (Fin b) \<Longrightarrow> 0 \<le> a \<Longrightarrow> 0 \<le> q \<Longrightarrow> fle (fmul round64 (Fin a) (Fin q)) (fmul round64 (Fin b) (Fin q))"
  by (simp add: round64_def round_to_mono mult_right_mono)

lemma round64_0 [simp]: "round64 0 = Fin 0"
  by (simp add: round64_def round_to_def)

lemma round64_near:
  assumes "1 / 2 ^ 200 \<le> x" and "x \<le> 2 ^ 200"
  obtains r where "round64 x = Fin r" "x * (1 - u53) \<le> r" "r \<le> x * (1 + u53)" "0 < r"
proof -
  have "1 / 2 ^ 500 \<le> x" by (rule order_trans [OF _ assms(1)]) simp
  moreover have "x \<le> 2 ^ 500" by (rule order_trans [OF assms(2)]) simp
  ultimately show ?thesis using round64_normal [of x] that by blast
qed

lemma of_word64_nearE:
  fixes w :: "'a::len word"
  assumes "LENGTH('a) \<le> 64" and "w \<noteq> 0"
  obtains r where "of_word64 w = Fin r" "of_nat (unat w) * (1 - u53) \<le> r"
    "r \<le> of_nat (unat w) * (1 + u53)" "1 / 2 \<le> r" "r \<le> 2 ^ 65"
proof -
  obtain r where r: "of_word64 w = Fin r" "of_nat (unat w) * (1 - u53) \<le> r"
      "r \<le> of_nat (unat w) * (1 + u53)"
    using of_word64_near [OF assms] by blast
  have "1 \<le> unat w" using assms(2) by (simp add: unat_gt_0 Suc_leI)
  then have "(1::rat) \<le> of_nat (unat w)" by (metis of_nat_1 of_nat_le_iff)
  then have "1 / 2 \<le> of_nat (unat w) * (1 - u53)" by simp
  moreover have "of_nat (unat w) * (1 + u53) \<le> 2 ^ 65"
    using unat_le_2_64 [OF assms(1), of w] by simp
  ultimately show ?thesis using r that by (meson order_trans)
qed

lemma fdiv_near:
  assumes "1 / 2 \<le> a" and "a \<le> 2 ^ 65" and "1 / 2 ^ 40 \<le> b" and "b \<le> 2 ^ 70"
  obtains r where "fdiv round64 (Fin a) (Fin b) = Fin r" "a / b * (1 - u53) \<le> r" "r \<le> a / b * (1 + u53)" "0 < r"
    "1 / 2 ^ 80 \<le> r"
proof -
  have b: "0 < b" using assms(3) by (rule less_le_trans [rotated]) simp
  have "1 / 2 ^ 71 * b \<le> 1 / 2 ^ 71 * 2 ^ 70" using assms(4) by (intro mult_left_mono) auto
  then have lo: "1 / 2 ^ 71 \<le> a / b" using assms(1) b by (simp add: pos_le_divide_eq)
  have "2 ^ 105 * (1 / 2 ^ 40) \<le> 2 ^ 105 * b" using assms(3) by (intro mult_left_mono) auto
  then have hi: "a / b \<le> 2 ^ 105" using assms(2) b by (simp add: pos_divide_le_eq)
  have "1 / 2 ^ 200 \<le> a / b" by (rule order_trans [OF _ lo]) simp
  moreover have "a / b \<le> 2 ^ 200" by (rule order_trans [OF hi]) simp
  ultimately obtain r where r: "round64 (a / b) = Fin r" "a / b * (1 - u53) \<le> r" "r \<le> a / b * (1 + u53)" "0 < r"
    by (rule round64_near)
  have "1 / 2 ^ 80 \<le> 1 / 2 ^ 71 * (1 - u53)" by simp
  also have "\<dots> \<le> a / b * (1 - u53)" using lo by (intro mult_right_mono) auto
  finally have "1 / 2 ^ 80 \<le> r" using r(2) by (rule order_trans)
  then show ?thesis using that r b by simp
qed

lemma as_word_floor_le:
  "0 \<le> x \<Longrightarrow> rat_of_nat (unat (as_word (ffloor (Fin x)) :: 'a::len word)) \<le> x"
  using as_word_upper [of "of_int \<lfloor>x\<rfloor>", where 'a = 'a] by (simp del: as_word.simps) (meson of_int_floor_le order_trans)

lemma of_max_word64: "of_word64 (- 1 :: u64) = Fin (2 ^ 64)"
  by code_simp

lemma as_word_lower:
  "x < 2 ^ LENGTH('a) \<Longrightarrow> x - 1 \<le> rat_of_nat (unat (as_word (Fin x) :: 'a::len word))"
proof -
  assume x: "x < 2 ^ LENGTH('a)"
  show ?thesis
  proof (cases "x \<le> 0")
    case False
    have "\<lfloor>x\<rfloor> < 2 ^ LENGTH('a)" using x by (simp add: floor_less_iff)
    then have "unat (of_nat (nat \<lfloor>x\<rfloor>) :: 'a word) = nat \<lfloor>x\<rfloor>" by (simp add: unat_of_nat nat_less_iff)
    then show ?thesis using False x by (simp add: of_nat_nat) linarith
  qed simp
qed

lemma fmul_near:
  assumes "1 / 2 \<le> a" and "a \<le> 2 ^ 65" and "1 / 2 \<le> q" and "q \<le> 1"
  obtains v where "fmul round64 (Fin a) (Fin q) = Fin v" "a * q * (1 - u53) \<le> v" "v \<le> a * q * (1 + u53)" "0 < v"
proof -
  have "1 / 2 * (1 / 2) \<le> a * q" using assms by (intro mult_mono) auto
  then have lo: "1 / 2 ^ 200 \<le> a * q" by (rule order_trans [rotated]) simp
  have "a * q \<le> 2 ^ 65 * 1" using assms by (intro mult_mono) auto
  then have hi: "a * q \<le> 2 ^ 200" by (rule order_trans) simp
  show ?thesis using round64_near [OF lo hi] that by auto
qed

lemma round32_near:
  assumes "1 / 2 ^ 70 \<le> x" and "x \<le> 2 ^ 70"
  obtains r where "round32 x = Fin r" "x * (1 - u24) \<le> r" "r \<le> x * (1 + u24)" "0 < r"
proof -
  have "(0::rat) < 1 / 2 ^ 70" by simp
  then have x: "0 < x" using assms(1) by (rule less_le_trans)
  have "(2::rat) powi (- 149 + int 24 - 1) \<le> 2 powi (- 70)" by (intro powi2_mono) simp
  also have "\<dots> = 1 / 2 ^ 70" by (simp add: power_int_minus field_simps)
  finally have "2 powi (- 149 + int 24 - 1) \<le> x" using assms(1) by (rule order_trans)
  moreover have "x \<le> 2 powi (128 - 2)"
  proof -
    have "(2::rat) ^ 70 = 2 powi 70" by simp
    also have "\<dots> \<le> 2 powi (128 - 2)" by (intro powi2_mono) simp
    finally show ?thesis using assms(2) by (rule order_trans [rotated])
  qed
  ultimately show ?thesis unfolding round32_def
    using round_to_normal [of x "- 149" 24 128] x that by (auto simp: round32_def)
qed

lemma of_word32_near:
  fixes w :: u64
  assumes "w \<noteq> 0"
  obtains r where "of_word32 w = Fin r" "of_nat (unat w) * (1 - u24) \<le> r" "r \<le> of_nat (unat w) * (1 + u24)" "0 < r"
proof -
  have "1 \<le> unat w" using assms by (simp add: unat_gt_0 Suc_leI)
  then have 1: "(1::rat) \<le> of_nat (unat w)" by (metis of_nat_1 of_nat_le_iff)
  have lo: "1 / 2 ^ 70 \<le> rat_of_nat (unat w)" by (rule order_trans [OF _ 1]) simp
  have hi: "rat_of_nat (unat w) \<le> 2 ^ 70" by (rule order_trans [OF unat_le_2_64]) simp_all
  show ?thesis using round32_near [OF lo hi] that by (auto simp: of_word32_def)
qed

lemma round32_0 [simp]: "round32 0 = Fin 0" and round32_1 [simp]: "round32 1 = Fin 1"
  by code_simp+

lemma round32_unit: "0 \<le> x \<Longrightarrow> x \<le> 1 \<Longrightarrow> \<exists>r. round32 x = Fin r \<and> 0 \<le> r \<and> r \<le> 1"
proof -
  assume x: "0 \<le> x" "x \<le> 1"
  have "fle (round32 0) (round32 x)" "fle (round32 x) (round32 1)"
    unfolding round32_def using x by (auto intro: round_to_mono)
  then show ?thesis by (cases "round32 x") auto
qed

lemma of_word32_mono: "a \<le> b \<Longrightarrow> fle (of_word32 (a :: 'a::len word)) (of_word32 b)"
  unfolding of_word32_def round32_def by (rule round_to_mono) (auto simp: word_le_nat_alt)

lemma of_word32_fin: "\<exists>r. of_word32 (w :: u64) = Fin r \<and> 0 \<le> r"
proof (cases "w = 0")
  case False
  then show ?thesis using of_word32_near by (metis less_imp_le)
qed (simp add: of_word32_def)

end
