(* ===== verification/Gpu.thy ===== *)
theory Gpu
  imports Text
begin

text \<open>
  \<open>core/gpu-detect\<close>: the data types of the detection pipeline (\<open>types.rs\<close>), host memory
  (\<open>hostmem.rs\<close>), the card-to-card topology (\<open>topology.rs\<close>), the compatibility database
  (\<open>overrides.rs\<close>) and the tier classification (\<open>classify.rs\<close>).  The TOML text of the
  database is read by a library; the model starts from the raw entries that library returns.
\<close>

section \<open>Types\<close>

datatype MemoryKind = Dedicated | Shared | Unknown

definition is_shared_with_host :: "MemoryKind \<Rightarrow> bool" where
  "is_shared_with_host k = (case k of Shared \<Rightarrow> True | _ \<Rightarrow> False)"

datatype Vendor = Amd | Nvidia | Intel | Other

definition from_pci_id :: "string \<Rightarrow> Vendor" where
  "from_pci_id pci_id =
     (let v = to_lower (hd (split_on (CHR '':'') pci_id))
      in if v = ''1002'' then Amd
         else if v = ''10de'' then Nvidia
         else if v = ''8086'' then Intel
         else Other)"

definition is_known_gpu :: "Vendor \<Rightarrow> bool" where
  "is_known_gpu v = (case v of Amd \<Rightarrow> True | Nvidia \<Rightarrow> True | Intel \<Rightarrow> True | Other \<Rightarrow> False)"

fun vendor_label :: "Vendor \<Rightarrow> string" where
  "vendor_label Amd = ''AMD''"
| "vendor_label Nvidia = ''NVIDIA''"
| "vendor_label Intel = ''Intel''"
| "vendor_label Other = ''other''"

record GpuInfo =
  gi_model :: string
  gi_vendor :: Vendor
  gi_pci_id :: string
  gi_pci_addr :: "string option"
  gi_vram_mb :: "u64 option"
  gi_vram_used_mb :: "u64 option"
  gi_gtt_mb :: "u64 option"
  gi_memory :: MemoryKind
  gi_gfx_arch :: "string option"
  gi_driver_version :: "string option"

definition GpuInfo_new :: "string \<Rightarrow> string \<Rightarrow> GpuInfo" where
  "GpuInfo_new model pci_id =
     \<lparr>gi_model = model, gi_vendor = from_pci_id pci_id, gi_pci_id = pci_id, gi_pci_addr = None,
      gi_vram_mb = None, gi_vram_used_mb = None, gi_gtt_mb = None, gi_memory = Unknown,
      gi_gfx_arch = None, gi_driver_version = None\<rparr>"

definition GpuInfo_default :: GpuInfo where
  "GpuInfo_default = (GpuInfo_new [] [])\<lparr>gi_vendor := Amd\<rparr>"

abbreviation mib :: u64 where
  "mib \<equiv> 1024 * 1024"

definition vram_bytes :: "GpuInfo \<Rightarrow> u64 option" where
  "vram_bytes g = map_option (\<lambda>mb. sat_mul mb mib) (gi_vram_mb g)"

definition gtt_bytes :: "GpuInfo \<Rightarrow> u64 option" where
  "gtt_bytes g = map_option (\<lambda>mb. sat_mul mb mib) (gi_gtt_mb g)"

datatype Tier = Tier1 | Tier2 | Tier3

fun as_number :: "Tier \<Rightarrow> u8" where
  "as_number Tier1 = 1"
| "as_number Tier2 = 2"
| "as_number Tier3 = 3"

definition training_supported :: "Tier \<Rightarrow> bool" where
  "training_supported t = (case t of Tier3 \<Rightarrow> False | _ \<Rightarrow> True)"

record TierAssessment =
  ta_gpu :: GpuInfo
  ta_tier :: Tier
  ta_hsa_override :: "string option"
  ta_training_supported :: bool
  ta_rationale :: string

section \<open>Host memory\<close>

record HostMemory =
  total_bytes :: u64
  available_bytes :: u64

definition from_kib :: "u64 \<Rightarrow> u64 \<Rightarrow> HostMemory" where
  "from_kib total_kib available_kib =
     \<lparr>total_bytes = sat_mul total_kib 1024, available_bytes = sat_mul available_kib 1024\<rparr>"

text \<open>One pass over the lines of \<open>/proc/meminfo\<close>; the accumulator is \<open>(total, available, free)\<close>.\<close>

type_synonym meminfo_acc = "u64 option \<times> u64 option \<times> u64 option"

definition meminfo_line :: "meminfo_acc \<Rightarrow> string \<Rightarrow> meminfo_acc" where
  "meminfo_line acc line =
     (case acc of (tot, available, free) \<Rightarrow>
       (case split_once (CHR '':'') line of None \<Rightarrow> acc
        | Some (key, rest) \<Rightarrow>
            (let kib = (case split_whitespace rest of [] \<Rightarrow> None | v # _ \<Rightarrow> parse_word v);
                 k = trim key
             in if k = ''MemTotal'' then (kib, available, free)
                else if k = ''MemAvailable'' then (tot, kib, free)
                else if k = ''MemFree'' then (tot, available, kib)
                else acc)))"

definition parse_meminfo :: "string \<Rightarrow> HostMemory option" where
  "parse_meminfo text =
     (case foldl meminfo_line (None, None, None) (lines text) of (tot, available, free) \<Rightarrow>
       (case tot of None \<Rightarrow> None
        | Some t \<Rightarrow>
            Some (from_kib t (case available of Some a \<Rightarrow> a
                              | None \<Rightarrow> (case free of Some f \<Rightarrow> f | None \<Rightarrow> 0)))))"

section \<open>Topology\<close>

datatype LinkKind = Xgmi | PcieP2P | HostOnly

fun bandwidth_rank :: "LinkKind \<Rightarrow> u8" where
  "bandwidth_rank Xgmi = 3"
| "bandwidth_rank PcieP2P = 2"
| "bandwidth_rank HostOnly = 1"

record Link =
  lk_a :: nat
  lk_b :: nat
  lk_kind :: LinkKind

record Topology =
  gpus :: "GpuInfo list"
  links :: "Link list"
  host_mem :: "HostMemory option"

definition Topology_single :: "GpuInfo \<Rightarrow> Topology" where
  "Topology_single gpu = \<lparr>gpus = [gpu], links = [], host_mem = None\<rparr>"

definition Topology_new :: "GpuInfo list \<Rightarrow> Link list \<Rightarrow> Topology" where
  "Topology_new gs ls = \<lparr>gpus = gs, links = ls, host_mem = None\<rparr>"

definition with_host_memory :: "Topology \<Rightarrow> HostMemory option \<Rightarrow> Topology" where
  "with_host_memory t h = t\<lparr>host_mem := h\<rparr>"

definition cpu_only :: "HostMemory option \<Rightarrow> Topology" where
  "cpu_only h = \<lparr>gpus = [], links = [], host_mem = h\<rparr>"

definition is_cpu_only :: "Topology \<Rightarrow> bool" where
  "is_cpu_only t = (gpus t = [])"

definition gpu_count :: "Topology \<Rightarrow> nat" where
  "gpu_count t = length (gpus t)"

definition is_multi_gpu :: "Topology \<Rightarrow> bool" where
  "is_multi_gpu t = (1 < length (gpus t))"

definition link_between :: "Topology \<Rightarrow> nat \<Rightarrow> nat \<Rightarrow> LinkKind option" where
  "link_between t a b =
     (if a = b then None
      else Some (case find (\<lambda>l. lk_a l = a \<and> lk_b l = b \<or> lk_a l = b \<and> lk_b l = a) (links t) of
                   None \<Rightarrow> HostOnly | Some l \<Rightarrow> lk_kind l))"

definition worse_link :: "Topology \<Rightarrow> LinkKind \<Rightarrow> nat \<times> nat \<Rightarrow> LinkKind" where
  "worse_link t worst ab =
     (case link_between t (fst ab) (snd ab) of None \<Rightarrow> worst
      | Some k \<Rightarrow> if bandwidth_rank k < bandwidth_rank worst then k else worst)"

definition card_pairs :: "nat \<Rightarrow> (nat \<times> nat) list" where
  "card_pairs n = concat (map (\<lambda>a. map (\<lambda>b. (a, b)) [Suc a..<n]) [0..<n])"

definition bottleneck_link :: "Topology \<Rightarrow> LinkKind option" where
  "bottleneck_link t =
     (if length (gpus t) < 2 then None
      else Some (foldl (worse_link t) Xgmi (card_pairs (length (gpus t)))))"

definition gpu_index :: "string \<Rightarrow> nat option" where
  "gpu_index tok = (case strip_prefix ''GPU'' tok of None \<Rightarrow> None | Some s \<Rightarrow> parse_usize s)"

definition link_kind :: "string \<Rightarrow> LinkKind option" where
  "link_kind cell =
     (let c = to_upper cell
      in if c = ''0'' then None
         else if c = ''XGMI'' then Some Xgmi
         else if c = ''PCIE'' \<or> c = ''PIX'' \<or> c = ''PXB'' then Some PcieP2P
         else if c = ''PHB'' \<or> c = ''NODE'' \<or> c = ''SYS'' then Some HostOnly
         else None)"

fun topo_cells :: "nat \<Rightarrow> nat list \<Rightarrow> string list \<Rightarrow> Link list" where
  "topo_cells i (j # js) (cell # cells) =
     (if j \<le> i then []
      else case link_kind cell of None \<Rightarrow> [] | Some k \<Rightarrow> [\<lparr>lk_a = i, lk_b = j, lk_kind = k\<rparr>])
     @ topo_cells i js cells"
| "topo_cells i _ _ = []"

definition topo_line :: "nat list \<times> Link list \<Rightarrow> string \<Rightarrow> nat list \<times> Link list" where
  "topo_line acc line =
     (case acc of (header, ls) \<Rightarrow>
       (case split_whitespace line of [] \<Rightarrow> acc
        | t0 # ts \<Rightarrow>
            let toks = t0 # ts
            in if header = [] \<and> length toks > 1 \<and> list_all (\<lambda>t. gpu_index t \<noteq> None) toks
               then (List.map_filter gpu_index toks, ls)
               else (case gpu_index t0 of None \<Rightarrow> acc
                     | Some i \<Rightarrow> if header = [] then acc else (header, ls @ topo_cells i header ts))))"

definition parse_rocm_smi_topo :: "string \<Rightarrow> Link list" where
  "parse_rocm_smi_topo output = snd (foldl topo_line ([], []) (lines output))"

section \<open>The compatibility database\<close>

record OverrideEntry =
  oe_tier :: Tier
  oe_hsa_override :: "string option"
  oe_note :: "string option"

record OverrideDb =
  db_version :: u32
  db_entries :: "(string, OverrideEntry) hash_map"

record RawEntry =
  re_gfx_arch :: string
  re_tier :: u8
  re_hsa_override :: "string option"
  re_note :: "string option"

record RawDb =
  rd_version :: u32
  rd_entry :: "RawEntry list"

datatype detect_error = NoGpus | Parse string | BadTier u8

definition tier_from_u8 :: "u8 \<Rightarrow> detect_error + Tier" where
  "tier_from_u8 n =
     (if n = 1 then Inr Tier1 else if n = 2 then Inr Tier2 else if n = 3 then Inr Tier3
      else Inl (BadTier n))"

fun db_insert_all ::
  "RawEntry list \<Rightarrow> (string, OverrideEntry) hash_map \<Rightarrow> detect_error + (string, OverrideEntry) hash_map" where
  "db_insert_all [] m = Inr m"
| "db_insert_all (e # es) m =
     (case tier_from_u8 (re_tier e) of Inl err \<Rightarrow> Inl err
      | Inr tier \<Rightarrow>
          db_insert_all es
            (hm_insert (to_lower (re_gfx_arch e))
               \<lparr>oe_tier = tier, oe_hsa_override = re_hsa_override e, oe_note = re_note e\<rparr> m))"

text \<open>\<open>toml::from_str\<close> is the parameter \<open>from_str\<close>.\<close>

definition from_toml :: "(string \<Rightarrow> detect_error + RawDb) \<Rightarrow> string \<Rightarrow> detect_error + OverrideDb" where
  "from_toml from_str text =
     (case from_str text of Inl e \<Rightarrow> Inl e
      | Inr raw \<Rightarrow>
          (case db_insert_all (rd_entry raw) [] of Inl e \<Rightarrow> Inl e
           | Inr m \<Rightarrow> Inr \<lparr>db_version = rd_version raw, db_entries = m\<rparr>))"

definition db_lookup :: "OverrideDb \<Rightarrow> string \<Rightarrow> OverrideEntry option" where
  "db_lookup db gfx_arch = hm_get (db_entries db) (to_lower gfx_arch)"

definition db_len :: "OverrideDb \<Rightarrow> nat" where
  "db_len db = length (db_entries db)"

section \<open>Classification\<close>

definition vulkan_only :: "GpuInfo \<Rightarrow> string \<Rightarrow> TierAssessment" where
  "vulkan_only gpu rationale =
     \<lparr>ta_gpu = gpu, ta_tier = Tier3, ta_hsa_override = None, ta_training_supported = False,
      ta_rationale = rationale\<rparr>"

definition classify :: "OverrideDb \<Rightarrow> GpuInfo \<Rightarrow> TierAssessment" where
  "classify db gpu =
     (if gi_vendor gpu \<noteq> Amd then
        vulkan_only gpu
          (case gi_vendor gpu of
             Nvidia \<Rightarrow> ''NVIDIA GPU: running on the Vulkan universal backend '' @
                       ''(no CUDA acceleration configured). Inference only; ROCm training is AMD-only.''
           | Intel \<Rightarrow> ''Intel GPU: running on the Vulkan universal backend. Inference only.''
           | v \<Rightarrow> vendor_label v @ '' GPU: running on the Vulkan universal backend. Inference only.'')
      else (case gi_gfx_arch gpu of
          None \<Rightarrow> vulkan_only gpu
            (''No gfx architecture detected (rocminfo unavailable). '' @
             ''Defaulting to Vulkan-only inference (Tier 3).'')
        | Some arch \<Rightarrow>
            (case db_lookup db arch of
               Some entry \<Rightarrow>
                 \<lparr>ta_gpu = gpu, ta_tier = oe_tier entry, ta_hsa_override = oe_hsa_override entry,
                  ta_training_supported = training_supported (oe_tier entry),
                  ta_rationale =
                    (case oe_tier entry of
                       Tier1 \<Rightarrow> arch @ '' is officially ROCm-supported: full training and inference.''
                     | Tier2 \<Rightarrow> arch @ '' has no official ROCm support but is community-workable'' @
                         (case oe_hsa_override entry of None \<Rightarrow> []
                          | Some o' \<Rightarrow> '' via HSA_OVERRIDE_GFX_VERSION='' @ o') @
                         ''. Inference supported; training is community-tested, not guaranteed.''
                     | Tier3 \<Rightarrow> arch @ '' has no usable ROCm path: Vulkan-only inference, no training.'')\<rparr>
             | None \<Rightarrow> vulkan_only gpu
                 (arch @ '' is not in the compatibility database; defaulting to Vulkan-only (Tier 3). '' @
                  ''If you know a working ROCm override for this card, set it in config.''))))"

definition classify_topology :: "Topology \<Rightarrow> OverrideDb \<Rightarrow> TierAssessment list" where
  "classify_topology topo db = map (classify db) (gpus topo)"

section \<open>Lemmas\<close>

lemma classify_gpu [simp]: "ta_gpu (classify db gpu) = gpu"
  by (simp add: classify_def vulkan_only_def split: option.splits)

lemma classify_training: "ta_training_supported (classify db gpu) = training_supported (ta_tier (classify db gpu))"
  by (simp add: classify_def vulkan_only_def training_supported_def split: option.splits)

lemma db_insert_all_get:
  assumes "db_insert_all es m = Inr m'" and "hm_wf m"
  shows "hm_wf m' \<and>
    (hm_get m' k =
       (case find (\<lambda>e. to_lower (re_gfx_arch e) = k) (rev es) of
          None \<Rightarrow> hm_get m k
        | Some e \<Rightarrow> (case tier_from_u8 (re_tier e) of Inl _ \<Rightarrow> None
            | Inr t \<Rightarrow> Some \<lparr>oe_tier = t, oe_hsa_override = re_hsa_override e, oe_note = re_note e\<rparr>)))"
  using assms
proof (induction es m arbitrary: m' rule: db_insert_all.induct)
  case (1 m)
  then show ?case by simp
next
  case (2 e es m)
  then obtain tier where t: "tier_from_u8 (re_tier e) = Inr tier"
    by (auto split: sum.splits)
  have find_snoc: "find P (xs @ [x]) = (case find P xs of Some y \<Rightarrow> Some y | None \<Rightarrow> if P x then Some x else None)"
    for P and xs :: "RawEntry list" and x
    by (induction xs) auto
  from 2 t show ?case
    by (auto simp: find_snoc map_laws split: option.splits)
qed

lemma bandwidth_rank_inj: "bandwidth_rank a = bandwidth_rank b \<Longrightarrow> a = b"
  by (cases a; cases b) auto

lemma bandwidth_rank_le_Xgmi: "bandwidth_rank k \<le> bandwidth_rank Xgmi"
  by (cases k) auto

lemma card_pairs_set: "set (card_pairs n) = {(a, b). a < b \<and> b < n}"
  by (fastforce simp: card_pairs_def)

lemma worse_link_bounds:
  "bandwidth_rank (worse_link t w p) \<le> bandwidth_rank w"
  "link_between t (fst p) (snd p) = Some k \<Longrightarrow> bandwidth_rank (worse_link t w p) \<le> bandwidth_rank k"
  "worse_link t w p = w \<or> link_between t (fst p) (snd p) = Some (worse_link t w p)"
  by (auto simp: worse_link_def split: option.splits)

lemma worse_link_fold_le: "bandwidth_rank (foldl (worse_link t) w ps) \<le> bandwidth_rank w"
  by (induction ps arbitrary: w) (auto intro: order_trans worse_link_bounds(1))

lemma worse_link_fold_least:
  "p \<in> set ps \<Longrightarrow> link_between t (fst p) (snd p) = Some k \<Longrightarrow>
   bandwidth_rank (foldl (worse_link t) w ps) \<le> bandwidth_rank k"
proof (induction ps arbitrary: w)
  case (Cons q ps)
  show ?case
  proof (cases "p = q")
    case True
    with Cons.prems have "bandwidth_rank (worse_link t w q) \<le> bandwidth_rank k"
      by (auto intro: worse_link_bounds(2))
    then show ?thesis using worse_link_fold_le [of t "worse_link t w q" ps] by simp
  next
    case False
    with Cons show ?thesis by simp
  qed
qed simp

lemma worse_link_fold_attained:
  "foldl (worse_link t) w ps = w \<or>
   (\<exists>p \<in> set ps. link_between t (fst p) (snd p) = Some (foldl (worse_link t) w ps))"
proof (induction ps arbitrary: w)
  case (Cons q ps)
  show ?case using Cons [of "worse_link t w q"] worse_link_bounds(3) [of t w q] by auto
qed simp

lemma link_between_sym: "link_between t a b = link_between t b a"
  by (auto simp: link_between_def disj_commute)

lemma topo_cells_upper: "l \<in> set (topo_cells i js cells) \<Longrightarrow> lk_a l = i \<and> i < lk_b l \<and> lk_b l \<in> set js"
  by (induction i js cells rule: topo_cells.induct) (auto split: option.splits if_splits)

lemma topo_line_upper:
  assumes "\<forall>l \<in> set (snd acc). lk_a l < lk_b l"
  shows "\<forall>l \<in> set (snd (topo_line acc line)). lk_a l < lk_b l"
  using assms
  by (auto simp: topo_line_def Let_def dest!: topo_cells_upper split: prod.splits list.splits option.splits)

section \<open>Properties\<close>

text \<open>The tier of a card is what the compatibility database says for an AMD card with a known
  architecture, and Tier 3 without an override in every other case (another vendor, no detected
  architecture, an architecture not listed); training is offered exactly on Tiers 1 and 2.\<close>

lemma classify_tier:
  "(ta_tier (classify db gpu), ta_hsa_override (classify db gpu)) =
     (case (gi_vendor gpu, gi_gfx_arch gpu) of
        (Amd, Some arch) \<Rightarrow>
          (case db_lookup db arch of Some e \<Rightarrow> (oe_tier e, oe_hsa_override e) | None \<Rightarrow> (Tier3, None))
      | _ \<Rightarrow> (Tier3, None)) \<and>
   ta_training_supported (classify db gpu) = (as_number (ta_tier (classify db gpu)) < 3) \<and>
   ta_gpu (classify db gpu) = gpu"
proof -
  have "training_supported t = (as_number t < 3)" for t by (cases t) (auto simp: training_supported_def)
  then show ?thesis
    by (simp add: classify_training)
      (auto simp: classify_def vulkan_only_def split: Vendor.splits option.splits)
qed

text \<open>Looking an architecture up in a database loaded from raw entries finds the last entry
  for that architecture, whatever the case of the letters, and loading fails on the first entry
  whose tier is not 1, 2 or 3.\<close>

lemma from_toml_lookup:
  assumes "from_toml from_str text = Inr db" and "from_str text = Inr raw"
  shows "db_lookup db arch =
    (case find (\<lambda>e. to_lower (re_gfx_arch e) = to_lower arch) (rev (rd_entry raw)) of
       None \<Rightarrow> None
     | Some e \<Rightarrow> (case tier_from_u8 (re_tier e) of Inl _ \<Rightarrow> None
         | Inr t \<Rightarrow> Some \<lparr>oe_tier = t, oe_hsa_override = re_hsa_override e, oe_note = re_note e\<rparr>)) \<and>
    (\<forall>e \<in> set (rd_entry raw). re_tier e \<in> {1, 2, 3})"
proof -
  obtain m where m: "db_insert_all (rd_entry raw) [] = Inr m" and db: "db_entries db = m"
    using assms by (auto simp: from_toml_def split: sum.splits)
  have "\<forall>e \<in> set es. re_tier e \<in> {1, 2, 3}" if "db_insert_all es m0 = Inr m1" for es m0 m1
    using that by (induction es arbitrary: m0) (auto simp: tier_from_u8_def split: sum.splits if_splits)
  then show ?thesis using db_insert_all_get [OF m] m by (simp add: db_lookup_def db cong: option.case_cong)
qed

text \<open>The bottleneck link of a multi-GPU machine is the slowest link between any two of its
  cards: no pair is slower, some pair has it, and no link is reported for a single card.\<close>

lemma bottleneck_is_slowest:
  "(case bottleneck_link t of
      None \<Rightarrow> gpu_count t < 2
    | Some w \<Rightarrow> 2 \<le> gpu_count t \<and>
        (\<exists>a < gpu_count t. \<exists>b < gpu_count t. link_between t a b = Some w) \<and>
        (\<nexists>a b k. a < gpu_count t \<and> b < gpu_count t \<and> link_between t a b = Some k \<and>
           bandwidth_rank k < bandwidth_rank w))"
proof (cases "gpu_count t < 2")
  case False
  let ?n = "gpu_count t" and ?w = "foldl (worse_link t) Xgmi (card_pairs (gpu_count t))"
  have w: "bottleneck_link t = Some ?w" using False by (simp add: bottleneck_link_def gpu_count_def)
  have least: "bandwidth_rank ?w \<le> bandwidth_rank k"
    if "a < ?n" "b < ?n" "link_between t a b = Some k" for a b k
  proof -
    have "a \<noteq> b" using that(3) by (auto simp: link_between_def)
    then have "(min a b, max a b) \<in> set (card_pairs ?n)" "link_between t (min a b) (max a b) = Some k"
      using that link_between_sym [of t a b] by (auto simp: card_pairs_set min_def max_def)
    then show ?thesis using worse_link_fold_least [of "(min a b, max a b)"] by simp
  qed
  have 01: "(0, 1) \<in> set (card_pairs ?n)" using False by (simp add: card_pairs_set)
  have "\<exists>p \<in> set (card_pairs ?n). link_between t (fst p) (snd p) = Some ?w"
  proof (rule disjE [OF worse_link_fold_attained [of t Xgmi "card_pairs ?n"]])
    assume x: "?w = Xgmi"
    obtain k where k: "link_between t 0 1 = Some k" by (simp add: link_between_def)
    then have "bandwidth_rank Xgmi \<le> bandwidth_rank k" using least [of 0 1 k] False x by simp
    then have "k = Xgmi" using bandwidth_rank_le_Xgmi [of k] bandwidth_rank_inj [of k Xgmi] by (simp add: order_antisym)
    then show ?thesis using 01 k x by force
  qed
  then obtain a b where "(a, b) \<in> set (card_pairs ?n)" "link_between t a b = Some ?w" by force
  then have "\<exists>a < ?n. \<exists>b < ?n. link_between t a b = Some ?w"
    using card_pairs_set [of ?n] by (metis (no_types, lifting) case_prodD less_trans mem_Collect_eq)
  moreover have "\<nexists>a b k. a < ?n \<and> b < ?n \<and> link_between t a b = Some k \<and> bandwidth_rank k < bandwidth_rank ?w"
    using least leD by blast
  ultimately show ?thesis using False by (simp add: w)
qed (simp add: bottleneck_link_def gpu_count_def)

text \<open>The links read from the \<open>rocm-smi\<close> matrix are its upper triangle: no card is linked to
  itself and every link goes from a lower card number to a higher one.\<close>

lemma parsed_links_upper: "list_all (\<lambda>l. lk_a l < lk_b l) (parse_rocm_smi_topo out)"
proof -
  have "\<forall>l \<in> set (snd (foldl topo_line acc ls)). lk_a l < lk_b l"
    if "\<forall>l \<in> set (snd acc). lk_a l < lk_b l" for acc ls
    using that
  proof (induction ls arbitrary: acc)
    case (Cons l ls)
    show ?case using Cons.IH [OF topo_line_upper [OF Cons.prems]] by simp
  qed simp
  from this [of "([], [])"] show ?thesis by (simp add: parse_rocm_smi_topo_def list_all_iff)
qed

end
