(* ===== verification/Config.thy ===== *)
theory Config
  imports Text
begin

text \<open>
  \<open>core/config/src/lib.rs\<close>: the configuration layers and their precedence
  \<open>auto < file < flags\<close>, and the \<open>[field]\<close> proxy settings with the loopback rule.
  The TOML reader is the parameter \<open>from_str\<close>; reading a file is an outcome of the file system.
\<close>

section \<open>Addresses\<close>

datatype IpAddr = V4 u8 u8 u8 u8 | V6 "128 word"

fun ip_is_loopback :: "IpAddr \<Rightarrow> bool" where
  "ip_is_loopback (V4 a b c d) = (a = 127)"
| "ip_is_loopback (V6 w) = (w = 1)"

fun ip_is_unspecified :: "IpAddr \<Rightarrow> bool" where
  "ip_is_unspecified (V4 a b c d) = (a = 0 \<and> b = 0 \<and> c = 0 \<and> d = 0)"
| "ip_is_unspecified (V6 w) = (w = 0)"

abbreviation localhost4 :: IpAddr where
  "localhost4 \<equiv> V4 127 0 0 1"

section \<open>Layers\<close>

record FieldSettings =
  fs_enabled :: "bool option"
  fs_port :: "u16 option"
  fs_bind :: "IpAddr option"

record FieldConfig =
  fc_enabled :: bool
  fc_port :: u16
  fc_bind :: IpAddr

datatype config_error = Toml string | Io string | FieldBindNotLoopback IpAddr

definition FIELD_DEFAULT_PORT :: u16 where
  "FIELD_DEFAULT_PORT = 7749"

definition set_over :: "'a option \<Rightarrow> 'a option \<Rightarrow> 'a option" where
  "set_over lower higher = (if higher \<noteq> None then higher else lower)"

definition field_overlay :: "FieldSettings \<Rightarrow> FieldSettings \<Rightarrow> FieldSettings" where
  "field_overlay self higher =
     \<lparr>fs_enabled = set_over (fs_enabled self) (fs_enabled higher),
      fs_port = set_over (fs_port self) (fs_port higher),
      fs_bind = set_over (fs_bind self) (fs_bind higher)\<rparr>"

definition field_default :: FieldSettings where
  "field_default = \<lparr>fs_enabled = None, fs_port = None, fs_bind = None\<rparr>"

definition field_resolved :: "FieldSettings \<Rightarrow> config_error + FieldConfig" where
  "field_resolved self =
     (let bind = (case fs_bind self of None \<Rightarrow> localhost4 | Some b \<Rightarrow> b)
      in if \<not> ip_is_loopback bind then Inl (FieldBindNotLoopback bind)
         else Inr \<lparr>fc_enabled = (case fs_enabled self of None \<Rightarrow> False | Some b \<Rightarrow> b),
                   fc_port = (case fs_port self of None \<Rightarrow> FIELD_DEFAULT_PORT | Some p \<Rightarrow> p),
                   fc_bind = bind\<rparr>)"

datatype Backend = Auto | Vulkan | Rocm | Cpu

record Settings =
  st_backend :: "Backend option"
  st_hsa_override :: "string option"
  st_model_dir :: "string option"
  st_socket_path :: "string option"
  st_allow_oversize :: "bool option"
  st_serve_api_key :: "string option"
  st_field :: FieldSettings

definition Settings_default :: Settings where
  "Settings_default =
     \<lparr>st_backend = None, st_hsa_override = None, st_model_dir = None, st_socket_path = None,
      st_allow_oversize = None, st_serve_api_key = None, st_field = field_default\<rparr>"

definition overlay :: "Settings \<Rightarrow> Settings \<Rightarrow> Settings" where
  "overlay self higher =
     \<lparr>st_backend = set_over (st_backend self) (st_backend higher),
      st_hsa_override = set_over (st_hsa_override self) (st_hsa_override higher),
      st_model_dir = set_over (st_model_dir self) (st_model_dir higher),
      st_socket_path = set_over (st_socket_path self) (st_socket_path higher),
      st_allow_oversize = set_over (st_allow_oversize self) (st_allow_oversize higher),
      st_serve_api_key = set_over (st_serve_api_key self) (st_serve_api_key higher),
      st_field = field_overlay (st_field self) (st_field higher)\<rparr>"

definition resolve :: "Settings \<Rightarrow> Settings \<Rightarrow> Settings \<Rightarrow> Settings" where
  "resolve auto file flags = overlay (overlay auto file) flags"

text \<open>\<open>std::fs::read_to_string\<close>: its three outcomes the code tells apart.\<close>

datatype read_outcome = ReadOk string | ReadNotFound | ReadFailed string

definition load_file :: "(string \<Rightarrow> config_error + Settings) \<Rightarrow> read_outcome \<Rightarrow> config_error + Settings" where
  "load_file from_str r =
     (case r of ReadOk text \<Rightarrow> from_str text
      | ReadNotFound \<Rightarrow> Inr Settings_default
      | ReadFailed e \<Rightarrow> Inl (Io e))"

section \<open>Layering laws\<close>

text \<open>What layering promises, whatever the record: the lower layer is transparent where the
  higher one is silent, and layering is associative, so a chain has one meaning.\<close>

locale layering =
  fixes over :: "'s \<Rightarrow> 's \<Rightarrow> 's"
    and silent :: 's
  assumes over_silent: "over s silent = s"
    and silent_over: "over silent s = s"
    and over_assoc: "over (over a b) c = over a (over b c)"
begin

definition chain :: "'s list \<Rightarrow> 's" where
  "chain ls = foldl over silent ls"

lemma foldl_over: "foldl over a ls = over a (chain ls)"
proof (induction ls arbitrary: a)
  case (Cons l ls)
  have "chain (l # ls) = over l (chain ls)"
    using Cons [of l] by (simp add: chain_def silent_over)
  with Cons [of "over a l"] show ?case by (simp add: over_assoc)
qed (simp add: chain_def over_silent)

lemma chain_append: "chain (xs @ ys) = over (chain xs) (chain ys)"
  using foldl_over [of "chain xs" ys] by (simp add: chain_def)

lemma chain_skip_silent: "chain (xs @ silent # ys) = chain (xs @ ys)"
  by (simp add: chain_def over_silent)

end

lemma set_over_simps [simp]:
  "set_over x None = x" "set_over None x = x" "set_over x (Some y) = Some y"
  by (auto simp: set_over_def)

lemma set_over_assoc: "set_over (set_over a b) c = set_over a (set_over b c)"
  by (auto simp: set_over_def)

interpretation field_layers: layering field_overlay field_default
  by unfold_locales (simp_all add: field_overlay_def field_default_def set_over_assoc)

interpretation settings_layers: layering overlay Settings_default
  by unfold_locales (simp_all add: overlay_def Settings_default_def set_over_assoc
      field_layers.over_silent field_layers.silent_over field_layers.over_assoc)

lemma resolve_chain: "resolve a f g = settings_layers.chain [a, f, g]"
  by (simp add: resolve_def settings_layers.chain_def settings_layers.silent_over)

section \<open>Properties\<close>

text \<open>The precedence chain \<open>auto < file < flags\<close>: resolving is layering, the layers may be
  merged in either grouping, and each setting comes from the highest layer that sets it, the
  \<open>[field]\<close> keys one by one.\<close>

lemma resolve_precedence:
  "resolve auto file flags = overlay auto (overlay file flags) \<and>
   st_backend (resolve auto file flags) =
     (case st_backend flags of Some b \<Rightarrow> Some b | None \<Rightarrow>
        (case st_backend file of Some b \<Rightarrow> Some b | None \<Rightarrow> st_backend auto)) \<and>
   st_serve_api_key (resolve auto file flags) =
     (case st_serve_api_key flags of Some b \<Rightarrow> Some b | None \<Rightarrow>
        (case st_serve_api_key file of Some b \<Rightarrow> Some b | None \<Rightarrow> st_serve_api_key auto)) \<and>
   st_allow_oversize (resolve auto file flags) =
     (case st_allow_oversize flags of Some b \<Rightarrow> Some b | None \<Rightarrow>
        (case st_allow_oversize file of Some b \<Rightarrow> Some b | None \<Rightarrow> st_allow_oversize auto)) \<and>
   fs_bind (st_field (resolve auto file flags)) =
     (case fs_bind (st_field flags) of Some b \<Rightarrow> Some b | None \<Rightarrow>
        (case fs_bind (st_field file) of Some b \<Rightarrow> Some b | None \<Rightarrow> fs_bind (st_field auto))) \<and>
   resolve auto Settings_default Settings_default = auto"
  by (simp add: resolve_def settings_layers.over_assoc settings_layers.over_silent)
    (simp add: overlay_def field_overlay_def split: option.splits)

text \<open>The \<open>/field/\<close> proxy never targets an address off the machine: whatever layers were
  merged, a resolved configuration binds a loopback address, and a non-loopback \<open>bind\<close> in the
  highest layer that sets one is refused with that address.\<close>

lemma field_bind_is_loopback:
  "(case field_resolved (st_field (resolve auto file flags)) of
      Inr c \<Rightarrow> ip_is_loopback (fc_bind c)
    | Inl e \<Rightarrow> (\<exists>b. e = FieldBindNotLoopback b \<and> \<not> ip_is_loopback b \<and>
                   fs_bind (st_field (resolve auto file flags)) = Some b))"
  by (auto simp: field_resolved_def Let_def split: option.splits)

end
