(* ===== verification/Model.thy ===== *)
theory Model
  imports Ieee Text
begin

text \<open>
  \<open>core/placement/src/model.rs\<close> and \<open>core/moe-harness/src/lib.rs\<close>: what the planner knows of
  a model, the guards of \<open>ModelMeta::validate\<close>, the memory estimates and the expert offload
  planner.  Every \<open>f64\<close> step is an operation of theory Ieee; every integer step is
  the saturating word operation of the source.
\<close>

section \<open>Model metadata\<close>

datatype QuantLevel = F16 | Q8_0 | Q6_K | Q5_K_M | Q4_K_M | Q4_0

fun bits_per_weight :: "QuantLevel \<Rightarrow> fl" where
  "bits_per_weight F16 = round64 16"
| "bits_per_weight Q8_0 = round64 (85 / 10)"
| "bits_per_weight Q6_K = round64 (656 / 100)"
| "bits_per_weight Q5_K_M = round64 (55 / 10)"
| "bits_per_weight Q4_K_M = round64 (485 / 100)"
| "bits_per_weight Q4_0 = round64 (45 / 10)"

definition quant_parse :: "string \<Rightarrow> QuantLevel option" where
  "quant_parse s =
     (let u = to_upper s
      in if u = ''F16'' \<or> u = ''FP16'' then Some F16
         else if u = ''Q8_0'' \<or> u = ''Q8'' then Some Q8_0
         else if u = ''Q6_K'' \<or> u = ''Q6'' then Some Q6_K
         else if u = ''Q5_K_M'' \<or> u = ''Q5'' then Some Q5_K_M
         else if u = ''Q4_K_M'' \<or> u = ''Q4'' then Some Q4_K_M
         else if u = ''Q4_0'' then Some Q4_0
         else None)"

datatype KvCacheType = KvF16 | KvBf16 | KvQ8_0 | KvQ4_0

definition kv_parse :: "string \<Rightarrow> KvCacheType option" where
  "kv_parse value =
     (let v = to_lower value
      in if v = ''f16'' then Some KvF16
         else if v = ''bf16'' then Some KvBf16
         else if v = ''q8_0'' then Some KvQ8_0
         else if v = ''q4_0'' then Some KvQ4_0
         else None)"

fun as_llama :: "KvCacheType \<Rightarrow> string" where
  "as_llama KvF16 = ''f16''"
| "as_llama KvBf16 = ''bf16''"
| "as_llama KvQ8_0 = ''q8_0''"
| "as_llama KvQ4_0 = ''q4_0''"

fun kv_bits :: "KvCacheType \<Rightarrow> u64" where
  "kv_bits KvF16 = 16"
| "kv_bits KvBf16 = 16"
| "kv_bits KvQ8_0 = 8"
| "kv_bits KvQ4_0 = 4"

definition KV_BYTES_PER_LAYER_PER_TOKEN :: u64 where
  "KV_BYTES_PER_LAYER_PER_TOKEN = 4096"

definition MOE_EXPERT_PARAM_FRACTION :: fl where
  "MOE_EXPERT_PARAM_FRACTION = round64 (9 / 10)"

definition MAX_PARAMS_B :: fl where
  "MAX_PARAMS_B = round64 100000"

definition MAX_CONTEXT_LEN :: u32 where
  "MAX_CONTEXT_LEN = push_bit 24 1"

definition MAX_LAYERS :: u32 where
  "MAX_LAYERS = 4096"

record ModelMeta =
  m_name :: string
  m_params_b :: fl
  m_quant :: QuantLevel
  m_is_moe :: bool
  m_n_layers :: u32
  m_context_len :: u32
  m_native_context_len :: "u32 option"
  m_parallel_slots :: u16
  m_weights_bytes_override :: "u64 option"
  m_kv_heads :: "u32 option"
  m_head_dim :: "u32 option"
  m_kv_element_bytes :: u8
  m_kv_cache_type :: "KvCacheType option"
  m_batch_size :: u32
  m_ubatch_size :: u32
  m_flash_attention :: bool
  m_cache_reuse :: u32
  m_cache_ram_mib :: u32
  m_metrics :: bool
  m_slot_save_path :: "string option"
  m_expert_param_fraction :: "fl option"

definition default_layers :: "fl \<Rightarrow> u32" where
  "default_layers p =
     (if flt p (round64 4) then 26
      else if flt p (round64 10) then 32
      else if flt p (round64 40) then 40
      else if flt p (round64 90) then 80
      else 96)"

definition dense :: "string \<Rightarrow> fl \<Rightarrow> QuantLevel \<Rightarrow> ModelMeta" where
  "dense name params_b quant =
     \<lparr>m_name = name, m_params_b = params_b, m_quant = quant, m_is_moe = False,
      m_n_layers = default_layers params_b, m_context_len = 4096, m_native_context_len = None,
      m_parallel_slots = 1, m_weights_bytes_override = None, m_kv_heads = None,
      m_head_dim = None, m_kv_element_bytes = 2, m_kv_cache_type = None, m_batch_size = 2048,
      m_ubatch_size = 512, m_flash_attention = False, m_cache_reuse = 0, m_cache_ram_mib = 0,
      m_metrics = False, m_slot_save_path = None, m_expert_param_fraction = None\<rparr>"

definition moe :: "string \<Rightarrow> fl \<Rightarrow> QuantLevel \<Rightarrow> ModelMeta" where
  "moe name params_b quant = (dense name params_b quant)\<lparr>m_is_moe := True\<rparr>"

text \<open>The payload of \<open>Error::InvalidModel\<close>: which guard refused, with the values it prints.\<close>

datatype model_defect =
    ParamsNotFinite fl | ParamsNotPositive fl | ParamsTooLarge fl | ContextOutOfRange u32
  | NoParallelSlots | NativeContextOutOfRange | BatchSizes u32 u32 | LayersOutOfRange u32
  | KvWidthOutOfRange u8 | ExpertFractionOutOfRange

definition validate :: "ModelMeta \<Rightarrow> model_defect option" where
  "validate m =
     (if \<not> is_finite (m_params_b m) then Some (ParamsNotFinite (m_params_b m))
      else if fle (m_params_b m) (round64 0) then Some (ParamsNotPositive (m_params_b m))
      else if flt MAX_PARAMS_B (m_params_b m) then Some (ParamsTooLarge (m_params_b m))
      else if m_context_len m = 0 \<or> MAX_CONTEXT_LEN < m_context_len m
        then Some (ContextOutOfRange (m_context_len m))
      else if m_parallel_slots m = 0 then Some NoParallelSlots
      else if (case m_native_context_len m of None \<Rightarrow> False | Some n \<Rightarrow> n = 0 \<or> MAX_CONTEXT_LEN < n)
        then Some NativeContextOutOfRange
      else if m_batch_size m = 0 \<or> m_ubatch_size m = 0 \<or> m_batch_size m < m_ubatch_size m
        then Some (BatchSizes (m_ubatch_size m) (m_batch_size m))
      else if m_n_layers m = 0 \<or> MAX_LAYERS < m_n_layers m then Some (LayersOutOfRange (m_n_layers m))
      else if m_kv_element_bytes m = 0 \<or> 8 < m_kv_element_bytes m
        then Some (KvWidthOutOfRange (m_kv_element_bytes m))
      else if (case m_expert_param_fraction m of None \<Rightarrow> False
               | Some f \<Rightarrow> \<not> is_finite f \<or> \<not> (fle (round64 0) f \<and> fle f (round64 1)))
        then Some ExpertFractionOutOfRange
      else None)"

definition bytes_from_f64 :: "fl \<Rightarrow> u64" where
  "bytes_from_f64 v =
     (if is_nan v \<or> fle v (round64 0) then 0
      else if fle (of_word64 (- 1 :: u64)) v then - 1
      else as_word v)"

text \<open>\<open>with_file_size\<close>: the argument is \<open>std::fs::metadata(path).ok().map(len)\<close>.\<close>

definition with_file_size :: "ModelMeta \<Rightarrow> u64 option \<Rightarrow> ModelMeta" where
  "with_file_size m len = m\<lparr>m_weights_bytes_override := len\<rparr>"

definition weights_bytes :: "ModelMeta \<Rightarrow> u64" where
  "weights_bytes m =
     (case m_weights_bytes_override m of Some b \<Rightarrow> b
      | None \<Rightarrow> bytes_from_f64
          (fdiv round64
             (fmul round64 (fmul round64 (m_params_b m) (round64 1000000000)) (bits_per_weight (m_quant m)))
             (round64 8)))"

definition offloadable_expert_bytes :: "ModelMeta \<Rightarrow> u64" where
  "offloadable_expert_bytes m =
     (if m_is_moe m
      then bytes_from_f64 (fmul round64 (of_word64 (weights_bytes m))
             (case m_expert_param_fraction m of Some f \<Rightarrow> f | None \<Rightarrow> MOE_EXPERT_PARAM_FRACTION))
      else 0)"

definition per_layer_token :: "ModelMeta \<Rightarrow> u64" where
  "per_layer_token m =
     (case (m_kv_heads m, m_head_dim m, m_kv_cache_type m) of
        (Some heads, Some d, Some cache) \<Rightarrow>
          sat_add (sat_mul (sat_mul (sat_mul 2 (ucast heads)) (ucast d)) (kv_bits cache)) 7 div 8
      | (Some heads, Some d, None) \<Rightarrow>
          sat_mul (sat_mul (sat_mul 2 (ucast heads)) (ucast d)) (ucast (m_kv_element_bytes m))
      | (_, _, Some cache) \<Rightarrow> sat_mul KV_BYTES_PER_LAYER_PER_TOKEN (kv_bits cache) div 16
      | _ \<Rightarrow> KV_BYTES_PER_LAYER_PER_TOKEN)"

definition kv_bytes :: "ModelMeta \<Rightarrow> u64" where
  "kv_bytes m =
     sat_mul (sat_mul (sat_mul (ucast (m_n_layers m)) (ucast (m_context_len m)))
        (ucast (m_parallel_slots m))) (per_layer_token m)"

definition clamp_to_native_context :: "ModelMeta \<Rightarrow> ModelMeta" where
  "clamp_to_native_context m =
     (case m_native_context_len m of None \<Rightarrow> m
      | Some native \<Rightarrow>
          let safe = sat_mul native 80 div 100
          in m\<lparr>m_context_len := min (m_context_len m) (max safe 1)\<rparr>)"

definition model_total_bytes :: "ModelMeta \<Rightarrow> u64" where
  "model_total_bytes m = sat_add (weights_bytes m) (kv_bytes m)"

definition gib :: "u64 \<Rightarrow> fl" where
  "gib bytes = fdiv round64 (of_word64 bytes) (round64 (1024 * 1024 * 1024))"

section \<open>Expert offload\<close>

datatype MoeGpuLayers = MoeAll | MoeCount u32

record OffloadRequest =
  or_total_bytes :: u64
  or_weights_bytes :: u64
  or_offloadable_expert_bytes :: u64
  or_n_layers :: u32
  or_usable_vram_bytes :: u64

datatype moe_note = ExpertsOffloaded fl fl | TightEvenWithExpertsOnHost

record OffloadPlan =
  op_gpu_layers :: MoeGpuLayers
  op_experts_on_host :: bool
  op_kv_on_host :: bool
  op_notes :: "moe_note list"

definition estimate_gpu_layers :: "u64 \<Rightarrow> u32 \<Rightarrow> u64 \<Rightarrow> u32" where
  "estimate_gpu_layers resident_bytes n_layers usable =
     (let layers = max n_layers 1;
          per_layer = fdiv round64 (of_word64 resident_bytes) (of_word64 layers)
      in if fle per_layer (round64 0) then layers
         else min (as_word (ffloor (fdiv round64 (of_word64 usable) per_layer))) layers)"

definition plan_offload :: "OffloadRequest \<Rightarrow> OffloadPlan" where
  "plan_offload req =
     (let expert = or_offloadable_expert_bytes req;
          resident = sat_sub (or_total_bytes req) expert
      in if resident \<le> or_usable_vram_bytes req then
           \<lparr>op_gpu_layers = MoeAll, op_experts_on_host = True, op_kv_on_host = False,
            op_notes = [ExpertsOffloaded (gib expert) (gib resident)]\<rparr>
         else
           let resident_weights = sat_sub (or_weights_bytes req) expert;
               layers = estimate_gpu_layers resident_weights (or_n_layers req) (or_usable_vram_bytes req)
           in \<lparr>op_gpu_layers = MoeCount layers, op_experts_on_host = True, op_kv_on_host = True,
               op_notes = [TightEvenWithExpertsOnHost]\<rparr>)"

section \<open>How many layers fit\<close>

lemma estimate_le: "estimate_gpu_layers r n u \<le> max n 1"
  by (simp add: estimate_gpu_layers_def Let_def)

lemma chain_bound:
  fixes c A L U e :: rat
  assumes c: "c \<le> ru / p * (1 + e)" and ru: "ru \<le> U * (1 + e)" and p: "ra / L * (1 - e) \<le> p"
    and ra: "A * (1 - e) \<le> ra" and pos: "0 < A" "0 < L" "0 < p" "0 \<le> U" "0 \<le> e" "e < 1"
  shows "c * A * (1 - e)\<^sup>2 \<le> U * L * (1 + e)\<^sup>2"
proof -
  have "0 < 1 - e" using pos by simp
  have "c * p \<le> ru * (1 + e)" using c pos(3) by (simp add: field_simps)
  also have "\<dots> \<le> U * (1 + e) * (1 + e)" using ru pos by (intro mult_right_mono) auto
  finally have cp: "c * p \<le> U * (1 + e)\<^sup>2" by (simp add: power2_eq_square mult.assoc)
  show ?thesis
  proof (cases "0 \<le> c")
    case True
    have "A * (1 - e) * (1 - e) \<le> ra * (1 - e)" using ra \<open>0 < 1 - e\<close> by (intro mult_right_mono) auto
    also have "\<dots> \<le> p * L" using p pos(2) by (simp add: field_simps)
    finally have "c * (A * (1 - e) * (1 - e)) \<le> c * (p * L)" using True by (rule mult_left_mono)
    also have "\<dots> = (c * p) * L" by simp
    also have "\<dots> \<le> U * (1 + e)\<^sup>2 * L" using cp pos(2) by (intro mult_right_mono) auto
    finally show ?thesis by (simp add: power2_eq_square ac_simps)
  next
    case False
    then have "c * A * (1 - e)\<^sup>2 \<le> 0" using pos by (simp add: mult_le_0_iff)
    also have "0 \<le> U * L * (1 + e)\<^sup>2" using pos by simp
    finally show ?thesis .
  qed
qed

lemma max1_pos: "max (n :: u32) 1 \<noteq> 0"
  by (metis max.cobounded2 word_le_0_iff zero_neq_one)

lemma per_layer_near:
  fixes resident :: u64 and L :: u32
  assumes "resident \<noteq> 0" and "L \<noteq> 0"
  obtains ra p where "fdiv round64 (of_word64 resident) (of_word64 L) = Fin p"
    "of_nat (unat resident) * (1 - u53) \<le> ra" "ra / of_nat (unat L) * (1 - u53) \<le> p"
    "1 / 2 ^ 40 \<le> p" "p \<le> 2 ^ 70"
proof -
  obtain ra where ra: "of_word64 resident = Fin ra" "of_nat (unat resident) * (1 - u53) \<le> ra" "1 / 2 \<le> ra" "ra \<le> 2 ^ 65"
    using of_word64_nearE [of resident] assms(1) by auto
  have L53: "unat L < 2 ^ 53" using less_trans [OF unsigned_less [of L, where 'a = nat], of "2 ^ 53"] by simp
  have L0: "(0::rat) < of_nat (unat L)" using assms(2) by (simp add: unat_gt_0)
  then have L1: "(1::rat) \<le> of_nat (unat L)" by (metis of_nat_0_less_iff of_nat_1 of_nat_le_iff Suc_leI One_nat_def)
  have "unat L \<le> 2 ^ 32" using unsigned_less [of L, where 'a = nat] by simp
  then have L32: "rat_of_nat (unat L) \<le> 2 ^ 32" by (metis of_nat_le_iff of_nat_numeral of_nat_power)
  have L70: "rat_of_nat (unat L) \<le> 2 ^ 70" by (rule order_trans [OF unat_le_2_64]) simp_all
  have "(1::rat) / 2 ^ 40 \<le> 1" by simp
  then obtain p where p: "fdiv round64 (Fin ra) (Fin (of_nat (unat L))) = Fin p"
      "ra / of_nat (unat L) * (1 - u53) \<le> p" "p \<le> ra / of_nat (unat L) * (1 + u53)"
    using fdiv_near [OF ra(3,4) order_trans [OF _ L1] L70] by metis
  have "1 / 2 ^ 33 * rat_of_nat (unat L) \<le> 1 / 2 ^ 33 * 2 ^ 32" using L32 by (intro mult_left_mono) auto
  then have "1 / 2 ^ 33 \<le> ra / of_nat (unat L)" using ra(3) L0 by (simp add: pos_le_divide_eq)
  then have "1 / 2 ^ 33 * (1 - u53) \<le> ra / of_nat (unat L) * (1 - u53)" by (intro mult_right_mono) auto
  then have "1 / 2 ^ 33 * (1 - u53) \<le> p" using p(2) by (rule order_trans)
  then have lo: "1 / 2 ^ 40 \<le> p" by (rule order_trans [rotated]) simp
  have "ra / of_nat (unat L) \<le> 2 ^ 65" using ra(3,4) L1 by (simp add: pos_divide_le_eq [OF L0] order_trans)
  then have "ra / of_nat (unat L) * (1 + u53) \<le> 2 ^ 65 * (1 + u53)" by (intro mult_right_mono) auto
  then have "p \<le> 2 ^ 65 * (1 + u53)" using p(3) by (rule order_trans [rotated])
  then have hi: "p \<le> 2 ^ 70" by (rule order_trans) simp
  show ?thesis using that p(1,2) lo hi ra(1,2) of_word64_exact [OF L53] by simp
qed

lemma estimate_fits:
  fixes resident usable :: u64 and n :: u32
  defines "L \<equiv> max n 1" and "c \<equiv> estimate_gpu_layers resident n usable"
  assumes nz: "resident \<noteq> 0"
  shows "rat_of_nat (unat c) * of_nat (unat resident) * (1 - u53)\<^sup>2
           \<le> of_nat (unat usable) * of_nat (unat L) * (1 + u53)\<^sup>2"
proof -
  have L: "L \<noteq> 0" using max1_pos by (simp add: L_def)
  obtain ra p where p: "fdiv round64 (of_word64 resident) (of_word64 L) = Fin p"
      "of_nat (unat resident) * (1 - u53) \<le> ra" "ra / of_nat (unat L) * (1 - u53) \<le> p"
      "1 / 2 ^ 40 \<le> p" "p \<le> 2 ^ 70"
    using per_layer_near [OF nz L] .
  have p0: "0 < p" using p(4) by (rule less_le_trans [rotated]) simp
  have c: "c = min (as_word (ffloor (fdiv round64 (of_word64 usable) (Fin p)))) L"
    using p(1) p0 by (simp add: c_def estimate_gpu_layers_def Let_def flip: L_def)
  show ?thesis
  proof (cases "usable = 0")
    case True
    then have "c = 0" using p0 by (simp add: c)
    then show ?thesis by simp
  next
    case False
    obtain ru where ru: "of_word64 usable = Fin ru" "ru \<le> of_nat (unat usable) * (1 + u53)" "1 / 2 \<le> ru" "ru \<le> 2 ^ 65"
      using of_word64_nearE [of usable] False by auto
    obtain q where q: "fdiv round64 (Fin ru) (Fin p) = Fin q" "q \<le> ru / p * (1 + u53)" "0 < q"
      using fdiv_near [OF ru(3,4) p(4,5)] by metis
    have "rat_of_nat (unat c) \<le> of_nat (unat (as_word (ffloor (Fin q)) :: u32))"
      by (simp only: c ru(1) q(1) of_nat_le_iff) (simp add: unat_mono min_def word_le_nat_alt)
    also have "\<dots> \<le> q" using q(3) by (intro as_word_floor_le) simp
    finally have "rat_of_nat (unat c) \<le> ru / p * (1 + u53)" using q(2) by (rule order_trans)
    then show ?thesis
      using ru(2) p(2,3) p0 nz L by (intro chain_bound) (auto simp: unat_gt_0)
  qed
qed

text \<open>The two squares, as one factor.\<close>

lemma squares_factor:
  fixes x y :: rat
  assumes "x * (1 - u53)\<^sup>2 \<le> y * (1 + u53)\<^sup>2" and "0 \<le> y"
  shows "x \<le> y * (1 + 1 / 2 ^ 50)"
proof -
  have "(1 + u53)\<^sup>2 \<le> (1 + 1 / 2 ^ 50) * (1 - u53)\<^sup>2" by (simp add: power2_eq_square)
  then have "y * (1 + u53)\<^sup>2 \<le> y * ((1 + 1 / 2 ^ 50) * (1 - u53)\<^sup>2)" using assms(2) by (rule mult_left_mono)
  then have "x * (1 - u53)\<^sup>2 \<le> y * (1 + 1 / 2 ^ 50) * (1 - u53)\<^sup>2"
    unfolding mult.assoc using assms(1) by (rule order_trans [rotated])
  then show ?thesis by (rule mult_right_le_imp_le) (simp add: power2_eq_square)
qed

section \<open>Integer estimates\<close>

lemma unat_kv_bytes:
  "unat (kv_bytes m) =
     min (unat (m_n_layers m) * unat (m_context_len m) * unat (m_parallel_slots m) * unat (per_layer_token m))
       (2 ^ 64 - 1)"
proof -
  have *: "min (min x M * z) M = min (x * z) M" for x z M :: nat
    by (cases z) (auto simp: min_def not_le)
  show ?thesis by (simp only: kv_bytes_def unat_sat_mul *) (simp add: unat_ucast_up)
qed

section \<open>Guards and clamping\<close>

lemma clamp_context:
  "m_context_len (clamp_to_native_context m) \<le> m_context_len m"
  by (simp add: clamp_to_native_context_def Let_def split: option.splits)

lemma clamp_native [simp]: "m_native_context_len (clamp_to_native_context m) = m_native_context_len m"
  by (simp add: clamp_to_native_context_def Let_def split: option.splits)

lemma clamp_idem: "clamp_to_native_context (clamp_to_native_context m) = clamp_to_native_context m"
  by (simp add: clamp_to_native_context_def Let_def min.assoc split: option.splits)

lemma eighty_percent: "unat (sat_mul native 80 div 100 :: u32) * 100 \<le> unat native * 80"
proof -
  have "unat (sat_mul native 80 div 100 :: u32) = unat (sat_mul native 80 :: u32) div 100"
    by (simp add: unat_div)
  also have "\<dots> * 100 \<le> unat (sat_mul native 80 :: u32)" by simp
  also have "\<dots> \<le> unat native * 80" by (simp add: unat_sat_mul)
  finally show ?thesis .
qed

lemma lit_1 [simp]: "round64 1 = Fin 1"
  by code_simp

lemma MAX_PARAMS_B_val: "MAX_PARAMS_B = Fin 100000"
  by code_simp

lemma MAX_CONTEXT_LEN_val: "unat MAX_CONTEXT_LEN = 2 ^ 24"
  by (simp add: MAX_CONTEXT_LEN_def)

lemma word_nonzero_unat: "x \<noteq> 0 \<longleftrightarrow> 1 \<le> unat x"
  by (simp add: unat_gt_0 Suc_le_eq)

lemma params_guards:
  "is_finite p \<and> \<not> fle p (Fin 0) \<and> \<not> flt MAX_PARAMS_B p \<longleftrightarrow> (\<exists>q. p = Fin q \<and> 0 < q \<and> q \<le> 100000)"
  by (cases p) (auto simp: is_finite_def MAX_PARAMS_B_val)

lemma fraction_guard:
  "is_finite f \<and> fle (Fin 0) f \<and> fle f (Fin 1) \<longleftrightarrow> (\<exists>q. f = Fin q \<and> 0 \<le> q \<and> q \<le> 1)"
  by (cases f) (auto simp: is_finite_def)

lemma validate_None_iff:
  "validate m = None \<longleftrightarrow>
     (\<exists>p. m_params_b m = Fin p \<and> 0 < p \<and> p \<le> 100000) \<and>
     1 \<le> unat (m_context_len m) \<and> unat (m_context_len m) \<le> 2 ^ 24 \<and>
     1 \<le> unat (m_parallel_slots m) \<and>
     (\<forall>n. m_native_context_len m = Some n \<longrightarrow> 1 \<le> unat n \<and> unat n \<le> 2 ^ 24) \<and>
     1 \<le> unat (m_ubatch_size m) \<and> unat (m_ubatch_size m) \<le> unat (m_batch_size m) \<and>
     1 \<le> unat (m_n_layers m) \<and> unat (m_n_layers m) \<le> 4096 \<and>
     1 \<le> unat (m_kv_element_bytes m) \<and> unat (m_kv_element_bytes m) \<le> 8 \<and>
     (\<forall>f. m_expert_param_fraction m = Some f \<longrightarrow> (\<exists>q. f = Fin q \<and> 0 \<le> q \<and> q \<le> 1))"
proof -
  have "validate m = None \<longleftrightarrow>
     (is_finite (m_params_b m) \<and> \<not> fle (m_params_b m) (Fin 0) \<and> \<not> flt MAX_PARAMS_B (m_params_b m)) \<and>
     (m_context_len m \<noteq> 0 \<and> m_context_len m \<le> MAX_CONTEXT_LEN) \<and> m_parallel_slots m \<noteq> 0 \<and>
     (\<forall>n. m_native_context_len m = Some n \<longrightarrow> n \<noteq> 0 \<and> n \<le> MAX_CONTEXT_LEN) \<and>
     (m_batch_size m \<noteq> 0 \<and> m_ubatch_size m \<noteq> 0 \<and> m_ubatch_size m \<le> m_batch_size m) \<and>
     (m_n_layers m \<noteq> 0 \<and> m_n_layers m \<le> MAX_LAYERS) \<and>
     (m_kv_element_bytes m \<noteq> 0 \<and> m_kv_element_bytes m \<le> 8) \<and>
     (\<forall>f. m_expert_param_fraction m = Some f \<longrightarrow> is_finite f \<and> fle (Fin 0) f \<and> fle f (Fin 1))"
    unfolding validate_def guard_None_iff case_option_False_iff round64_0 lit_1 not_less [symmetric]
    by blast
  then show ?thesis
    unfolding params_guards fraction_guard word_le_nat_alt MAX_CONTEXT_LEN_val word_nonzero_unat
    by (auto simp: MAX_LAYERS_def)
qed

section \<open>Properties\<close>

text \<open>\<open>validate\<close> accepts exactly the descriptions the planner can reason about: a finite
  parameter count in \<open>(0, 100000]\<close> billions, a context of 1 to \<open>2\<^sup>2\<^sup>4\<close> tokens, at least one slot,
  a native context in the same range when known, \<open>1 \<le> ubatch \<le> batch\<close>, 1 to 4096 layers, a KV
  element of 1 to 8 bytes and an expert fraction in \<open>[0, 1]\<close>.  Infinities and NaN are refused.\<close>

lemma validate_accepts_exactly:
  "validate m = None \<longleftrightarrow>
     (\<exists>p. m_params_b m = Fin p \<and> 0 < p \<and> p \<le> 100000) \<and>
     1 \<le> unat (m_context_len m) \<and> unat (m_context_len m) \<le> 2 ^ 24 \<and>
     1 \<le> unat (m_parallel_slots m) \<and>
     (case m_native_context_len m of None \<Rightarrow> True | Some n \<Rightarrow> 1 \<le> unat n \<and> unat n \<le> 2 ^ 24) \<and>
     1 \<le> unat (m_ubatch_size m) \<and> unat (m_ubatch_size m) \<le> unat (m_batch_size m) \<and>
     1 \<le> unat (m_n_layers m) \<and> unat (m_n_layers m) \<le> 4096 \<and>
     1 \<le> unat (m_kv_element_bytes m) \<and> unat (m_kv_element_bytes m) \<le> 8 \<and>
     (case m_expert_param_fraction m of None \<Rightarrow> True | Some f \<Rightarrow> (\<exists>q. f = Fin q \<and> 0 \<le> q \<and> q \<le> 1))"
  by (simp only: validate_None_iff) (auto split: option.splits)

text \<open>C27. The number of layers placed on the GPU never exceeds the model's layer count, and
  the bytes those layers occupy (the resident bytes spread evenly over the layers) fit the usable
  VRAM, up to the relative error \<open>2\<^sup>-\<^sup>5\<^sup>0\<close> of the four floating-point roundings.\<close>

theorem gpu_layers_fit:
  "unat (estimate_gpu_layers resident n usable) \<le> max (unat n) 1 \<and>
   rat_of_nat (unat (estimate_gpu_layers resident n usable) * unat resident)
     \<le> rat_of_nat (unat usable * max (unat n) 1) * (1 + 1 / 2 ^ 50)"
proof -
  have n: "unat (max n 1) = max (unat n) 1" by (simp add: max_def word_le_nat_alt)
  have "unat (estimate_gpu_layers resident n usable) \<le> max (unat n) 1"
    using estimate_le [of resident n usable] by (simp add: word_le_nat_alt n)
  moreover have "rat_of_nat (unat (estimate_gpu_layers resident n usable)) * of_nat (unat resident)
      \<le> of_nat (unat usable) * of_nat (unat (max n 1)) * (1 + 1 / 2 ^ 50)"
  proof (cases "resident = 0")
    case False
    show ?thesis using estimate_fits [OF False, of n usable] by (rule squares_factor) simp
  qed simp
  ultimately show ?thesis by (simp add: n)
qed

text \<open>Clamping to the native context leaves at most 80 percent of it (but at least one
  token), never raises the requested context, and keeps a valid description valid.\<close>

lemma clamp_keeps_valid:
  assumes "validate m = None"
  shows "validate (clamp_to_native_context m) = None \<and>
    unat (m_context_len (clamp_to_native_context m)) \<le> unat (m_context_len m) \<and>
    (case m_native_context_len m of None \<Rightarrow> True
     | Some n \<Rightarrow> unat (m_context_len (clamp_to_native_context m)) * 100 \<le> max (unat n * 80) 100)"
proof (cases "m_native_context_len m")
  case None
  then have "clamp_to_native_context m = m" by (simp add: clamp_to_native_context_def)
  then show ?thesis using assms None by simp
next
  case (Some n)
  define safe :: u32 where "safe = sat_mul n 80 div 100"
  have m': "clamp_to_native_context m = m\<lparr>m_context_len := min (m_context_len m) (max safe 1)\<rparr>"
    by (simp add: clamp_to_native_context_def Some safe_def)
  have le: "unat (min (m_context_len m) (max safe 1)) \<le> unat (m_context_len m)"
    by (simp add: min_def word_le_nat_alt)
  have ge: "1 \<le> unat (min (m_context_len m) (max safe 1))"
    using assms by (auto simp: validate_None_iff min_def max_def word_le_nat_alt)
  have "unat (min (m_context_len m) (max safe 1)) * 100 \<le> max (unat safe * 100) 100"
    by (simp add: min_def max_def word_le_nat_alt)
  also have "\<dots> \<le> max (unat n * 80) 100" using eighty_percent [of n] by (auto simp: safe_def)
  finally show ?thesis using assms le ge Some by (auto simp: m' validate_None_iff)
qed

end
