(* ===== verification/Plan.thy ===== *)
theory Plan
  imports Model Gpu Config
begin

text \<open>
  \<open>core/placement/src/plan.rs\<close>: the planner \<open>(topology, model, task, settings) \<rightarrow> plan\<close>, with the
  memory budget it is sized against.  Every note the code pushes for the user is a constructor
  carrying the values it prints; the errors are those of \<open>core/placement/src/error.rs\<close>.
\<close>

section \<open>Types\<close>

datatype place_error =
    NoGpus | InvalidModel model_defect | InsufficientMemory fl fl | MissingApiKey string
  | TrainingUnsupported u8 | BackendUnsupported string | CpuInferenceOnly | NoNodes
  | NoTrainableNode | UnknownProvider string | NodeNotFound string
  | InvalidNodeAddress string | LocalAgentTooLarge string

datatype Task = Inference | Training

datatype MultiGpu = Single | LayerSplit "fl list" | ExpertParallel | Fsdp nat

datatype GpuLayers = LayersAll | LayersCount u32

record Offload =
  ol_gpu_layers :: GpuLayers
  ol_experts_on_host :: bool
  ol_kv_on_host :: bool

record MemoryBudget =
  mb_vram_bytes :: u64
  mb_vram_used_bytes :: u64
  mb_vram_used_known :: bool
  mb_gtt_reachable_bytes :: u64
  mb_usable_host_bytes :: "u64 option"
  mb_vram_known :: bool
  mb_shared_memory :: bool

datatype plan_note =
    VramUnknown | VramInUse fl | MixedTiers | HostRamAvailable fl | HostRamUnknown | IntegratedGpu
  | RunningOnCpu | CpuFit fl fl | CpuHostRamUnknown
  | FullOffloadUnsized | FullOffloadFits fl fl | MoeNote moe_note | FarExceedsVram | DenseSplit u32
  | TrainVramUnknown | TrainExceedsVram | TrainFits fl fl | Sharding nat LinkKind | HostOnlySync
  | HostOnlyFitsOne | MoeByLayer nat LinkKind | MoeResidentSplit nat LinkKind | SplittingDense nat LinkKind

record PlacementPlan =
  pp_task :: Task
  pp_backend :: Backend
  pp_gpu_count :: nat
  pp_multi_gpu :: MultiGpu
  pp_offload :: Offload
  pp_budget :: MemoryBudget
  pp_env :: "(string \<times> string) list"
  pp_fits_in_vram :: bool
  pp_notes :: "plan_note list"

section \<open>The memory budget\<close>

definition VRAM_HEADROOM :: fl where
  "VRAM_HEADROOM = round64 (90 / 100)"

definition HOST_HEADROOM :: fl where
  "HOST_HEADROOM = round64 (75 / 100)"

definition TRAINING_FOOTPRINT_MULT :: u64 where
  "TRAINING_FOOTPRINT_MULT = 4"

definition scale :: "u64 \<Rightarrow> fl \<Rightarrow> u64" where
  "scale bytes factor =
     (let v = fmul round64 (of_word64 bytes) factor
      in if \<not> is_finite v \<or> fle v (round64 0) then 0
         else if fle (of_word64 (- 1 :: u64)) v then - 1
         else as_word v)"

definition budget_of :: "Topology \<Rightarrow> MemoryBudget" where
  "budget_of topo =
     (let vram_known = (gpus topo \<noteq> [] \<and> list_all (\<lambda>g. gi_vram_mb g \<noteq> None) (gpus topo));
          shared_memory = list_ex (\<lambda>g. is_shared_with_host (gi_memory g)) (gpus topo);
          vram_total = sat_sum (List.map_filter vram_bytes (gpus topo));
          vram_usable = scale vram_total VRAM_HEADROOM;
          vram_used_known = (gpus topo \<noteq> [] \<and> list_all (\<lambda>g. gi_vram_used_mb g \<noteq> None) (gpus topo));
          vram_used_bytes = sat_sum (map (\<lambda>mb. sat_mul mb mib) (List.map_filter gi_vram_used_mb (gpus topo)));
          usable_host_bytes = map_option (\<lambda>h. scale (available_bytes h) HOST_HEADROOM) (host_mem topo);
          gtt_reachable =
            (if shared_memory then
               let gtt = sat_sum (List.map_filter gtt_bytes
                           (filter (\<lambda>g. is_shared_with_host (gi_memory g)) (gpus topo)))
               in (case usable_host_bytes of Some host \<Rightarrow> min gtt host | None \<Rightarrow> 0)
             else 0)
      in \<lparr>mb_vram_bytes = vram_usable, mb_vram_used_bytes = vram_used_bytes,
          mb_vram_used_known = vram_used_known, mb_gtt_reachable_bytes = gtt_reachable,
          mb_usable_host_bytes = usable_host_bytes, mb_vram_known = vram_known,
          mb_shared_memory = shared_memory\<rparr>)"

definition usable_vram :: "MemoryBudget \<Rightarrow> u64" where
  "usable_vram b = sat_add (sat_sub (mb_vram_bytes b) (mb_vram_used_bytes b)) (mb_gtt_reachable_bytes b)"

definition ceiling_bytes :: "MemoryBudget \<Rightarrow> u64 option" where
  "ceiling_bytes b = map_option (\<lambda>host. sat_add (mb_vram_bytes b) host) (mb_usable_host_bytes b)"

section \<open>Planning\<close>

definition allow_oversize :: "Settings \<Rightarrow> bool" where
  "allow_oversize s = (case st_allow_oversize s of None \<Rightarrow> False | Some b \<Rightarrow> b)"

definition plan_cpu :: "Topology \<Rightarrow> ModelMeta \<Rightarrow> Task \<Rightarrow> Settings \<Rightarrow> place_error + PlacementPlan" where
  "plan_cpu topo model task settings =
     (if task = Training then Inl CpuInferenceOnly
      else
        let budget = budget_of topo;
            need = model_total_bytes model;
            ok = (\<lambda>fits note. Inr
              \<lparr>pp_task = Inference, pp_backend = Cpu, pp_gpu_count = 0, pp_multi_gpu = Single,
               pp_offload = \<lparr>ol_gpu_layers = LayersCount 0, ol_experts_on_host = False, ol_kv_on_host = False\<rparr>,
               pp_budget = budget, pp_env = [], pp_fits_in_vram = fits,
               pp_notes = [RunningOnCpu, note]\<rparr>)
        in (case mb_usable_host_bytes budget of
              Some host \<Rightarrow>
                if host < need \<and> \<not> allow_oversize settings
                then Inl (InsufficientMemory (gib need) (gib host))
                else ok (need \<le> host) (CpuFit (gib need) (gib host))
            | None \<Rightarrow> ok False CpuHostRamUnknown))"

definition resolve_backend :: "Backend option \<Rightarrow> TierAssessment \<Rightarrow> Task \<Rightarrow> place_error + Backend" where
  "resolve_backend override_backend best task =
     (case task of
        Training \<Rightarrow>
          if \<not> ta_training_supported best then Inl (TrainingUnsupported (as_number (ta_tier best)))
          else Inr Rocm
      | Inference \<Rightarrow>
          if override_backend = Some Vulkan then Inr Vulkan
          else if override_backend = Some Rocm \<and> ta_training_supported best then Inr Rocm
          else if override_backend = Some Rocm then
            Inl (BackendUnsupported (''ROCm was forced but the best detected GPU is Tier '' @
                   show_nat (unat (as_number (ta_tier best)))))
          else if ta_training_supported best then Inr Rocm
          else Inr Vulkan)"

definition check_ceiling :: "MemoryBudget \<Rightarrow> u64 \<Rightarrow> Settings \<Rightarrow> place_error option" where
  "check_ceiling budget need settings =
     (if allow_oversize settings \<or> \<not> mb_vram_known budget then None
      else (case ceiling_bytes budget of None \<Rightarrow> None
            | Some c \<Rightarrow> if c < need then Some (InsufficientMemory (gib need) (gib c)) else None))"

definition gpu_count_for :: "MultiGpu \<Rightarrow> nat \<Rightarrow> nat" where
  "gpu_count_for multi n =
     (case multi of Single \<Rightarrow> 1 | LayerSplit fractions \<Rightarrow> length fractions
      | ExpertParallel \<Rightarrow> n | Fsdp shards \<Rightarrow> shards)"

definition single_gpu_usable :: "Topology \<Rightarrow> nat \<Rightarrow> u64" where
  "single_gpu_usable topo idx =
     (if idx < length (gpus topo) then
        (case vram_bytes (gpus topo ! idx) of None \<Rightarrow> 0 | Some b \<Rightarrow> scale b VRAM_HEADROOM)
      else 0)"

definition vram_fractions :: "Topology \<Rightarrow> fl list" where
  "vram_fractions topo =
     (let vrams = map (\<lambda>g. case gi_vram_mb g of None \<Rightarrow> 0 | Some v \<Rightarrow> v) (gpus topo);
          tot = sat_sum vrams;
          n = max (gpu_count topo) 1
      in if tot = 0 then replicate n (fdiv round32 (round32 1) (round32 (of_nat n)))
         else map (\<lambda>v. fdiv round32 (of_word32 v) (of_word32 tot)) vrams)"

definition bottleneck_or_host :: "Topology \<Rightarrow> LinkKind" where
  "bottleneck_or_host topo = (case bottleneck_link topo of None \<Rightarrow> HostOnly | Some k \<Rightarrow> k)"

definition choose_inference_multi_gpu ::
  "Topology \<Rightarrow> ModelMeta \<Rightarrow> MemoryBudget \<Rightarrow> bool \<Rightarrow> MultiGpu \<times> plan_note list" where
  "choose_inference_multi_gpu topo model budget experts_on_host =
     (let n = gpu_count topo
      in if n \<le> 1 then (Single, [])
         else
           let link = bottleneck_or_host topo;
               single_usable = single_gpu_usable topo 0;
               fits_one = (mb_vram_known budget \<and> model_total_bytes model \<le> single_usable)
           in if fits_one \<and> link = HostOnly then (Single, [HostOnlyFitsOne])
              else (LayerSplit (vram_fractions topo),
                    [if m_is_moe model \<and> \<not> experts_on_host then MoeByLayer n link
                     else if m_is_moe model then MoeResidentSplit n link
                     else SplittingDense n link]))"

definition moe_layers :: "MoeGpuLayers \<Rightarrow> GpuLayers" where
  "moe_layers l = (case l of MoeAll \<Rightarrow> LayersAll | MoeCount n \<Rightarrow> LayersCount n)"

definition inference_offload :: "ModelMeta \<Rightarrow> MemoryBudget \<Rightarrow> Offload \<times> plan_note list" where
  "inference_offload model budget =
     (let need = model_total_bytes model;
          usable = usable_vram budget;
          fits = (mb_vram_known budget \<and> need \<le> usable);
          all_gpu = \<lparr>ol_gpu_layers = LayersAll, ol_experts_on_host = False, ol_kv_on_host = False\<rparr>
      in if \<not> mb_vram_known budget then (all_gpu, [FullOffloadUnsized])
         else if fits then (all_gpu, [FullOffloadFits (gib need) (gib usable)])
         else if m_is_moe model then
           let mo = plan_offload \<lparr>or_total_bytes = need, or_weights_bytes = weights_bytes model,
                      or_offloadable_expert_bytes = offloadable_expert_bytes model,
                      or_n_layers = m_n_layers model, or_usable_vram_bytes = usable\<rparr>
           in (\<lparr>ol_gpu_layers = moe_layers (op_gpu_layers mo), ol_experts_on_host = op_experts_on_host mo,
                ol_kv_on_host = op_kv_on_host mo\<rparr>, map MoeNote (op_notes mo))
         else
           let layers = estimate_gpu_layers (sat_add (weights_bytes model) (kv_bytes model))
                          (m_n_layers model) usable
           in (all_gpu\<lparr>ol_gpu_layers := LayersCount layers\<rparr>,
               [if layers = 0 then FarExceedsVram else DenseSplit layers]))"

definition plan_inference ::
  "Topology \<Rightarrow> ModelMeta \<Rightarrow> Backend \<Rightarrow> (string \<times> string) list \<Rightarrow> MemoryBudget \<Rightarrow> Settings \<Rightarrow>
   plan_note list \<Rightarrow> place_error + PlacementPlan" where
  "plan_inference topo model backend env budget settings notes =
     (let need = model_total_bytes model
      in (case check_ceiling budget need settings of Some e \<Rightarrow> Inl e
          | None \<Rightarrow>
              let fits = (mb_vram_known budget \<and> need \<le> usable_vram budget);
                  (offload, notes1) = inference_offload model budget;
                  (multi_gpu, notes2) =
                    choose_inference_multi_gpu topo model budget (ol_experts_on_host offload)
              in Inr \<lparr>pp_task = Inference, pp_backend = backend,
                      pp_gpu_count = gpu_count_for multi_gpu (gpu_count topo),
                      pp_multi_gpu = multi_gpu, pp_offload = offload, pp_budget = budget,
                      pp_env = env, pp_fits_in_vram = fits, pp_notes = notes @ notes1 @ notes2\<rparr>))"

definition plan_training ::
  "Topology \<Rightarrow> ModelMeta \<Rightarrow> Backend \<Rightarrow> (string \<times> string) list \<Rightarrow> MemoryBudget \<Rightarrow> Settings \<Rightarrow>
   plan_note list \<Rightarrow> place_error + PlacementPlan" where
  "plan_training topo model backend env budget settings notes =
     (let train_need = sat_mul (weights_bytes model) TRAINING_FOOTPRINT_MULT
      in (case check_ceiling budget train_need settings of Some e \<Rightarrow> Inl e
          | None \<Rightarrow>
              let usable = usable_vram budget;
                  fits = (mb_vram_known budget \<and> train_need \<le> usable);
                  n = gpu_count topo;
                  (multi_gpu, notes1) =
                    (if n \<le> 1 then
                       (Single, [if \<not> mb_vram_known budget then TrainVramUnknown
                                 else if \<not> fits then TrainExceedsVram
                                 else TrainFits (gib train_need) (gib usable)])
                     else
                       let link = bottleneck_or_host topo
                       in (Fsdp n, Sharding n link # (if link = HostOnly then [HostOnlySync] else [])))
              in Inr \<lparr>pp_task = Training, pp_backend = backend,
                      pp_gpu_count = gpu_count_for multi_gpu n, pp_multi_gpu = multi_gpu,
                      pp_offload = \<lparr>ol_gpu_layers = LayersAll, ol_experts_on_host = False, ol_kv_on_host = False\<rparr>,
                      pp_budget = budget, pp_env = env, pp_fits_in_vram = fits,
                      pp_notes = notes @ notes1\<rparr>))"

definition budget_notes :: "MemoryBudget \<Rightarrow> TierAssessment list \<Rightarrow> TierAssessment \<Rightarrow> plan_note list" where
  "budget_notes budget assessments best =
     (if \<not> mb_vram_known budget then [VramUnknown] else []) @
     (if mb_vram_used_known budget \<and> 0 < mb_vram_used_bytes budget
      then [VramInUse (gib (mb_vram_used_bytes budget))] else []) @
     (if list_ex (\<lambda>a. ta_tier a \<noteq> ta_tier best) assessments then [MixedTiers] else []) @
     [case mb_usable_host_bytes budget of Some h \<Rightarrow> HostRamAvailable (gib h) | None \<Rightarrow> HostRamUnknown] @
     (if mb_shared_memory budget then [IntegratedGpu] else [])"

definition plan ::
  "Topology \<Rightarrow> TierAssessment list \<Rightarrow> ModelMeta \<Rightarrow> Task \<Rightarrow> Settings \<Rightarrow> place_error + PlacementPlan" where
  "plan topo assessments model task settings =
     (case validate model of Some d \<Rightarrow> Inl (InvalidModel d)
      | None \<Rightarrow>
          if gpus topo = [] \<or> st_backend settings = Some Cpu then plan_cpu topo model task settings
          else (case first_min (\<lambda>a. as_number (ta_tier a)) assessments of
              None \<Rightarrow> Inl NoGpus
            | Some best \<Rightarrow>
                (case resolve_backend (st_backend settings) best task of Inl e \<Rightarrow> Inl e
                 | Inr backend \<Rightarrow>
                     let env = (case (case st_hsa_override settings of Some h \<Rightarrow> Some h
                                      | None \<Rightarrow> ta_hsa_override best) of
                                  Some h \<Rightarrow> [(''HSA_OVERRIDE_GFX_VERSION'', h)] | None \<Rightarrow> []);
                         budget = budget_of topo;
                         notes = budget_notes budget assessments best
                     in (case task of
                           Inference \<Rightarrow> plan_inference topo model backend env budget settings notes
                         | Training \<Rightarrow> plan_training topo model backend env budget settings notes))))"

section \<open>Scaling by a headroom fraction\<close>

lemma VRAM_HEADROOM_val: "VRAM_HEADROOM = Fin (8106479329266893 / 9007199254740992)"
  by code_simp

lemma HOST_HEADROOM_val: "HOST_HEADROOM = Fin (3 / 4)"
  by code_simp

lemma scale_zero [simp]: "scale 0 (Fin q) = 0"
  by (simp add: scale_def)

lemma scale_bounds:
  assumes q: "1 / 2 \<le> q" "q \<le> 1"
  shows "rat_of_nat (unat (scale b (Fin q))) \<le> of_nat (unat b) * q * (1 + u53)\<^sup>2" (is ?hi)
    and "of_nat (unat b) * q * (1 - u53)\<^sup>2 - 1 \<le> rat_of_nat (unat (scale b (Fin q)))" (is ?lo)
proof -
  have "?hi \<and> ?lo"
  proof (cases "b = 0")
    case False
    let ?B = "rat_of_nat (unat b)"
    obtain a where a: "of_word64 b = Fin a" "?B * (1 - u53) \<le> a" "a \<le> ?B * (1 + u53)" "1 / 2 \<le> a" "a \<le> 2 ^ 65"
      using of_word64_nearE [of b] False by auto
    obtain v where v: "fmul round64 (Fin a) (Fin q) = Fin v" "a * q * (1 - u53) \<le> v" "v \<le> a * q * (1 + u53)" "0 < v"
      using fmul_near [OF a(4,5) q] .
    have "a * q * (1 + u53) \<le> ?B * (1 + u53) * q * (1 + u53)"
      using a(3) q by (intro mult_right_mono) auto
    then have "v \<le> ?B * (1 + u53) * q * (1 + u53)" using v(3) by (rule order_trans [rotated])
    then have hi: "v \<le> ?B * q * (1 + u53)\<^sup>2" by (simp add: power2_eq_square ac_simps)
    have "?B * (1 - u53) * q * (1 - u53) \<le> a * q * (1 - u53)"
      using a(2) q by (intro mult_right_mono) auto
    then have "?B * (1 - u53) * q * (1 - u53) \<le> v" using v(2) by (rule order_trans)
    then have lo: "?B * q * (1 - u53)\<^sup>2 \<le> v" by (simp add: power2_eq_square ac_simps)
    show ?thesis
    proof (cases "2 ^ 64 \<le> v")
      case True
      then have s: "scale b (Fin q) = - 1"
        using v by (simp add: scale_def Let_def a(1) is_finite_def of_max_word64)
      have top: "rat_of_nat (unat (- 1 :: u64)) = 2 ^ 64 - 1" by (simp add: unat_max_word)
      have "unat b \<le> 2 ^ 64 - 1" using unat_le_max [of b] by simp
      then have B: "?B \<le> 2 ^ 64 - 1" using top by (metis of_nat_le_iff unat_le_top)
      have "?B * q * (1 - u53)\<^sup>2 \<le> ?B * 1 * 1" using q by (intro mult_mono) (auto simp: power_le_one)
      then show ?thesis using True hi B by (simp add: s top)
    next
      case False
      then have s: "scale b (Fin q) = as_word (Fin v)"
        using v by (simp add: scale_def Let_def a(1) is_finite_def of_max_word64 del: as_word.simps)
      show ?thesis
        unfolding s using as_word_upper [of v, where 'a = 64] as_word_lower [of v, where 'a = 64] False v(4) hi lo
        by (simp del: as_word.simps)
    qed
  qed simp
  then show ?hi ?lo by simp_all
qed

lemma scale_headroom_le:
  "scale b VRAM_HEADROOM \<le> b" "scale b HOST_HEADROOM \<le> b"
proof -
  have *: "scale b (Fin q) \<le> b" if q: "1 / 2 \<le> q" "q \<le> 91 / 100" for q
  proof -
    have "q * (1 + u53)\<^sup>2 \<le> 91 / 100 * (1 + u53)\<^sup>2" using q by (intro mult_right_mono) auto
    also have "\<dots> \<le> 1" by (simp add: power2_eq_square)
    finally have "rat_of_nat (unat b) * (q * (1 + u53)\<^sup>2) \<le> of_nat (unat b) * 1" by (intro mult_left_mono) auto
    then have "rat_of_nat (unat (scale b (Fin q))) \<le> of_nat (unat b)"
      using scale_bounds(1) [of q b] q by (simp add: mult.assoc)
    then show ?thesis by (simp add: word_le_nat_alt)
  qed
  show "scale b VRAM_HEADROOM \<le> b" unfolding VRAM_HEADROOM_val by (rule *) simp_all
  show "scale b HOST_HEADROOM \<le> b" unfolding HOST_HEADROOM_val by (rule *) simp_all
qed

lemma scale_eq:
  assumes "1 / 2 \<le> q" "q \<le> 1"
  obtains v where "fmul round64 (of_word64 b) (Fin q) = Fin v" "0 \<le> v"
    "scale b (Fin q) = as_word (Fin v)"
proof (cases "b = 0")
  case True
  then show ?thesis using that [of 0] by simp
next
  case False
  obtain a where a: "of_word64 b = Fin a" "1 / 2 \<le> a" "a \<le> 2 ^ 65"
    using of_word64_nearE [of b] False by auto
  obtain v where v: "fmul round64 (Fin a) (Fin q) = Fin v" "0 < v"
    using fmul_near [OF a(2,3) assms] by blast
  then have "scale b (Fin q) = as_word (Fin v)"
    by (simp add: scale_def Let_def a(1) is_finite_def of_max_word64)
  then show ?thesis using that [of v] v a(1) by simp
qed

lemma scale_mono:
  assumes "a \<le> b" and "1 / 2 \<le> q" "q \<le> 1"
  shows "scale a (Fin q) \<le> scale b (Fin q)"
proof -
  obtain x y where xy: "of_word64 a = Fin x" "0 \<le> x" "of_word64 b = Fin y"
    using of_word64_fin [of a] of_word64_fin [of b] by auto
  obtain v where v: "fmul round64 (of_word64 a) (Fin q) = Fin v" "scale a (Fin q) = as_word (Fin v)"
    using scale_eq [OF assms(2,3)] by metis
  obtain w where w: "fmul round64 (of_word64 b) (Fin q) = Fin w" "scale b (Fin q) = as_word (Fin w)"
    using scale_eq [OF assms(2,3)] by metis
  have "fle (Fin x) (Fin y)" using of_word64_mono [OF assms(1)] xy by simp
  then have "fle (fmul round64 (Fin x) (Fin q)) (fmul round64 (Fin y) (Fin q))"
    using assms(2) xy(2) by (intro fmul_round64_mono) auto
  then have "fle (Fin v) (Fin w)" using v(1) w(1) xy by simp
  then show ?thesis unfolding v(2) w(2) by (rule as_word_mono)
qed

lemma sum_list_map_filter_le: "(\<And>x y. f x = Some y \<Longrightarrow> unat y \<le> g x) \<Longrightarrow>
  sum_list (map unat (List.map_filter f xs)) \<le> sum_list (map g xs)"
  by (induction xs) (auto simp: List.map_filter_simps add_mono trans_le_add2 split: option.splits)

lemma usable_le_ceiling:
  assumes "ceiling_bytes (budget_of topo) = Some c"
  shows "usable_vram (budget_of topo) \<le> c"
proof -
  let ?b = "budget_of topo"
  obtain host where host: "mb_usable_host_bytes ?b = Some host" and c: "c = sat_add (mb_vram_bytes ?b) host"
    using assms by (auto simp: ceiling_bytes_def)
  have "mb_gtt_reachable_bytes ?b \<le> host"
    using host by (auto simp: budget_of_def Let_def split: option.splits)
  then show ?thesis
    by (simp add: c usable_vram_def word_le_nat_alt u_nat) 
qed

section \<open>The planner's results\<close>

abbreviation task_need :: "ModelMeta \<Rightarrow> Task \<Rightarrow> u64" where
  "task_need m task \<equiv> (case task of Inference \<Rightarrow> model_total_bytes m
     | Training \<Rightarrow> sat_mul (weights_bytes m) TRAINING_FOOTPRINT_MULT)"

lemma plan_Inr_valid: "plan topo as m task s = Inr p \<Longrightarrow> validate m = None"
  by (auto simp: plan_def split: option.splits)

lemma plan_cpu_Inr:
  assumes "plan_cpu topo m task s = Inr p"
  shows "task = Inference \<and> pp_task p = Inference \<and> pp_backend p = Cpu \<and> pp_gpu_count p = 0 \<and>
    pp_multi_gpu p = Single \<and> pp_budget p = budget_of topo \<and> pp_env p = [] \<and>
    pp_offload p = \<lparr>ol_gpu_layers = LayersCount 0, ol_experts_on_host = False, ol_kv_on_host = False\<rparr> \<and>
    (\<forall>h. mb_usable_host_bytes (budget_of topo) = Some h \<longrightarrow>
       allow_oversize s \<or> model_total_bytes m \<le> h)"
  using assms by (cases task) (auto simp: plan_cpu_def Let_def split: option.splits if_splits)

lemma plan_gpu_Inr:
  assumes "plan topo as m task s = Inr p" and "gpus topo \<noteq> []" and "st_backend s \<noteq> Some Cpu"
  obtains best backend env nts where "first_min (\<lambda>a. as_number (ta_tier a)) as = Some best"
    "resolve_backend (st_backend s) best task = Inr backend"
    "(case task of Inference \<Rightarrow> plan_inference topo m backend env (budget_of topo) s nts
      | Training \<Rightarrow> plan_training topo m backend env (budget_of topo) s nts) = Inr p"
  using assms by (auto simp: plan_def Let_def split: option.splits sum.splits)

lemma plan_inference_Inr:
  assumes "plan_inference topo m backend env budget s notes = Inr p"
  shows "check_ceiling budget (model_total_bytes m) s = None"
    and "pp_task p = Inference" "pp_backend p = backend" "pp_budget p = budget" "pp_env p = env"
    and "pp_fits_in_vram p = (mb_vram_known budget \<and> model_total_bytes m \<le> usable_vram budget)"
    and "pp_offload p = fst (inference_offload m budget)"
    and "pp_multi_gpu p = fst (choose_inference_multi_gpu topo m budget (ol_experts_on_host (pp_offload p)))"
    and "pp_gpu_count p = gpu_count_for (pp_multi_gpu p) (gpu_count topo)"
  using assms by (auto simp: plan_inference_def Let_def split: option.splits prod.splits)

lemma plan_training_Inr:
  assumes "plan_training topo m backend env budget s notes = Inr p"
  shows "check_ceiling budget (sat_mul (weights_bytes m) TRAINING_FOOTPRINT_MULT) s = None"
    and "pp_task p = Training" "pp_backend p = backend" "pp_budget p = budget" "pp_env p = env"
    and "pp_fits_in_vram p =
           (mb_vram_known budget \<and> sat_mul (weights_bytes m) TRAINING_FOOTPRINT_MULT \<le> usable_vram budget)"
    and "pp_offload p = \<lparr>ol_gpu_layers = LayersAll, ol_experts_on_host = False, ol_kv_on_host = False\<rparr>"
    and "pp_multi_gpu p = (if gpu_count topo \<le> 1 then Single else Fsdp (gpu_count topo))"
    and "pp_gpu_count p = gpu_count_for (pp_multi_gpu p) (gpu_count topo)"
  using assms by (auto simp: plan_training_def Let_def split: option.splits prod.splits if_splits)

lemma check_ceiling_None_iff:
  "check_ceiling b need s = None \<longleftrightarrow>
     allow_oversize s \<or> \<not> mb_vram_known b \<or> (case ceiling_bytes b of None \<Rightarrow> True | Some c \<Rightarrow> need \<le> c)"
  by (auto simp: check_ceiling_def not_less split: option.splits)

lemma inference_offload_shape:
  assumes "inference_offload m b = (ol, notes)"
  shows "(ol_experts_on_host ol \<longrightarrow> m_is_moe m) \<and> (ol_kv_on_host ol \<longrightarrow> ol_experts_on_host ol) \<and>
    (case ol_gpu_layers ol of LayersAll \<Rightarrow> True | LayersCount k \<Rightarrow> k \<le> max (m_n_layers m) 1) \<and>
    (mb_vram_known b \<and> model_total_bytes m \<le> usable_vram b \<longrightarrow>
       ol = \<lparr>ol_gpu_layers = LayersAll, ol_experts_on_host = False, ol_kv_on_host = False\<rparr>)"
proof -
  have "op_experts_on_host (plan_offload r)" "case op_gpu_layers (plan_offload r) of MoeAll \<Rightarrow> True | MoeCount k \<Rightarrow> k \<le> max (or_n_layers r) 1" for r
    using estimate_le by (auto simp: plan_offload_def Let_def)
  note * = this(1) this(2)[of "\<lparr>or_total_bytes = model_total_bytes m, or_weights_bytes = weights_bytes m,
                      or_offloadable_expert_bytes = offloadable_expert_bytes m,
                      or_n_layers = m_n_layers m, or_usable_vram_bytes = usable_vram b\<rparr>"]
  show ?thesis using assms * estimate_le
    by (auto simp: inference_offload_def moe_layers_def Let_def split: if_splits MoeGpuLayers.splits)
qed

lemma vram_fractions_length: "length (vram_fractions topo) = max (gpu_count topo) 1"
  by (cases "gpus topo") (auto simp: vram_fractions_def Let_def gpu_count_def sat_sum_def)

lemma choose_multi_shape:
  "fst (choose_inference_multi_gpu topo m b e) = Single \<or>
   1 < gpu_count topo \<and> fst (choose_inference_multi_gpu topo m b e) = LayerSplit (vram_fractions topo)"
  by (auto simp: choose_inference_multi_gpu_def Let_def)


lemma budget_of_simps:
  "mb_vram_bytes (budget_of topo) = scale (sat_sum (List.map_filter vram_bytes (gpus topo))) VRAM_HEADROOM"
  "mb_usable_host_bytes (budget_of topo) = map_option (\<lambda>h. scale (available_bytes h) HOST_HEADROOM) (host_mem topo)"
  "mb_vram_known (budget_of topo) = (gpus topo \<noteq> [] \<and> (\<forall>g \<in> set (gpus topo). gi_vram_mb g \<noteq> None))"
  by (simp_all add: budget_of_def Let_def list_all_iff)

lemma unat_vram_bytes_le: "vram_bytes g = Some b \<Longrightarrow> unat b \<le> (case gi_vram_mb g of None \<Rightarrow> 0 | Some mb \<Rightarrow> unat mb * 2 ^ 20)"
  by (auto simp: vram_bytes_def unat_sat_mul)

lemma ceiling_le_physical:
  assumes "ceiling_bytes (budget_of topo) = Some c"
  shows "\<exists>h. host_mem topo = Some h \<and>
    unat c \<le> (\<Sum>g\<leftarrow>gpus topo. case gi_vram_mb g of None \<Rightarrow> 0 | Some mb \<Rightarrow> unat mb * 2 ^ 20)
               + unat (available_bytes h)"
proof -
  obtain h where h: "host_mem topo = Some h"
    and c: "c = sat_add (mb_vram_bytes (budget_of topo)) (scale (available_bytes h) HOST_HEADROOM)"
    using assms by (auto simp: ceiling_bytes_def budget_of_simps)
  have "unat (mb_vram_bytes (budget_of topo)) \<le> unat (sat_sum (List.map_filter vram_bytes (gpus topo)))"
    using scale_headroom_le(1) by (simp add: budget_of_simps word_le_nat_alt)
  also have "\<dots> \<le> sum_list (map unat (List.map_filter vram_bytes (gpus topo)))" by (simp add: unat_sat_sum)
  also have "\<dots> \<le> (\<Sum>g\<leftarrow>gpus topo. case gi_vram_mb g of None \<Rightarrow> 0 | Some mb \<Rightarrow> unat mb * 2 ^ 20)"
    by (rule sum_list_map_filter_le) (rule unat_vram_bytes_le)
  finally have "unat (mb_vram_bytes (budget_of topo)) + unat (scale (available_bytes h) HOST_HEADROOM)
     \<le> (\<Sum>g\<leftarrow>gpus topo. case gi_vram_mb g of None \<Rightarrow> 0 | Some mb \<Rightarrow> unat mb * 2 ^ 20) + unat (available_bytes h)"
    using scale_headroom_le(2) [of "available_bytes h"] by (simp add: word_le_nat_alt)
  then show ?thesis using h by (simp add: c unat_sat_add)
qed

text \<open>A 24 GiB card in a machine with 32 GiB available, used by the witnesses below.\<close>

definition example_gpu :: GpuInfo where
  "example_gpu = (GpuInfo_new ''Navi 31'' ''1002:744c'')
     \<lparr>gi_vram_mb := Some 24576, gi_memory := Dedicated, gi_gfx_arch := Some ''gfx1100''\<rparr>"

definition example_topo :: "nat \<Rightarrow> Topology" where
  "example_topo n = \<lparr>gpus = replicate n example_gpu, links = [], host_mem = Some (from_kib 33554432 33554432)\<rparr>"

definition example_db :: OverrideDb where
  "example_db = \<lparr>db_version = 1,
     db_entries = [(''gfx1100'', \<lparr>oe_tier = Tier1, oe_hsa_override = None, oe_note = None\<rparr>)]\<rparr>"

abbreviation example_model :: ModelMeta where
  "example_model \<equiv> dense ''m'' (Fin 7) Q4_K_M"

lemma example_plan_ok:
  "\<not> isl (plan (example_topo 1) (classify_topology (example_topo 1) example_db) example_model Inference Settings_default)"
  by code_simp
lemma example_train_ok:
  "\<not> isl (plan (example_topo 2) (classify_topology (example_topo 2) example_db) example_model Training Settings_default)"
  by code_simp

lemma example_known: "\<not> allow_oversize Settings_default" "host_mem (example_topo n) = Some (from_kib 33554432 33554432)"
    "\<forall>g \<in> set (gpus (example_topo n)). gi_vram_mb g \<noteq> None"
  by (simp_all add: allow_oversize_def Settings_default_def example_topo_def example_gpu_def GpuInfo_new_def)

section \<open>Properties\<close>

text \<open>C1. The planner never promises memory that is not there.  When the memory of every card and
  of the host is known and oversize plans are not allowed, any plan it returns has a working set
  (weights and KV cache, or four times the weights for training) within the cards' VRAM plus the
  host RAM, each counted once.\<close>

theorem plan_within_physical_memory:
  assumes "plan topo as m task s = Inr p" and "\<not> allow_oversize s"
    and "host_mem topo = Some h" and "\<forall>g \<in> set (gpus topo). gi_vram_mb g \<noteq> None"
  shows "unat (case task of Inference \<Rightarrow> model_total_bytes m
                | Training \<Rightarrow> sat_mul (weights_bytes m) TRAINING_FOOTPRINT_MULT)
    \<le> (\<Sum>g\<leftarrow>gpus topo. case gi_vram_mb g of None \<Rightarrow> 0 | Some mb \<Rightarrow> unat mb * 2 ^ 20)
       + unat (available_bytes h)"
proof (cases "gpus topo = [] \<or> st_backend s = Some Cpu")
  case True
  then have "plan_cpu topo m task s = Inr p"
    using assms(1) by (auto simp: plan_def split: option.splits)
  then have "task = Inference" "model_total_bytes m \<le> scale (available_bytes h) HOST_HEADROOM"
    using assms(2,3) plan_cpu_Inr by (fastforce simp: budget_of_simps)+
  then show ?thesis
    using scale_headroom_le(2) [of "available_bytes h"] by (simp add: word_le_nat_alt)
next
  case False
  then obtain best backend env nts where "(case task of
      Inference \<Rightarrow> plan_inference topo m backend env (budget_of topo) s nts
    | Training \<Rightarrow> plan_training topo m backend env (budget_of topo) s nts) = Inr p"
    using plan_gpu_Inr [OF assms(1)] by metis
  then have "check_ceiling (budget_of topo) (task_need m task) s = None"
    by (cases task) (auto dest: plan_inference_Inr(1) plan_training_Inr(1))
  moreover have "mb_vram_known (budget_of topo)" using False assms(4) by (simp add: budget_of_simps)
  ultimately obtain c where c: "ceiling_bytes (budget_of topo) = Some c" "task_need m task \<le> c"
    using assms(2,3) by (auto simp: check_ceiling_None_iff ceiling_bytes_def budget_of_simps)
  then show ?thesis using ceiling_le_physical [OF c(1)] assms(3) by (auto simp: word_le_nat_alt)
qed

theorem plan_within_physical_memory_witness:
  "unat (model_total_bytes example_model) \<le> 24576 * 2 ^ 20 + unat (available_bytes (from_kib 33554432 33554432))"
proof -
  obtain p where "plan (example_topo 1) (classify_topology (example_topo 1) example_db) example_model Inference Settings_default = Inr p"
    using example_plan_ok by (metis isl_def sum.exhaust)
  from plan_within_physical_memory [OF this example_known]
  show ?thesis by (simp add: example_topo_def example_gpu_def GpuInfo_new_def)
qed

text \<open>C25. Training is only ever planned for a machine that can do it: the plan uses ROCm, and the
  card it is planned for is an AMD card of the topology whose architecture the compatibility
  database lists as Tier 1 or Tier 2.\<close>

theorem training_plan_needs_rocm_card:
  assumes "plan topo (classify_topology topo db) m Training s = Inr p"
  shows "pp_backend p = Rocm \<and> st_backend s \<noteq> Some Cpu \<and>
    (\<exists>g arch e. g \<in> set (gpus topo) \<and> gi_vendor g = Amd \<and> gi_gfx_arch g = Some arch \<and>
       db_lookup db arch = Some e \<and> oe_tier e \<noteq> Tier3)"
proof -
  have ncpu: "gpus topo \<noteq> []" "st_backend s \<noteq> Some Cpu"
    using assms by (auto simp: plan_def plan_cpu_def split: option.splits)
  then obtain best backend env nts where best: "first_min (\<lambda>a. as_number (ta_tier a)) (classify_topology topo db) = Some best"
      "resolve_backend (st_backend s) best Training = Inr backend"
      "plan_training topo m backend env (budget_of topo) s nts = Inr p"
    using plan_gpu_Inr [OF assms] by (metis Task.simps(4))
  have "ta_training_supported best" "backend = Rocm"
    using best(2) by (auto simp: resolve_backend_def split: if_splits)
  moreover obtain g where g: "g \<in> set (gpus topo)" "best = classify db g"
    using first_min_least [OF best(1)] by (auto simp: classify_topology_def)
  ultimately have "gi_vendor g = Amd \<and> (\<exists>arch e. gi_gfx_arch g = Some arch \<and> db_lookup db arch = Some e \<and> oe_tier e \<noteq> Tier3)"
    by (auto simp: classify_def vulkan_only_def training_supported_def split: if_splits option.splits Tier.splits)
  then show ?thesis using plan_training_Inr(3) [OF best(3)] \<open>backend = Rocm\<close> g(1) ncpu(2) by blast
qed

theorem training_plan_needs_rocm_card_witness:
  "\<exists>p. plan (example_topo 2) (classify_topology (example_topo 2) example_db) example_model Training Settings_default = Inr p
     \<and> pp_backend p = Rocm"
  using example_train_ok training_plan_needs_rocm_card by (metis isl_def sum.exhaust)

text \<open>C24. Every plan is internally consistent: it carries the budget of its topology; experts go to
  the host only for MoE models and the KV cache only together with them; expert parallelism is
  never combined with experts on the host (it is never emitted); the layer count on the GPU is at
  most the model's; the number of GPUs used is at most the number present; and when the plan says
  the work fits in VRAM on a GPU backend, it does, with everything on the GPU.\<close>

theorem plan_consistent:
  assumes "plan topo as m task s = Inr p"
  shows "pp_budget p = budget_of topo \<and> pp_task p = task \<and> pp_backend p \<noteq> Auto \<and>
    pp_multi_gpu p \<noteq> ExpertParallel \<and> pp_gpu_count p \<le> gpu_count topo \<and>
    (ol_experts_on_host (pp_offload p) \<longrightarrow> m_is_moe m) \<and>
    (ol_kv_on_host (pp_offload p) \<longrightarrow> ol_experts_on_host (pp_offload p)) \<and>
    (case ol_gpu_layers (pp_offload p) of LayersAll \<Rightarrow> True | LayersCount k \<Rightarrow> k \<le> m_n_layers m) \<and>
    (pp_fits_in_vram p \<and> pp_backend p \<noteq> Cpu \<longrightarrow>
       task_need m task \<le> usable_vram (budget_of topo) \<and>
       pp_offload p = \<lparr>ol_gpu_layers = LayersAll, ol_experts_on_host = False, ol_kv_on_host = False\<rparr>)"
proof (cases "gpus topo = [] \<or> st_backend s = Some Cpu")
  case True
  then have "plan_cpu topo m task s = Inr p"
    using assms by (auto simp: plan_def split: option.splits)
  from plan_cpu_Inr [OF this] show ?thesis by simp
next
  case False
  then obtain best backend env nts where b: "resolve_backend (st_backend s) best task = Inr backend"
      and p: "(case task of Inference \<Rightarrow> plan_inference topo m backend env (budget_of topo) s nts
        | Training \<Rightarrow> plan_training topo m backend env (budget_of topo) s nts) = Inr p"
    using plan_gpu_Inr [OF assms] by metis
  have backend: "backend \<noteq> Auto" using b by (auto simp: resolve_backend_def split: Task.splits if_splits)
  have n: "max (m_n_layers m) 1 = m_n_layers m"
    using plan_Inr_valid [OF assms] by (intro max_absorb1) (simp add: validate_None_iff word_le_nat_alt)
  have g: "1 \<le> gpu_count topo" using False by (cases "gpus topo") (auto simp: gpu_count_def)
  show ?thesis
  proof (cases task)
    case Inference
    then have pi: "plan_inference topo m backend env (budget_of topo) s nts = Inr p" using p by simp
    note facts = plan_inference_Inr [OF pi]
    obtain ol nts' where ol: "inference_offload m (budget_of topo) = (ol, nts')" by fastforce
    have mg: "pp_multi_gpu p = Single \<or> 1 < gpu_count topo \<and> pp_multi_gpu p = LayerSplit (vram_fractions topo)"
      unfolding facts(8) by (rule choose_multi_shape)
    then have "pp_gpu_count p \<le> gpu_count topo" "pp_multi_gpu p \<noteq> ExpertParallel"
      using g vram_fractions_length [of topo] by (auto simp: facts(9) gpu_count_for_def)
    then show ?thesis
      using inference_offload_shape [OF ol] facts(2-7) ol backend Inference n by (auto split: GpuLayers.splits)
  next
    case Training
    then have pt: "plan_training topo m backend env (budget_of topo) s nts = Inr p" using p by simp
    note facts = plan_training_Inr [OF pt]
    show ?thesis using facts(2-9) backend Training g by (auto simp: gpu_count_for_def)
  qed
qed

theorem plan_consistent_witness:
  "\<exists>p. plan (example_topo 2) (classify_topology (example_topo 2) example_db) example_model Training Settings_default = Inr p
     \<and> pp_gpu_count p \<le> 2"
proof -
  obtain p where p: "plan (example_topo 2) (classify_topology (example_topo 2) example_db) example_model Training Settings_default = Inr p"
    using example_train_ok by (metis isl_def sum.exhaust)
  have "gpu_count (example_topo 2) = 2" by (simp add: gpu_count_def example_topo_def)
  then show ?thesis using plan_consistent [OF p] p by auto
qed

text \<open>C23. Which requests the planner answers with a plan, exactly.  On the CPU path: inference whose
  working set fits the host budget, unless that budget is unknown or oversize is allowed.  On the
  GPU path: some card was assessed, training (or a forced ROCm backend) only when the best card
  supports it, and the working set is within the ceiling whenever the ceiling is known.\<close>

theorem plan_succeeds_iff:
  "\<not> isl (plan topo as m task s) \<longleftrightarrow>
     validate m = None \<and>
     (if gpus topo = [] \<or> st_backend s = Some Cpu
      then task = Inference \<and>
           (allow_oversize s \<or>
            (case mb_usable_host_bytes (budget_of topo) of None \<Rightarrow> True | Some host \<Rightarrow> model_total_bytes m \<le> host))
      else (case first_min (\<lambda>a. as_number (ta_tier a)) as of None \<Rightarrow> False
            | Some best \<Rightarrow>
                ta_training_supported best \<or> task = Inference \<and> st_backend s \<noteq> Some Rocm) \<and>
           (if allow_oversize s \<or> \<not> mb_vram_known (budget_of topo) then True
            else case ceiling_bytes (budget_of topo) of None \<Rightarrow> True | Some c \<Rightarrow> task_need m task \<le> c))"
proof (cases "validate m")
  case (Some d)
  then show ?thesis by (simp add: plan_def)
next
  case None
  show ?thesis
  proof (cases "gpus topo = [] \<or> st_backend s = Some Cpu")
    case True
    then show ?thesis using None
      by (cases task) (auto simp: plan_def plan_cpu_def Let_def not_less split: option.splits)
  next
    case False
    have inf: "isl (plan_inference topo m b env bu s nts) \<longleftrightarrow> check_ceiling bu (model_total_bytes m) s \<noteq> None" for b env bu nts
      by (simp add: plan_inference_def Let_def split: option.splits prod.splits)
    have trn: "isl (plan_training topo m b env bu s nts) \<longleftrightarrow>
        check_ceiling bu (sat_mul (weights_bytes m) TRAINING_FOOTPRINT_MULT) s \<noteq> None" for b env bu nts
      by (simp add: plan_training_def Let_def split: option.splits prod.splits)
    have rb: "isl (resolve_backend bo best t) \<longleftrightarrow>
        \<not> (ta_training_supported best \<or> t = Inference \<and> bo \<noteq> Some Rocm)" for bo best t
      by (auto simp: resolve_backend_def split: Task.splits)
    show ?thesis
    proof (cases "first_min (\<lambda>a. as_number (ta_tier a)) as")
      case fm: (Some best)
      show ?thesis
      proof (cases "resolve_backend (st_backend s) best task")
        case (Inl e)
        then show ?thesis using rb [of "st_backend s" best task] None False fm by (simp add: plan_def)
      next
        case (Inr b)
        then show ?thesis using rb [of "st_backend s" best task] None False fm
          by (cases task) (simp_all add: plan_def Let_def inf trn check_ceiling_None_iff split: option.splits)
      qed
    qed (use None False in \<open>simp add: plan_def\<close>)
  qed
qed

theorem plan_succeeds_iff_witness:
  "isl (plan (cpu_only None) [] example_model Training Settings_default)"
  using plan_succeeds_iff [of "cpu_only None" "[]" example_model Training Settings_default]
  by (simp add: cpu_only_def)

text \<open>The headroom fractions: what is planned against is at most the memory there is, within a
  relative \<open>2\<^sup>-\<^sup>5\<^sup>0\<close> (and one byte of truncation) of nine tenths of the VRAM and three quarters of
  the available RAM, and grows with it.\<close>

lemma headroom_bounds:
  "unat (scale b VRAM_HEADROOM) \<le> unat b \<and> unat (scale b HOST_HEADROOM) \<le> unat b \<and>
   \<bar>rat_of_nat (unat (scale b VRAM_HEADROOM)) - 9 / 10 * of_nat (unat b)\<bar> \<le> 1 + of_nat (unat b) / 2 ^ 50 \<and>
   \<bar>rat_of_nat (unat (scale b HOST_HEADROOM)) - 3 / 4 * of_nat (unat b)\<bar> \<le> 1 + of_nat (unat b) / 2 ^ 50 \<and>
   scale b VRAM_HEADROOM \<le> scale (sat_add b d) VRAM_HEADROOM \<and>
   scale b HOST_HEADROOM \<le> scale (sat_add b d) HOST_HEADROOM"
proof -
  have near: "\<bar>rat_of_nat (unat (scale b (Fin q))) - r * of_nat (unat b)\<bar> \<le> 1 + of_nat (unat b) / 2 ^ 50"
    if q: "1 / 2 \<le> q" "q \<le> 1" and r: "q * (1 + u53)\<^sup>2 \<le> r + 1 / 2 ^ 50" "r - 1 / 2 ^ 50 \<le> q * (1 - u53)\<^sup>2" for q r
  proof -
    let ?B = "rat_of_nat (unat b)"
    have "?B * (q * (1 + u53)\<^sup>2) \<le> ?B * (r + 1 / 2 ^ 50)" "?B * (r - 1 / 2 ^ 50) \<le> ?B * (q * (1 - u53)\<^sup>2)"
      using r by (auto intro: mult_left_mono)
    then show ?thesis
      using scale_bounds [OF q, of b] unfolding mult.assoc abs_le_iff
      by (simp add: algebra_simps)
  qed
  have le: "b \<le> sat_add b d" using unat_le_max [of b] by (simp add: word_le_nat_alt unat_sat_add)
  show ?thesis
    using scale_headroom_le [of b] near [of "8106479329266893 / 9007199254740992" "9 / 10"] near [of "3 / 4" "3 / 4"]
      scale_mono [OF le, of "8106479329266893 / 9007199254740992"] scale_mono [OF le, of "3 / 4"]
    by (simp add: VRAM_HEADROOM_val HOST_HEADROOM_val word_le_nat_alt power2_eq_square)
qed

text \<open>C26. The memory budget counts shared memory once: what the GPUs can hold (their own free
  memory plus the part of host RAM an APU reaches through GTT) is within the machine's ceiling, the
  ceiling is within the physical memory, and neither depends on the order in which the cards were
  enumerated.\<close>

theorem budget_counts_once:
  assumes "ceiling_bytes (budget_of topo) = Some c" and "mset gs = mset (gpus topo)"
  shows "usable_vram (budget_of topo) \<le> c \<and>
    (\<exists>h. host_mem topo = Some h \<and>
      unat c \<le> (\<Sum>g\<leftarrow>gpus topo. case gi_vram_mb g of None \<Rightarrow> 0 | Some mb \<Rightarrow> unat mb * 2 ^ 20)
               + unat (available_bytes h)) \<and>
    budget_of (topo\<lparr>gpus := gs\<rparr>) = budget_of topo"
proof -
  have sel: "gpus (topo\<lparr>gpus := gs\<rparr>) = gs" "host_mem (topo\<lparr>gpus := gs\<rparr>) = host_mem topo" by simp_all
  have sets: "set gs = set (gpus topo)" using assms(2) by (metis set_mset_mset)
  have nil: "gs = [] \<longleftrightarrow> gpus topo = []" using assms(2) by auto
  have fl: "mset (filter P gs) = mset (filter P (gpus topo))" for P using assms(2) by (metis mset_filter)
  have vram: "sat_sum (List.map_filter vram_bytes gs) = sat_sum (List.map_filter vram_bytes (gpus topo))"
    using assms(2) by (intro sat_sum_perm map_filter_mset)
  have used: "sat_sum (map (\<lambda>mb. sat_mul mb mib) (List.map_filter gi_vram_used_mb gs))
      = sat_sum (map (\<lambda>mb. sat_mul mb mib) (List.map_filter gi_vram_used_mb (gpus topo)))"
    using map_filter_mset [OF assms(2), of gi_vram_used_mb] by (intro sat_sum_perm) (simp only: mset_map)
  have gtt: "sat_sum (List.map_filter gtt_bytes (filter P gs)) = sat_sum (List.map_filter gtt_bytes (filter P (gpus topo)))" for P
    using fl by (intro sat_sum_perm map_filter_mset)
  have "budget_of (topo\<lparr>gpus := gs\<rparr>) = budget_of topo"
    unfolding budget_of_def by (simp only: sel vram used gtt nil list_all_iff list_ex_iff sets)
  then show ?thesis using usable_le_ceiling [OF assms(1)] ceiling_le_physical [OF assms(1)] by simp
qed

theorem budget_counts_once_witness:
  "\<exists>c. ceiling_bytes (budget_of (example_topo 2)) = Some c \<and> usable_vram (budget_of (example_topo 2)) \<le> c"
proof -
  obtain c where "ceiling_bytes (budget_of (example_topo 2)) = Some c"
    by (simp add: ceiling_bytes_def budget_of_simps example_topo_def)
  then show ?thesis using budget_counts_once by blast
qed

lemma fraction_mono:
  fixes a b tot :: u64
  assumes "tot \<noteq> 0" and "a \<le> b" and "b \<le> tot"
  shows "\<exists>r. fdiv round32 (of_word32 a) (of_word32 tot) = Fin r \<and> 0 \<le> r \<and> r \<le> 1"
    and "fle (fdiv round32 (of_word32 a) (of_word32 tot)) (fdiv round32 (of_word32 b) (of_word32 tot))"
proof -
  obtain t where t: "of_word32 tot = Fin t" "0 < t" using of_word32_near [OF assms(1)] by blast
  obtain x where x: "of_word32 a = Fin x" "0 \<le> x" using of_word32_fin by blast
  obtain y where y: "of_word32 b = Fin y" using of_word32_fin by blast
  have le: "x \<le> y" "y \<le> t"
    using of_word32_mono [OF assms(2)] of_word32_mono [OF assms(3)] x y t by simp_all
  then show "\<exists>r. fdiv round32 (of_word32 a) (of_word32 tot) = Fin r \<and> 0 \<le> r \<and> r \<le> 1"
    using round32_unit [of "x / t"] x t by simp
  have "fle (round32 (x / t)) (round32 (y / t))"
    unfolding round32_def using le x t by (intro round_to_mono) (auto simp: divide_right_mono)
  then show "fle (fdiv round32 (of_word32 a) (of_word32 tot)) (fdiv round32 (of_word32 b) (of_word32 tot))"
    using x y t by simp
qed

lemma even_share: "\<exists>r. fdiv round32 (round32 1) (round32 (of_nat n)) = Fin r \<and> 0 \<le> r \<and> r \<le> 1"
  if "0 < n" for n :: nat
proof -
  have "fle (round32 1) (round32 (of_nat n))"
    unfolding round32_def using that by (intro round_to_mono) auto
  then show ?thesis using round32_unit [of "1 / r" for r]
    by (cases "round32 (of_nat n)") auto
qed

text \<open>The split of a model across the cards has one fraction per card, each between 0 and 1,
  and a card with more VRAM never gets the smaller share.\<close>

lemma vram_fractions_sound:
  assumes "gpus topo \<noteq> []"
  shows "length (vram_fractions topo) = gpu_count topo \<and>
    (\<forall>f \<in> set (vram_fractions topo). \<exists>r. f = Fin r \<and> 0 \<le> r \<and> r \<le> 1) \<and>
    (\<forall>i < gpu_count topo. \<forall>j < gpu_count topo. \<forall>a b.
       gi_vram_mb (gpus topo ! i) = Some a \<longrightarrow> gi_vram_mb (gpus topo ! j) = Some b \<longrightarrow> a \<le> b \<longrightarrow>
       fle (vram_fractions topo ! i) (vram_fractions topo ! j))"
proof -
  define vrams where "vrams = map (\<lambda>g. case gi_vram_mb g of None \<Rightarrow> 0 | Some v \<Rightarrow> v) (gpus topo)"
  define tot where "tot = sat_sum vrams"
  have n: "0 < gpu_count topo" using assms by (simp add: gpu_count_def)
  have fr: "vram_fractions topo = (if tot = 0 then replicate (gpu_count topo) (fdiv round32 (round32 1) (round32 (of_nat (gpu_count topo))))
      else map (\<lambda>v. fdiv round32 (of_word32 v) (of_word32 tot)) vrams)"
    using max_absorb1 [of 1 "gpu_count topo"] n
    by (simp only: vram_fractions_def Let_def tot_def vrams_def)
  have len: "length vrams = gpu_count topo" by (simp add: vrams_def gpu_count_def)
  have tot: "v \<le> tot" if "v \<in> set vrams" for v using that by (simp add: tot_def sat_sum_member)
  have ex: "\<exists>r. f = Fin r \<and> 0 \<le> r \<and> r \<le> 1" if "f \<in> set (vram_fractions topo)" for f
    using that even_share [OF n] fraction_mono(1) [OF _ order_refl tot] by (auto simp: fr split: if_splits)
  have mono: "fle (vram_fractions topo ! i) (vram_fractions topo ! j)"
    if ij: "i < gpu_count topo" "j < gpu_count topo" and v: "vrams ! i \<le> vrams ! j" for i j
  proof (cases "tot = 0")
    case True
    then show ?thesis using ij ex [of "vram_fractions topo ! i"] by (auto simp: fr)
  next
    case False
    then show ?thesis using fraction_mono(2) [OF False v tot] ij len by (simp add: fr)
  qed
  have "length (vram_fractions topo) = gpu_count topo" using vram_fractions_length [of topo] n by simp
  then show ?thesis using ex mono by (simp add: vrams_def gpu_count_def)
qed

end
