(* ===== verification/Fleet.thy ===== *)
theory Fleet
  imports Plan
begin

text \<open>
  \<open>core/placement/src/fleet.rs\<close>: placing a workload on one node of a cluster by tightest fit.
  The multiplications and the sum that the code writes with plain operators wrap at 64 bits here,
  as they do in a release build.
\<close>

datatype NetworkClass = Infiniband | FastEthernet | Consumer

definition supports_distributed :: "NetworkClass \<Rightarrow> bool" where
  "supports_distributed n = (case n of Consumer \<Rightarrow> False | _ \<Rightarrow> True)"

record NodeInfo =
  ni_name :: string
  ni_address :: string
  ni_topology :: Topology
  ni_assessments :: "TierAssessment list"
  ni_resident :: "string list"

definition is_warm_for :: "NodeInfo \<Rightarrow> string \<Rightarrow> string \<Rightarrow> bool" where
  "is_warm_for self model path =
     (let want = trim_end_matches ''.gguf'' model;
          want_path = trim_end_matches ''.gguf'' path
      in list_ex (\<lambda>m. let have' = trim_end_matches ''.gguf'' m
                      in have' = want \<or> have' = want_path \<or> m = path) (ni_resident self))"

definition node_usable_vram :: "NodeInfo \<Rightarrow> u64 \<times> bool" where
  "node_usable_vram self =
     (let gs = gpus (ni_topology self);
          known = (gs \<noteq> [] \<and> list_all (\<lambda>g. gi_vram_mb g \<noteq> None) gs);
          tot = sum_list (map (\<lambda>mb. mb * 1024 * 1024) (List.map_filter gi_vram_mb gs))
      in (as_word (fmul round64 (of_word64 tot) VRAM_HEADROOM), known))"

definition training_capable :: "NodeInfo \<Rightarrow> bool" where
  "training_capable self =
     (case ni_assessments self of [] \<Rightarrow> False | a # _ \<Rightarrow> ta_training_supported a)"

record Cluster =
  cl_nodes :: "NodeInfo list"
  cl_network :: NetworkClass

datatype FleetPlacement =
    SingleNode nat string PlacementPlan
  | Distributed "nat list" string

datatype fleet_note =
    TightestFit string fl fl | ExceedsEverySingleNode fl nat NetworkClass
  | LargestWithOffload NetworkClass string

record FleetPlan =
  fp_task :: Task
  fp_chosen :: FleetPlacement
  fp_notes :: "fleet_note list"

text \<open>The bytes a workload needs, with the wrapping multiplication of the source.\<close>

definition wrapping_need :: "ModelMeta \<Rightarrow> Task \<Rightarrow> u64" where
  "wrapping_need model task =
     (case task of Inference \<Rightarrow> model_total_bytes model
      | Training \<Rightarrow> weights_bytes model * TRAINING_FOOTPRINT_MULT)"

definition eligible_nodes :: "Cluster \<Rightarrow> Task \<Rightarrow> nat list" where
  "eligible_nodes cluster task =
     filter (\<lambda>i. case task of Training \<Rightarrow> training_capable (cl_nodes cluster ! i) | Inference \<Rightarrow> True)
       [0..<length (cl_nodes cluster)]"

type_synonym fit_state = "(nat \<times> u64) option \<times> (nat \<times> u64) option"

definition fit_step :: "NodeInfo list \<Rightarrow> u64 \<Rightarrow> fit_state \<Rightarrow> nat \<Rightarrow> fit_state" where
  "fit_step nodes need st i =
     (case st of (best_fit, largest) \<Rightarrow>
       (case node_usable_vram (nodes ! i) of (usable, known) \<Rightarrow>
         (if known \<and> need \<le> usable \<and> (case best_fit of None \<Rightarrow> True | Some (_, u) \<Rightarrow> usable < u)
          then Some (i, usable) else best_fit,
          if (case largest of None \<Rightarrow> True | Some (_, u) \<Rightarrow> u < usable)
          then Some (i, usable) else largest)))"

definition place_on_fleet ::
  "Cluster \<Rightarrow> ModelMeta \<Rightarrow> Task \<Rightarrow> Settings \<Rightarrow> place_error + FleetPlan" where
  "place_on_fleet cluster model task settings =
     (if cl_nodes cluster = [] then Inl NoNodes
      else
        let need = wrapping_need model task;
            eligible = eligible_nodes cluster task
        in if eligible = [] then Inl NoTrainableNode
           else
             let (best_fit, largest) = foldl (fit_step (cl_nodes cluster) need) (None, None) eligible;
                 on_node = (\<lambda>i note.
                   let node = cl_nodes cluster ! i
                   in (case plan (ni_topology node) (ni_assessments node) model task settings of
                         Inl e \<Rightarrow> Inl e
                       | Inr node_plan \<Rightarrow>
                           Inr \<lparr>fp_task = task, fp_chosen = SingleNode i (ni_name node) node_plan,
                                fp_notes = [note]\<rparr>))
             in (case best_fit of
                   Some (i, usable) \<Rightarrow>
                     on_node i (TightestFit (ni_name (cl_nodes cluster ! i)) (gib need) (gib usable))
                 | None \<Rightarrow>
                     if supports_distributed (cl_network cluster) \<and> 1 < length eligible then
                       Inr \<lparr>fp_task = task,
                            fp_chosen = Distributed eligible
                              ''distributed execution is v2 (net-strategy); this plan records the intent'',
                            fp_notes = [ExceedsEverySingleNode (gib need) (length eligible) (cl_network cluster)]\<rparr>
                     else
                       let i = (case largest of Some (i, _) \<Rightarrow> i | None \<Rightarrow> 0)
                       in on_node i (LargestWithOffload (cl_network cluster) (ni_name (cl_nodes cluster ! i)))))"

section \<open>The two running maxima\<close>

abbreviation usable_of :: "NodeInfo list \<Rightarrow> nat \<Rightarrow> u64" where
  "usable_of nodes i \<equiv> fst (node_usable_vram (nodes ! i))"

definition fits_node :: "NodeInfo list \<Rightarrow> u64 \<Rightarrow> nat \<Rightarrow> bool" where
  "fits_node nodes need i \<longleftrightarrow> snd (node_usable_vram (nodes ! i)) \<and> need \<le> usable_of nodes i"

text \<open>What the state of the loop says of the nodes seen so far.\<close>

definition fit_inv :: "NodeInfo list \<Rightarrow> u64 \<Rightarrow> nat set \<Rightarrow> fit_state \<Rightarrow> bool" where
  "fit_inv nodes need seen st \<longleftrightarrow>
     (case fst st of
        None \<Rightarrow> (\<forall>j \<in> seen. \<not> fits_node nodes need j)
      | Some (i, u) \<Rightarrow> i \<in> seen \<and> u = usable_of nodes i \<and> fits_node nodes need i \<and>
          (\<forall>j \<in> seen. fits_node nodes need j \<longrightarrow> u \<le> usable_of nodes j)) \<and>
     (case snd st of
        None \<Rightarrow> seen = {}
      | Some (i, u) \<Rightarrow> i \<in> seen \<and> u = usable_of nodes i \<and> (\<forall>j \<in> seen. usable_of nodes j \<le> u))"

lemma fit_step_inv:
  assumes "fit_inv nodes need seen st"
  shows "fit_inv nodes need (insert i seen) (fit_step nodes need st i)"
proof -
  obtain bf lg where st: "st = (bf, lg)" by (cases st)
  obtain us kn where un: "node_usable_vram (nodes ! i) = (us, kn)" by (cases "node_usable_vram (nodes ! i)")
  show ?thesis
    using assms unfolding fit_inv_def fit_step_def st
    by (auto simp: un fits_node_def not_less split: option.splits if_splits intro: order_trans less_imp_le)
qed

lemma fit_loop_inv: "fit_inv nodes need seen st \<Longrightarrow>
  fit_inv nodes need (seen \<union> set is) (foldl (fit_step nodes need) st is)"
proof (induction "is" arbitrary: seen st)
  case (Cons i "is")
  show ?case using Cons.IH [OF fit_step_inv [OF Cons.prems]] by simp
qed simp

section \<open>Properties\<close>

lemma eligible_nodes_set:
  "i \<in> set (eligible_nodes c task) \<longleftrightarrow>
     i < length (cl_nodes c) \<and> (task = Training \<longrightarrow> training_capable (cl_nodes c ! i))"
  by (auto simp: eligible_nodes_def split: Task.splits)

lemma fit_loop_result:
  "fit_inv nodes need (set is) (foldl (fit_step nodes need) (None, None) is)"
  using fit_loop_inv [of nodes need "{}" "(None, None)" "is"] by (simp add: fit_inv_def)

text \<open>Fleet placement picks the tightest fit: a single-node answer names an eligible node
  (training-capable for training), carries that node's own plan, and that node either holds the
  workload with no eligible node that also holds it being smaller, or no eligible node holds it and
  it is the largest.  A distributed answer is given only when no eligible node holds the workload,
  lists every eligible node, and needs a network that supports it.\<close>

lemma fleet_tightest_fit:
  assumes "place_on_fleet c m task s = Inr fp"
  shows "fp_task fp = task \<and>
   (case fp_chosen fp of
      SingleNode i name p \<Rightarrow>
        i \<in> set (eligible_nodes c task) \<and> name = ni_name (cl_nodes c ! i) \<and>
        plan (ni_topology (cl_nodes c ! i)) (ni_assessments (cl_nodes c ! i)) m task s = Inr p \<and>
        (if fits_node (cl_nodes c) (wrapping_need m task) i
         then \<forall>j \<in> set (eligible_nodes c task). fits_node (cl_nodes c) (wrapping_need m task) j \<longrightarrow>
                usable_of (cl_nodes c) i \<le> usable_of (cl_nodes c) j
         else \<forall>j \<in> set (eligible_nodes c task). \<not> fits_node (cl_nodes c) (wrapping_need m task) j \<and>
                usable_of (cl_nodes c) j \<le> usable_of (cl_nodes c) i)
    | Distributed is note \<Rightarrow>
        is = eligible_nodes c task \<and> 1 < length is \<and> supports_distributed (cl_network c) \<and>
        (\<forall>j \<in> set is. \<not> fits_node (cl_nodes c) (wrapping_need m task) j))"
proof -
  let ?need = "wrapping_need m task" and ?el = "eligible_nodes c task"
  obtain bf lg where st: "foldl (fit_step (cl_nodes c) ?need) (None, None) ?el = (bf, lg)" by fastforce
  have inv: "fit_inv (cl_nodes c) ?need (set ?el) (bf, lg)" using fit_loop_result st by metis
  have ne: "cl_nodes c \<noteq> []" "?el \<noteq> []" using assms by (auto simp: place_on_fleet_def Let_def split: if_splits)
  then obtain k v where lg: "lg = Some (k, v)" using inv by (cases lg) (auto simp: fit_inv_def)
  show ?thesis
  proof (cases bf)
    case (Some iu)
    obtain i u where iu: "iu = (i, u)" by (cases iu)
    show ?thesis using assms inv ne Some iu lg
      by (auto simp: place_on_fleet_def Let_def st fit_inv_def split: sum.splits)
  next
    case None
    show ?thesis using assms inv ne None lg
      by (auto simp: place_on_fleet_def Let_def st fit_inv_def split: sum.splits if_splits)
  qed
qed

definition example_node :: "string \<Rightarrow> nat \<Rightarrow> NodeInfo" where
  "example_node name n = \<lparr>ni_name = name, ni_address = ''10.0.0.2:9000'', ni_topology = example_topo n,
     ni_assessments = classify_topology (example_topo n) example_db, ni_resident = []\<rparr>"

definition example_cluster :: Cluster where
  "example_cluster = \<lparr>cl_nodes = [example_node ''big'' 2, example_node ''small'' 1], cl_network = Consumer\<rparr>"

lemma example_place: "(case place_on_fleet example_cluster example_model Inference Settings_default of
    Inl _ \<Rightarrow> False | Inr fp \<Rightarrow> (case fp_chosen fp of SingleNode i _ _ \<Rightarrow> i = 1 | _ \<Rightarrow> False))"
  by code_simp

end
