(* ===== verification/Router.thy ===== *)
theory Router
  imports Fleet
begin

text \<open>
  \<open>core/placement/src/router.rs\<close> (routing by live load) and \<open>core/placement/src/mesh.rs\<close> (the
  trust- and latency-aware mesh router on top of it).  Each router ranks the candidates that pass
  its gates and keeps the best in one pass, the loop \<open>pick_best\<close>; the comparisons are
  interpretations of the interface \<open>ranking\<close>.
\<close>

section \<open>Routing by load\<close>

record NodeLoad =
  nl_serving :: "string list"
  nl_used_vram_bytes :: u64

definition serves :: "NodeLoad \<Rightarrow> string \<Rightarrow> bool" where
  "serves l model = list_ex (\<lambda>m. m = model) (nl_serving l)"

record Candidate =
  ca_node :: NodeInfo
  ca_load :: NodeLoad

record RouteRequest =
  rr_model :: ModelMeta
  rr_task :: Task
  rr_min_tier :: "u8 option"

datatype route_reason = AlreadyServes string string | LeastLoaded string fl

record RouteChoice =
  rc_index :: nat
  rc_node_name :: string
  rc_warm :: bool
  rc_free_vram_bytes :: u64
  rc_reason :: route_reason

datatype RouteError = NoCandidates | NoneEligible string

definition free_vram :: "Candidate \<Rightarrow> u64 \<times> bool" where
  "free_vram c =
     (case node_usable_vram (ca_node c) of (usable, known) \<Rightarrow>
        (sat_sub usable (nl_used_vram_bytes (ca_load c)), known))"

definition card_ok :: "Candidate \<Rightarrow> RouteRequest \<Rightarrow> bool" where
  "card_ok c req =
     (if rr_task req = Training \<and> \<not> training_capable (ca_node c) then False
      else (case rr_min_tier req of
              Some t \<Rightarrow> (case ni_assessments (ca_node c) of [] \<Rightarrow> False | a # _ \<Rightarrow> as_number (ta_tier a) \<le> t)
            | None \<Rightarrow> True))"

record Ranked =
  rk_warm :: bool
  rk_free :: u64
  rk_endpoints :: nat

definition better_than :: "Ranked \<Rightarrow> Ranked \<Rightarrow> bool" where
  "better_than a b =
     (if rk_warm a \<noteq> rk_warm b then rk_warm a
      else if rk_free a \<noteq> rk_free b then rk_free b < rk_free a
      else rk_endpoints a < rk_endpoints b)"

text \<open>The body of the loop for one candidate: \<open>None\<close> when it is skipped.\<close>

definition rank_candidate :: "RouteRequest \<Rightarrow> Candidate \<Rightarrow> Ranked option" where
  "rank_candidate req c =
     (if \<not> card_ok c req then None
      else
        let warm = serves (ca_load c) (m_name (rr_model req));
            (free, known) = free_vram c
        in if \<not> (warm \<or> \<not> known \<or> wrapping_need (rr_model req) (rr_task req) \<le> free) then None
           else Some \<lparr>rk_warm = warm, rk_free = free, rk_endpoints = length (nl_serving (ca_load c))\<rparr>)"

definition ranked_list :: "('c \<Rightarrow> 'r option) \<Rightarrow> 'c list \<Rightarrow> (nat \<times> 'r) list" where
  "ranked_list rk cs =
     List.map_filter (\<lambda>(i, c). map_option (Pair i) (rk c)) (List.enumerate 0 cs)"

definition route :: "Candidate list \<Rightarrow> RouteRequest \<Rightarrow> RouteError + RouteChoice" where
  "route candidates req =
     (if candidates = [] then Inl NoCandidates
      else
        let carded = length (filter (\<lambda>c. card_ok c req) candidates)
        in (case pick_best better_than None (ranked_list (rank_candidate req) candidates) of
              Some (i, r) \<Rightarrow>
                let c = candidates ! i
                in Inr \<lparr>rc_index = i, rc_node_name = ni_name (ca_node c), rc_warm = rk_warm r,
                        rc_free_vram_bytes = rk_free r,
                        rc_reason =
                          (if rk_warm r then AlreadyServes (ni_name (ca_node c)) (m_name (rr_model req))
                           else LeastLoaded (ni_name (ca_node c))
                                  (fdiv round64 (of_word64 (rk_free r)) (round64 (1024 * 1024 * 1024))))\<rparr>
            | None \<Rightarrow>
                if carded = 0 then Inl (NoneEligible ''no node meets the card/tier requirement'')
                else Inl (NoneEligible (show_nat carded @
                       '' node(s) meet the card requirement but none can hold '' @ m_name (rr_model req)))))"

section \<open>The mesh\<close>

datatype TrustState = Paired | LegacyToken | Untrusted

datatype MeshHealth = Ready | Degraded | Draining | Offline

datatype MeshPrivacy = Pool | LocalOnly

datatype MeshPreference = Latency | Balanced | Throughput

record MeshCandidate =
  mc_node_id :: string
  mc_node :: NodeInfo
  mc_load :: NodeLoad
  mc_local :: bool
  mc_trust :: TrustState
  mc_health :: MeshHealth
  mc_protocol_major :: u16
  mc_owner_reclaim :: bool
  mc_inflight :: u32
  mc_estimated_ttft_ms :: u64
  mc_tokens_per_second :: fl

record MeshRequest =
  mr_placement :: RouteRequest
  mr_session_affinity :: "string option"
  mr_privacy :: MeshPrivacy
  mr_preference :: MeshPreference
  mr_deadline_ms :: "u64 option"
  mr_expected_output_tokens :: u32
  mr_priority :: u8
  mr_allow_legacy_token :: bool
  mr_protocol_major :: u16

record MeshRouteChoice =
  mx_index :: nat
  mx_node_id :: string
  mx_node_name :: string
  mx_warm :: bool
  mx_affinity :: bool
  mx_free_vram_bytes :: u64
  mx_predicted_completion_ms :: u64
  mx_trust :: TrustState
  mx_health :: MeshHealth
  mx_protocol_major :: u16
  mx_reason :: string

record Rank =
  ra_affinity :: bool
  ra_warm :: bool
  ra_ready :: bool
  ra_predicted_ms :: u64
  ra_tokens_per_second :: fl
  ra_free :: u64
  ra_inflight :: u32
  ra_node_id :: string

definition F64_EPSILON :: fl where
  "F64_EPSILON = Fin (1 / 2 ^ 52)"

definition mesh_better_than :: "MeshPreference \<Rightarrow> Rank \<Rightarrow> Rank \<Rightarrow> bool" where
  "mesh_better_than preference a b =
     (if ra_affinity a \<noteq> ra_affinity b then ra_affinity a
      else if ra_warm a \<noteq> ra_warm b then ra_warm a
      else if ra_ready a \<noteq> ra_ready b then ra_ready a
      else if (preference = Latency \<or> preference = Balanced) \<and> ra_predicted_ms a \<noteq> ra_predicted_ms b
        then ra_predicted_ms a < ra_predicted_ms b
      else if preference = Throughput \<and>
          flt F64_EPSILON (fabs (fsub round64 (ra_tokens_per_second a) (ra_tokens_per_second b)))
        then flt (ra_tokens_per_second b) (ra_tokens_per_second a)
      else if ra_free a \<noteq> ra_free b then ra_free b < ra_free a
      else if ra_inflight a \<noteq> ra_inflight b then ra_inflight a < ra_inflight b
      else ra_node_id a < ra_node_id b)"

definition predicted_completion_ms :: "MeshCandidate \<Rightarrow> u32 \<Rightarrow> u64" where
  "predicted_completion_ms candidate expected_tokens =
     (let rate = (if is_finite (mc_tokens_per_second candidate) \<and> flt (round64 0) (mc_tokens_per_second candidate)
                  then mc_tokens_per_second candidate else round64 20);
          ttft = (if mc_estimated_ttft_ms candidate = 0 then 750 else mc_estimated_ttft_ms candidate);
          generation = as_word (fceil (fmul round64
                         (fdiv round64 (of_word64 (max expected_tokens 1)) rate) (round64 1000)));
          queue = sat_mul (ucast (mc_inflight candidate)) 250;
          health_penalty = (if mc_health candidate = Degraded then 2 else 1)
      in sat_mul (sat_add (sat_add ttft generation) queue) health_penalty)"

definition saturating_need :: "ModelMeta \<Rightarrow> Task \<Rightarrow> u64" where
  "saturating_need model task =
     (case task of Inference \<Rightarrow> model_total_bytes model
      | Training \<Rightarrow> sat_mul (weights_bytes model) TRAINING_FOOTPRINT_MULT)"

text \<open>The hard gates on one candidate and, when they pass, its rank.\<close>

definition mesh_gate :: "MeshRequest \<Rightarrow> MeshCandidate \<Rightarrow> bool" where
  "mesh_gate req mesh =
     (let trusted = (mc_trust mesh = Paired \<or> mr_allow_legacy_token req \<and> mc_trust mesh = LegacyToken);
          healthy = (case mc_health mesh of Ready \<Rightarrow> True | Degraded \<Rightarrow> True | _ \<Rightarrow> False)
      in \<not> (\<not> trusted \<or> \<not> healthy \<or> mc_owner_reclaim mesh
            \<or> mc_protocol_major mesh \<noteq> mr_protocol_major req
            \<or> mr_privacy req = LocalOnly \<and> \<not> mc_local mesh))"

definition mesh_rank :: "MeshRequest \<Rightarrow> MeshCandidate \<Rightarrow> Rank option" where
  "mesh_rank req mesh =
     (if \<not> mesh_gate req mesh then None
      else
        let cand = \<lparr>ca_node = mc_node mesh, ca_load = mc_load mesh\<rparr>
        in if \<not> card_ok cand (mr_placement req) then None
           else
             let warm = serves (mc_load mesh) (m_name (rr_model (mr_placement req)));
                 (free, known) = free_vram cand;
                 need = saturating_need (rr_model (mr_placement req)) (rr_task (mr_placement req))
             in if \<not> (warm \<or> \<not> known \<or> need \<le> free) then None
                else
                  let predicted_ms = predicted_completion_ms mesh (mr_expected_output_tokens req)
                  in if (case mr_deadline_ms req of None \<Rightarrow> False | Some d \<Rightarrow> d < predicted_ms) then None
                     else Some \<lparr>ra_affinity = (mr_session_affinity req = Some (mc_node_id mesh)),
                            ra_warm = warm, ra_ready = (mc_health mesh = Ready),
                            ra_predicted_ms = predicted_ms,
                            ra_tokens_per_second = mc_tokens_per_second mesh,
                            ra_free = free, ra_inflight = mc_inflight mesh, ra_node_id = mc_node_id mesh\<rparr>)"

fun show_preference :: "MeshPreference \<Rightarrow> string" where
  "show_preference Latency = ''Latency''"
| "show_preference Balanced = ''Balanced''"
| "show_preference Throughput = ''Throughput''"

abbreviation quote_char :: string where
  "quote_char \<equiv> [CHR 0x27]"

definition route_mesh :: "MeshCandidate list \<Rightarrow> MeshRequest \<Rightarrow> RouteError + MeshRouteChoice" where
  "route_mesh candidates req =
     (if candidates = [] then Inl NoCandidates
      else
        let rejected = length (filter (\<lambda>c. mesh_rank req c = None) candidates)
        in (case pick_best (mesh_better_than (mr_preference req)) None
                   (ranked_list (mesh_rank req) candidates) of
              None \<Rightarrow> Inl (NoneEligible (''all '' @ show_nat rejected @
                '' node(s) were rejected by trust, health, privacy, protocol, deadline, card, or memory admission''))
            | Some (index, rank) \<Rightarrow>
                let selected = candidates ! index;
                    name = ni_name (mc_node selected)
                in Inr \<lparr>mx_index = index, mx_node_id = mc_node_id selected, mx_node_name = name,
                        mx_warm = ra_warm rank, mx_affinity = ra_affinity rank,
                        mx_free_vram_bytes = ra_free rank,
                        mx_predicted_completion_ms = ra_predicted_ms rank,
                        mx_trust = mc_trust selected, mx_health = mc_health selected,
                        mx_protocol_major = mc_protocol_major selected,
                        mx_reason =
                          (if ra_affinity rank then quote_char @ name @ quote_char @ '' retained eligible session affinity''
                           else if ra_warm rank then
                             quote_char @ name @ quote_char @ '' already serves the model and avoids a reload''
                           else quote_char @ name @ quote_char @ '' is the best eligible '' @
                                show_preference (mr_preference req) @ '' target (predicted '' @
                                show_nat (unat (ra_predicted_ms rank)) @ '' ms)'')\<rparr>))"

section \<open>Rankings\<close>

interpretation load_rank: ranking better_than
  by unfold_locales (auto simp: better_than_def split: if_splits)

lemma ranked_list_mem: "(i, r) \<in> set (ranked_list rk cs) \<longleftrightarrow> i < length cs \<and> rk (cs ! i) = Some r"
proof -
  have "(i, r) \<in> set (ranked_list rk cs) \<longleftrightarrow> (\<exists>c. (i, c) \<in> set (List.enumerate 0 cs) \<and> rk c = Some r)"
    by (force simp: ranked_list_def List.map_filter_def)
  then show ?thesis by (auto simp: in_set_enumerate_eq)
qed

lemma ranked_list_snd: "set (map snd (ranked_list rk cs)) = {r. \<exists>c \<in> set cs. rk c = Some r}"
proof -
  have "r \<in> set (map snd (ranked_list rk cs)) \<longleftrightarrow> (\<exists>c \<in> set cs. rk c = Some r)" for r
  proof -
    have "r \<in> set (map snd (ranked_list rk cs)) \<longleftrightarrow> (\<exists>i. (i, r) \<in> set (ranked_list rk cs))" by force
    also have "\<dots> \<longleftrightarrow> (\<exists>i < length cs. rk (cs ! i) = Some r)" by (simp add: ranked_list_mem)
    also have "\<dots> \<longleftrightarrow> (\<exists>c \<in> set cs. rk c = Some r)" by (metis in_set_conv_nth)
    finally show ?thesis .
  qed
  then show ?thesis by blast
qed

lemma ranked_list_empty: "ranked_list rk cs = [] \<longleftrightarrow> (\<forall>c \<in> set cs. rk c = None)"
proof -
  have "ranked_list rk cs = [] \<longleftrightarrow> set (map snd (ranked_list rk cs)) = {}" by simp
  then show ?thesis unfolding ranked_list_snd by auto (metis option.exhaust)
qed

lemma mesh_better_affinity:
  "mesh_better_than p a b \<Longrightarrow> ra_affinity b \<Longrightarrow> ra_affinity a"
  by (auto simp: mesh_better_than_def split: if_splits)

interpretation latency_rank: strict_ranking "mesh_better_than Latency" ra_node_id
  by unfold_locales (auto simp: mesh_better_than_def split: if_splits)

lemma mesh_better_balanced: "mesh_better_than Balanced = mesh_better_than Latency"
  by (intro ext) (simp add: mesh_better_than_def)

lemma route_Inr:
  assumes "route cs req = Inr ch"
  obtains r where "pick_best better_than None (ranked_list (rank_candidate req) cs) = Some (rc_index ch, r)"
    "rc_index ch < length cs" "rank_candidate req (cs ! rc_index ch) = Some r"
    "rc_warm ch = rk_warm r" "rc_free_vram_bytes ch = rk_free r"
    "rc_node_name ch = ni_name (ca_node (cs ! rc_index ch))"
proof -
  obtain i r where p: "pick_best better_than None (ranked_list (rank_candidate req) cs) = Some (i, r)"
      "rc_index ch = i" "rc_warm ch = rk_warm r" "rc_free_vram_bytes ch = rk_free r"
      "rc_node_name ch = ni_name (ca_node (cs ! i))"
    using assms by (auto simp: route_def Let_def split: if_splits option.splits)
  moreover have "i < length cs \<and> rank_candidate req (cs ! i) = Some r"
    using pick_best_mem [OF p(1)] by (simp add: ranked_list_mem)
  ultimately show ?thesis using that by blast
qed

lemma route_mesh_Inr:
  assumes "route_mesh cs req = Inr ch"
  obtains r where
    "pick_best (mesh_better_than (mr_preference req)) None (ranked_list (mesh_rank req) cs) = Some (mx_index ch, r)"
    "mx_index ch < length cs" "mesh_rank req (cs ! mx_index ch) = Some r"
    "mx_node_id ch = mc_node_id (cs ! mx_index ch)" "mx_warm ch = ra_warm r" "mx_affinity ch = ra_affinity r"
    "mx_predicted_completion_ms ch = ra_predicted_ms r" "mx_free_vram_bytes ch = ra_free r"
    "mx_trust ch = mc_trust (cs ! mx_index ch)" "mx_health ch = mc_health (cs ! mx_index ch)"
proof -
  obtain i r where p: "pick_best (mesh_better_than (mr_preference req)) None (ranked_list (mesh_rank req) cs) = Some (i, r)"
      "mx_index ch = i" "mx_node_id ch = mc_node_id (cs ! i)" "mx_warm ch = ra_warm r" "mx_affinity ch = ra_affinity r"
      "mx_predicted_completion_ms ch = ra_predicted_ms r" "mx_free_vram_bytes ch = ra_free r"
      "mx_trust ch = mc_trust (cs ! i)" "mx_health ch = mc_health (cs ! i)"
    using assms by (auto simp: route_mesh_def Let_def split: if_splits option.splits)
  moreover have "i < length cs \<and> mesh_rank req (cs ! i) = Some r"
    using pick_best_mem [OF p(1)] by (simp add: ranked_list_mem)
  ultimately show ?thesis using that by blast
qed

lemma mesh_rank_Some:
  assumes "mesh_rank req c = Some r"
  shows "mesh_gate req c" and "card_ok \<lparr>ca_node = mc_node c, ca_load = mc_load c\<rparr> (mr_placement req)"
    and "ra_node_id r = mc_node_id c" and "ra_affinity r = (mr_session_affinity req = Some (mc_node_id c))"
    and "ra_predicted_ms r = predicted_completion_ms c (mr_expected_output_tokens req)"
    and "case mr_deadline_ms req of None \<Rightarrow> True | Some d \<Rightarrow> ra_predicted_ms r \<le> d"
    and "ra_warm r = serves (mc_load c) (m_name (rr_model (mr_placement req)))"
    and "ra_warm r \<or> \<not> snd (free_vram \<lparr>ca_node = mc_node c, ca_load = mc_load c\<rparr>) \<or>
         saturating_need (rr_model (mr_placement req)) (rr_task (mr_placement req)) \<le> ra_free r"
  using assms by (auto simp: mesh_rank_def Let_def not_less split: if_splits option.splits prod.splits)

text \<open>Two nodes and a request, used by the witnesses below.\<close>

definition example_load :: NodeLoad where
  "example_load = \<lparr>nl_serving = [], nl_used_vram_bytes = 0\<rparr>"

definition example_candidate :: Candidate where
  "example_candidate = \<lparr>ca_node = example_node ''n'' 1, ca_load = example_load\<rparr>"

definition example_request :: RouteRequest where
  "example_request = \<lparr>rr_model = example_model, rr_task = Inference, rr_min_tier = Some 1\<rparr>"

definition example_mesh_node :: "string \<Rightarrow> MeshCandidate" where
  "example_mesh_node nid = \<lparr>mc_node_id = nid, mc_node = example_node nid 1, mc_load = example_load,
     mc_local = True, mc_trust = Paired, mc_health = Ready, mc_protocol_major = 1,
     mc_owner_reclaim = False, mc_inflight = 0, mc_estimated_ttft_ms = 100, mc_tokens_per_second = Fin 40\<rparr>"

definition example_mesh_request :: MeshRequest where
  "example_mesh_request = \<lparr>mr_placement = example_request, mr_session_affinity = Some ''b'',
     mr_privacy = LocalOnly, mr_preference = Latency, mr_deadline_ms = Some 60000,
     mr_expected_output_tokens = 100, mr_priority = 0, mr_allow_legacy_token = False,
     mr_protocol_major = 1\<rparr>"

lemma example_route: "\<not> isl (route [example_candidate] example_request)"
  by code_simp

lemma example_ranks: "mesh_rank example_mesh_request (example_mesh_node ''b'') \<noteq> None"
  by code_simp

lemma example_mesh:
  "\<not> isl (route_mesh [example_mesh_node ''a'', example_mesh_node ''b''] example_mesh_request)"
  "\<not> isl (route_mesh [example_mesh_node ''b'', example_mesh_node ''a''] example_mesh_request)"
proof -
  have "\<not> isl (route_mesh cs example_mesh_request)" if "example_mesh_node ''b'' \<in> set cs" for cs
  proof (cases "pick_best (mesh_better_than (mr_preference example_mesh_request)) None (ranked_list (mesh_rank example_mesh_request) cs)")
    case None
    then show ?thesis using example_ranks that by (auto simp: pick_best_None_iff ranked_list_empty)
  next
    case (Some ir)
    then show ?thesis using that by (cases ir) (auto simp: route_mesh_def Let_def)
  qed
  then show "\<not> isl (route_mesh [example_mesh_node ''a'', example_mesh_node ''b''] example_mesh_request)"
    "\<not> isl (route_mesh [example_mesh_node ''b'', example_mesh_node ''a''] example_mesh_request)" by simp_all
qed

section \<open>Properties\<close>

text \<open>A routed task goes to a node that may take it, and no eligible node ranks higher: the
  chosen node meets the card constraint and is warm, or has room (or unknown VRAM); a warm node is
  never passed over for a cold one, nor free VRAM for less of it among equally warm nodes.\<close>

lemma route_optimal:
  assumes "route cs req = Inr ch"
  shows "rc_index ch < length cs \<and> card_ok (cs ! rc_index ch) req \<and>
    rc_node_name ch = ni_name (ca_node (cs ! rc_index ch)) \<and>
    (rc_warm ch \<or> \<not> snd (free_vram (cs ! rc_index ch)) \<or>
       wrapping_need (rr_model req) (rr_task req) \<le> fst (free_vram (cs ! rc_index ch))) \<and>
    (\<forall>j < length cs. \<forall>s. rank_candidate req (cs ! j) = Some s \<longrightarrow>
       (rk_warm s \<longrightarrow> rc_warm ch) \<and>
       (rk_warm s = rc_warm ch \<longrightarrow> rk_free s \<le> rc_free_vram_bytes ch))"
proof -
  obtain r where r: "pick_best better_than None (ranked_list (rank_candidate req) cs) = Some (rc_index ch, r)"
      "rc_index ch < length cs" "rank_candidate req (cs ! rc_index ch) = Some r"
      "rc_warm ch = rk_warm r" "rc_free_vram_bytes ch = rk_free r"
      "rc_node_name ch = ni_name (ca_node (cs ! rc_index ch))"
    using route_Inr [OF assms] .
  have opt: "(rk_warm s \<longrightarrow> rk_warm r) \<and> (rk_warm s = rk_warm r \<longrightarrow> rk_free s \<le> rk_free r)"
    if "j < length cs" "rank_candidate req (cs ! j) = Some s" for j s
  proof -
    have "\<not> better_than s r" using load_rank.pick_best_optimal [OF r(1)] that by (simp add: ranked_list_mem)
    then show ?thesis by (auto simp: better_than_def not_less split: if_splits)
  qed
  have "card_ok (cs ! rc_index ch) req \<and> (rk_warm r \<or> \<not> snd (free_vram (cs ! rc_index ch)) \<or>
       wrapping_need (rr_model req) (rr_task req) \<le> fst (free_vram (cs ! rc_index ch)))"
    using r(3) by (auto simp: rank_candidate_def Let_def split: if_splits prod.splits)
  then show ?thesis unfolding r(4,5) using r(2,6) opt by blast
qed

lemma mesh_rank_room:
  assumes "mesh_rank req c = Some r"
  shows "ra_free r = fst (free_vram \<lparr>ca_node = mc_node c, ca_load = mc_load c\<rparr>)"
    and "unat (ra_free r) = unat (fst (node_usable_vram (mc_node c))) - unat (nl_used_vram_bytes (mc_load c))"
proof -
  show "ra_free r = fst (free_vram \<lparr>ca_node = mc_node c, ca_load = mc_load c\<rparr>)"
    using assms by (auto simp: mesh_rank_def Let_def split: if_splits option.splits prod.splits)
  then show "unat (ra_free r) = unat (fst (node_usable_vram (mc_node c))) - unat (nl_used_vram_bytes (mc_load c))"
    by (simp add: free_vram_def unat_sat_sub split: prod.splits)
qed

lemma predicted_covers_queue:
  "min (2 ^ 64 - 1) ((if mc_estimated_ttft_ms c = 0 then 750 else unat (mc_estimated_ttft_ms c)) + 250 * unat (mc_inflight c))
     \<le> unat (predicted_completion_ms c n)"
proof -
  define ttft where "ttft = (if mc_estimated_ttft_ms c = 0 then 750 else mc_estimated_ttft_ms c)"
  define pen :: u64 where "pen = (if mc_health c = Degraded then 2 else 1)"
  define queue :: u64 where "queue = sat_mul (ucast (mc_inflight c)) 250"
  obtain gen where g: "predicted_completion_ms c n = sat_mul (sat_add (sat_add ttft gen) queue) pen"
    unfolding predicted_completion_ms_def Let_def ttft_def pen_def queue_def by blast
  have q: "unat queue = min (250 * unat (mc_inflight c)) (2 ^ 64 - 1)"
    by (simp add: queue_def unat_sat_mul unat_ucast_up mult.commute)
  have t: "unat ttft = (if mc_estimated_ttft_ms c = 0 then 750 else unat (mc_estimated_ttft_ms c))" by (simp add: ttft_def)
  have "1 \<le> unat pen" by (simp add: pen_def)
  have "min M (a + b) \<le> min (min (min (a + g) M + min b M) M * k) M" if "1 \<le> k" for M a b g k :: nat
  proof -
    have "min M (a + b) \<le> min (min (a + g) M + min b M) M" by auto
    also have "\<dots> \<le> min (min (a + g) M + min b M) M * k" using that by simp
    finally show ?thesis by simp
  qed
  from this [OF \<open>1 \<le> unat pen\<close>] show ?thesis unfolding g t [symmetric] unat_sat_mul unat_sat_add q by simp
qed

text \<open>C6. The mesh gates are hard.  Whatever the scheduling preference and session affinity, the node that
  receives a session is one of those listed, is trusted (paired, or legacy only when allowed), healthy, not
  reclaimed by its owner, speaks the requested protocol and is local when the request is local-only; its
  first card supports training when training is asked for and meets the tier asked for; it serves the model
  already, or the model's need fits beside what the node already uses in its usable memory (when that is
  known); the reported free memory is exactly that difference; and the predicted completion, which covers at
  least its time to first token and a quarter of a second per request in flight, meets the deadline.\<close>

theorem mesh_gates_hard:
  assumes "route_mesh cs req = Inr ch"
  shows "let c = cs ! mx_index ch; p = mr_placement req;
             usable = unat (fst (node_usable_vram (mc_node c))); used = unat (nl_used_vram_bytes (mc_load c));
             need = (case rr_task p of Inference \<Rightarrow> unat (model_total_bytes (rr_model p))
                     | Training \<Rightarrow> min (4 * unat (weights_bytes (rr_model p))) (2 ^ 64 - 1))
    in mx_index ch < length cs \<and> mx_node_id ch = mc_node_id c \<and> mx_trust ch = mc_trust c \<and> mx_health ch = mc_health c \<and>
    (mc_trust c = Paired \<or> mc_trust c = LegacyToken \<and> mr_allow_legacy_token req) \<and>
    mc_health c \<in> {Ready, Degraded} \<and> \<not> mc_owner_reclaim c \<and>
    mc_protocol_major c = mr_protocol_major req \<and>
    (mr_privacy req = LocalOnly \<longrightarrow> mc_local c) \<and>
    (rr_task p = Training \<longrightarrow> ni_assessments (mc_node c) \<noteq> [] \<and> ta_training_supported (hd (ni_assessments (mc_node c)))) \<and>
    (\<forall>t. rr_min_tier p = Some t \<longrightarrow> ni_assessments (mc_node c) \<noteq> [] \<and> as_number (ta_tier (hd (ni_assessments (mc_node c)))) \<le> t) \<and>
    unat (mx_free_vram_bytes ch) = usable - used \<and>
    (m_name (rr_model p) \<in> set (nl_serving (mc_load c)) \<or> \<not> snd (node_usable_vram (mc_node c)) \<or>
       need = 0 \<or> need + used \<le> usable) \<and>
    (\<forall>d. mr_deadline_ms req = Some d \<longrightarrow>
       predicted_completion_ms c (mr_expected_output_tokens req) \<le> d \<and>
       min (2 ^ 64 - 1) ((if mc_estimated_ttft_ms c = 0 then 750 else unat (mc_estimated_ttft_ms c)) + 250 * unat (mc_inflight c))
         \<le> unat d)"
proof -
  let ?c = "cs ! mx_index ch" and ?p = "mr_placement req"
  let ?cand = "\<lparr>ca_node = mc_node ?c, ca_load = mc_load ?c\<rparr>"
  obtain r where r: "mx_index ch < length cs" "mesh_rank req ?c = Some r"
      "mx_node_id ch = mc_node_id ?c" "mx_free_vram_bytes ch = ra_free r"
      "mx_trust ch = mc_trust ?c" "mx_health ch = mc_health ?c"
    using route_mesh_Inr [OF assms] by metis
  note f = mesh_rank_Some [OF r(2)] and room = mesh_rank_room [OF r(2)]
  have card: "(rr_task ?p = Training \<longrightarrow> ni_assessments (mc_node ?c) \<noteq> [] \<and> ta_training_supported (hd (ni_assessments (mc_node ?c)))) \<and>
      (\<forall>t. rr_min_tier ?p = Some t \<longrightarrow> ni_assessments (mc_node ?c) \<noteq> [] \<and> as_number (ta_tier (hd (ni_assessments (mc_node ?c)))) \<le> t)"
    using f(2) by (auto simp: card_ok_def training_capable_def split: if_splits option.splits list.splits)
  have need: "unat (saturating_need (rr_model ?p) (rr_task ?p)) =
      (case rr_task ?p of Inference \<Rightarrow> unat (model_total_bytes (rr_model ?p))
       | Training \<Rightarrow> min (4 * unat (weights_bytes (rr_model ?p))) (2 ^ 64 - 1))"
    by (simp add: saturating_need_def unat_sat_mul TRAINING_FOOTPRINT_MULT_def mult.commute split: Task.splits)
  have known: "snd (free_vram ?cand) = snd (node_usable_vram (mc_node ?c))" by (simp add: free_vram_def split: prod.splits)
  have warm: "serves (mc_load ?c) n \<longleftrightarrow> n \<in> set (nl_serving (mc_load ?c))" for n by (auto simp: serves_def list_ex_iff)
  have fits: "n = 0 \<or> n + u \<le> v" if "n \<le> v - u" for n u v :: nat using that by linarith
  have dl: "predicted_completion_ms ?c (mr_expected_output_tokens req) \<le> d" if "mr_deadline_ms req = Some d" for d
    using f(5,6) that by simp
  have "min (2 ^ 64 - 1) ((if mc_estimated_ttft_ms ?c = 0 then 750 else unat (mc_estimated_ttft_ms ?c)) + 250 * unat (mc_inflight ?c))
      \<le> unat d" if "mr_deadline_ms req = Some d" for d
    using predicted_covers_queue [of ?c "mr_expected_output_tokens req"] dl [OF that] by (simp add: word_le_nat_alt)
  moreover have "m_name (rr_model ?p) \<in> set (nl_serving (mc_load ?c)) \<or> \<not> snd (node_usable_vram (mc_node ?c)) \<or>
      unat (saturating_need (rr_model ?p) (rr_task ?p)) = 0 \<or>
      unat (saturating_need (rr_model ?p) (rr_task ?p)) + unat (nl_used_vram_bytes (mc_load ?c)) \<le> unat (fst (node_usable_vram (mc_node ?c)))"
    using f(8) fits unfolding f(7) warm known word_le_nat_alt room(2) by blast
  ultimately show ?thesis
    using r(1,3,5,6) card dl f(1) unfolding Let_def r(4) room(2) need
    by (auto simp: mesh_gate_def Let_def split: MeshHealth.splits)
qed

theorem mesh_gates_hard_witness:
  "\<exists>ch. route_mesh [example_mesh_node ''a'', example_mesh_node ''b''] example_mesh_request = Inr ch \<and>
     mx_node_id ch \<in> {''a'', ''b''}"
proof -
  obtain ch where ch: "route_mesh [example_mesh_node ''a'', example_mesh_node ''b''] example_mesh_request = Inr ch"
    using example_mesh(1) by (metis isl_def sum.exhaust)
  have "mx_index ch < 2" "mx_node_id ch = mc_node_id ([example_mesh_node ''a'', example_mesh_node ''b''] ! mx_index ch)"
    using mesh_gates_hard [OF ch] by (simp_all add: Let_def)
  then have "mx_node_id ch \<in> {''a'', ''b''}" by (auto simp: example_mesh_node_def less_2_cases_iff)
  then show ?thesis using ch by blast
qed

text \<open>C28. For the latency and balanced preferences the choice is the best one and does not depend on
  the order in which the nodes are listed: any other listing of the same nodes (distinct ids) is
  routed to the same node.\<close>

theorem mesh_choice_order_free:
  assumes "mr_preference req \<noteq> Throughput" and "set cs = set cs'"
    and "route_mesh cs req = Inr ch" and "route_mesh cs' req = Inr ch'"
  shows "mx_node_id ch = mx_node_id ch'"
proof -
  let ?L = "mesh_better_than (mr_preference req)"
  have L: "?L = mesh_better_than Latency"
    using assms(1) mesh_better_balanced by (cases "mr_preference req") auto
  obtain r where r: "pick_best ?L None (ranked_list (mesh_rank req) cs) = Some (mx_index ch, r)"
      "mesh_rank req (cs ! mx_index ch) = Some r" "mx_node_id ch = mc_node_id (cs ! mx_index ch)"
    using route_mesh_Inr [OF assms(3)] by metis
  obtain r' where r': "pick_best ?L None (ranked_list (mesh_rank req) cs') = Some (mx_index ch', r')"
      "mesh_rank req (cs' ! mx_index ch') = Some r'" "mx_node_id ch' = mc_node_id (cs' ! mx_index ch')"
    using route_mesh_Inr [OF assms(4)] by metis
  have "ra_node_id r = ra_node_id r'"
    using r(1) r'(1) assms(2) unfolding L
    by (intro latency_rank.pick_best_order_free) (simp_all only: ranked_list_snd)
  then show ?thesis using mesh_rank_Some(3) [OF r(2)] mesh_rank_Some(3) [OF r'(2)] r(3) r'(3) by simp
qed

theorem mesh_choice_order_free_witness:
  "\<exists>ch ch'. route_mesh [example_mesh_node ''a'', example_mesh_node ''b''] example_mesh_request = Inr ch \<and>
     route_mesh [example_mesh_node ''b'', example_mesh_node ''a''] example_mesh_request = Inr ch' \<and>
     mx_node_id ch = mx_node_id ch'"
proof -
  obtain ch ch' where ch: "route_mesh [example_mesh_node ''a'', example_mesh_node ''b''] example_mesh_request = Inr ch"
      "route_mesh [example_mesh_node ''b'', example_mesh_node ''a''] example_mesh_request = Inr ch'"
    using example_mesh by (metis isl_def sum.exhaust)
  have "mr_preference example_mesh_request \<noteq> Throughput" by (simp add: example_mesh_request_def)
  then show ?thesis using mesh_choice_order_free [OF _ _ ch] ch by auto
qed

text \<open>The mesh refuses only when it must: an error means there were no candidates or each of
  them failed a gate.\<close>

lemma mesh_refuses_iff:
  "isl (route_mesh cs req) \<longleftrightarrow> list_all (\<lambda>c. mesh_rank req c = None) cs"
proof (cases "pick_best (mesh_better_than (mr_preference req)) None (ranked_list (mesh_rank req) cs)")
  case None
  then have "list_all (\<lambda>c. mesh_rank req c = None) cs" by (simp add: pick_best_None_iff ranked_list_empty list_all_iff)
  then show ?thesis by (simp add: route_mesh_def None)
next
  case (Some ir)
  then have "ranked_list (mesh_rank req) cs \<noteq> []"
    using pick_best_None_iff [of "mesh_better_than (mr_preference req)" "ranked_list (mesh_rank req) cs"] by simp
  then have "\<not> list_all (\<lambda>c. mesh_rank req c = None) cs" by (simp add: ranked_list_empty list_all_iff)
  then show ?thesis using Some by (cases ir) (auto simp: route_mesh_def Let_def)
qed

text \<open>Session affinity is honoured after the gates: when the node named by the session passes
  them, it is the one chosen.\<close>

lemma mesh_affinity_kept:
  assumes "route_mesh cs req = Inr ch" and "c \<in> set cs" and "mr_session_affinity req = Some (mc_node_id c)"
    and "mesh_rank req c \<noteq> None"
  shows "mx_node_id ch = mc_node_id c \<and> mx_affinity ch"
proof -
  obtain r where r: "pick_best (mesh_better_than (mr_preference req)) None (ranked_list (mesh_rank req) cs) = Some (mx_index ch, r)"
      "mesh_rank req (cs ! mx_index ch) = Some r" "mx_node_id ch = mc_node_id (cs ! mx_index ch)" "mx_affinity ch = ra_affinity r"
    using route_mesh_Inr [OF assms(1)] by metis
  obtain s where s: "mesh_rank req c = Some s" using assms(4) by blast
  then obtain i where "(i, s) \<in> set (ranked_list (mesh_rank req) cs)"
    using assms(2) by (metis in_set_conv_nth ranked_list_mem)
  moreover have "ra_affinity s" using mesh_rank_Some(4) [OF s] assms(3) by simp
  ultimately have ex: "\<exists>(j, s) \<in> set (ranked_list (mesh_rank req) cs). ra_affinity s" by blast
  have dom: "ra_affinity a \<Longrightarrow> \<not> ra_affinity b \<Longrightarrow> mesh_better_than p a b" for p a b
    by (simp add: mesh_better_than_def)
  have "ra_affinity r"
    using pick_best_dominant [OF dom mesh_better_affinity disjI2 [OF ex] r(1)] .
  then show ?thesis using mesh_rank_Some(4) [OF r(2)] assms(3) r(3,4) by simp
qed

end
