(* ===== verification/RateLimit.thy ===== *)
theory RateLimit
  imports Text
begin

text \<open>
  \<open>cameod/src/rate_limit.rs\<close>: the fixed-window request limiter.  Instants and durations are
  natural numbers (nanoseconds); the clock reading of \<open>allow\<close> is the argument \<open>now\<close>, as in
  \<open>allow_at\<close>.  The mutex makes each call one step on the map of windows.
\<close>

section \<open>Model\<close>

type_synonym time = nat

abbreviation secs :: "nat \<Rightarrow> time" where
  "secs n \<equiv> n * 1000000000"

definition MAX_IDENTITIES :: nat where
  "MAX_IDENTITIES = 4096"

record Window =
  w_reset_at :: time
  w_count :: u32

type_synonym RateLimiter = "(string, Window) hash_map"

definition limiter_new :: RateLimiter where
  "limiter_new = []"

definition allow_at :: "string \<Rightarrow> u32 \<Rightarrow> time \<Rightarrow> time \<Rightarrow> RateLimiter \<Rightarrow> bool \<times> RateLimiter" where
  "allow_at key limit duration now windows =
     (if limit = 0 then (False, windows)
      else
        let full = (MAX_IDENTITIES \<le> length windows \<and> hm_get windows key = None);
            windows1 = (if full then hm_retain (\<lambda>_ v. now < w_reset_at v) windows else windows)
        in if full \<and> MAX_IDENTITIES \<le> length windows1 then (False, windows1)
           else
             let entry0 = (case hm_get windows1 key of Some e \<Rightarrow> e
                           | None \<Rightarrow> \<lparr>w_reset_at = now + duration, w_count = 0\<rparr>);
                 entry = (if w_reset_at entry0 \<le> now
                          then \<lparr>w_reset_at = now + duration, w_count = 0\<rparr> else entry0)
             in if limit \<le> w_count entry then (False, hm_insert key entry windows1)
                else (True, hm_insert key (entry\<lparr>w_count := w_count entry + 1\<rparr>) windows1))"

text \<open>A history of calls: who asked and when.  All calls use one limit and one window length, as
  each key does in the daemon.\<close>

fun run_limiter :: "u32 \<Rightarrow> time \<Rightarrow> (string \<times> time) list \<Rightarrow> RateLimiter \<Rightarrow> bool list \<times> RateLimiter" where
  "run_limiter limit duration [] st = ([], st)"
| "run_limiter limit duration ((key, now) # calls) st =
     (case allow_at key limit duration now st of (ok, st1) \<Rightarrow>
       (case run_limiter limit duration calls st1 of (oks, st2) \<Rightarrow> (ok # oks, st2)))"

section \<open>Bounded memory\<close>

definition limiter_inv :: "RateLimiter \<Rightarrow> bool" where
  "limiter_inv st \<longleftrightarrow> hm_wf st \<and> length st \<le> MAX_IDENTITIES"

lemma limiter_inv_new: "limiter_inv limiter_new"
  by (simp add: limiter_inv_def limiter_new_def)

lemma allow_at_inv:
  assumes "limiter_inv st" and "allow_at key limit d now st = (ok, st')"
  shows "limiter_inv st'"
proof -
  define full where "full = (MAX_IDENTITIES \<le> length st \<and> hm_get st key = None)"
  define st1 where "st1 = (if full then hm_retain (\<lambda>_ v. now < w_reset_at v) st else st)"
  have inv1: "limiter_inv st1"
    using assms(1) hm.count_keep [of "\<lambda>_ v. now < w_reset_at v" st]
    by (auto simp: limiter_inv_def st1_def map_laws)
  consider "limit = 0" "st' = st" | "st' = st1" "limit \<noteq> 0"
    | e where "st' = hm_insert key e st1" "\<not> (full \<and> MAX_IDENTITIES \<le> length st1)"
    using assms(2) by (auto simp: allow_at_def Let_def full_def st1_def split: if_splits)
  then show ?thesis
  proof cases
    case (3 e)
    have "hm_get st1 key = None \<Longrightarrow> length st1 < MAX_IDENTITIES"
      using 3(2) by (auto simp: full_def st1_def split: if_splits)
    then show ?thesis
      using 3(1) inv1 hm.bounded_put [of st1 MAX_IDENTITIES key] by (simp add: limiter_inv_def map_laws)
  qed (use assms inv1 in auto)
qed

lemma run_limiter_inv: "limiter_inv st \<Longrightarrow> run_limiter limit d calls st = (oks, st') \<Longrightarrow> limiter_inv st'"
proof (induction calls arbitrary: st oks)
  case (Cons c calls)
  obtain key now where c: "c = (key, now)" by (cases c)
  obtain ok st1 where a: "allow_at key limit d now st = (ok, st1)" by fastforce
  then show ?case using Cons allow_at_inv [OF _ a] by (auto simp: c split: prod.splits)
qed simp

section \<open>One key at a time\<close>

text \<open>What a call does to the entry of its own key and to the entry of another key.\<close>

lemma allow_at_other:
  assumes "hm_wf st" and "allow_at key limit d now st = (ok, st')" and "k \<noteq> key"
  shows "hm_get st' k = hm_get st k \<or>
    (\<exists>w. hm_get st k = Some w \<and> w_reset_at w \<le> now \<and> hm_get st' k = None)"
  using assms by (auto simp: allow_at_def Let_def map_laws split: if_splits option.splits)

lemma allow_at_self:
  assumes "hm_wf st" and "allow_at key limit d now st = (ok, st')"
  shows "(\<not> ok \<and> (hm_get st' key = hm_get st key \<or>
             (\<exists>w. hm_get st key = Some w \<and> w_reset_at w \<le> now \<and> hm_get st' key = None)))
    \<or> (\<exists>e. (hm_get st key = Some e \<and> now < w_reset_at e \<or>
            e = \<lparr>w_reset_at = now + d, w_count = 0\<rparr> \<and>
              (\<forall>w. hm_get st key = Some w \<longrightarrow> w_reset_at w \<le> now)) \<and>
         (if ok then w_count e < limit \<and> hm_get st' key = Some (e\<lparr>w_count := w_count e + 1\<rparr>)
          else hm_get st' key = Some e \<and> limit \<le> w_count e))"
  using assms
  by (auto simp: allow_at_def Let_def map_laws not_le not_less split: if_splits option.splits)

section \<open>At most twice the limit in any window length\<close>

abbreviation count_in :: "(time \<Rightarrow> bool) \<Rightarrow> time list \<Rightarrow> nat" where
  "count_in P H \<equiv> length (filter P H)"

text \<open>The state of one key against the times at which its requests were allowed so far: the last
  window began at \<open>S\<close> and admitted \<open>c\<close> of them; the window before it admitted at most \<open>L\<close>.\<close>

definition window_inv :: "nat \<Rightarrow> time \<Rightarrow> time list \<Rightarrow> time \<Rightarrow> Window option \<Rightarrow> bool" where
  "window_inv L D H now entry \<longleftrightarrow>
     (\<exists>S c. S \<le> now \<and> unat c \<le> L \<and> (\<forall>t \<in> set H. t \<le> now \<and> t < S + D) \<and>
        count_in (\<lambda>t. S \<le> t) H \<le> unat c \<and> count_in (\<lambda>t. S < t + D \<and> t < S) H \<le> L \<and>
        (entry = Some \<lparr>w_reset_at = S + D, w_count = c\<rparr> \<or> entry = None \<and> (S + D \<le> now \<or> H = [])))"

lemma window_invI:
  assumes "S \<le> now" "unat c \<le> L" "\<And>t. t \<in> set H \<Longrightarrow> t \<le> now \<and> t < S + D"
    "count_in (\<lambda>t. S \<le> t) H \<le> unat c" "count_in (\<lambda>t. S < t + D \<and> t < S) H \<le> L"
    "entry = Some \<lparr>w_reset_at = S + D, w_count = c\<rparr> \<or> entry = None \<and> (S + D \<le> now \<or> H = [])"
  shows "window_inv L D H now entry"
  using assms unfolding window_inv_def by blast

lemma window_invE:
  assumes "window_inv L D H now entry"
  obtains S c where "S \<le> now" "unat c \<le> L" "\<And>t. t \<in> set H \<Longrightarrow> t \<le> now \<and> t < S + D"
    "count_in (\<lambda>t. S \<le> t) H \<le> unat c" "count_in (\<lambda>t. S < t + D \<and> t < S) H \<le> L"
    "entry = Some \<lparr>w_reset_at = S + D, w_count = c\<rparr> \<or> entry = None \<and> (S + D \<le> now \<or> H = [])"
  using assms unfolding window_inv_def by blast

lemma count_in_mono: "(\<And>t. t \<in> set H \<Longrightarrow> P t \<Longrightarrow> Q t) \<Longrightarrow> count_in P H \<le> count_in Q H"
  by (induction H) auto

lemma count_in_none: "(\<And>t. t \<in> set H \<Longrightarrow> \<not> P t) \<Longrightarrow> count_in P H = 0"
  by (induction H) auto

lemma count_in_or: "count_in (\<lambda>t. P t \<or> Q t) H \<le> count_in P H + count_in Q H"
  by (induction H) auto

lemma window_inv_later:
  assumes "window_inv L D H now entry" and "now \<le> now'"
    and "entry' = entry \<or> (\<exists>w. entry = Some w \<and> w_reset_at w \<le> now' \<and> entry' = None)"
  shows "window_inv L D H now' entry'"
  using assms(1)
proof (rule window_invE)
  fix S c
  assume S: "S \<le> now" "unat c \<le> L" "\<And>t. t \<in> set H \<Longrightarrow> t \<le> now \<and> t < S + D"
    "count_in (\<lambda>t. S \<le> t) H \<le> unat c" "count_in (\<lambda>t. S < t + D \<and> t < S) H \<le> L"
    "entry = Some \<lparr>w_reset_at = S + D, w_count = c\<rparr> \<or> entry = None \<and> (S + D \<le> now \<or> H = [])"
  have "\<And>t. t \<in> set H \<Longrightarrow> t \<le> now' \<and> t < S + D" using S(3) assms(2) by (meson order_trans)
  moreover have "entry' = Some \<lparr>w_reset_at = S + D, w_count = c\<rparr> \<or> entry' = None \<and> (S + D \<le> now' \<or> H = [])"
    using S(6) assms(2,3) by auto
  ultimately show ?thesis using S assms(2) by (intro window_invI [of S now' c]) auto
qed

text \<open>A fresh window at \<open>now'\<close>: the last one has run out.\<close>

lemma window_inv_fresh:
  assumes "window_inv L D H now entry" and "now \<le> now'" and "0 < D"
    and "\<forall>w. entry = Some w \<longrightarrow> w_reset_at w \<le> now'"
  shows "(\<forall>t \<in> set H. t < now') \<and> count_in (\<lambda>t. now' < t + D \<and> t < now') H \<le> L"
proof -
  obtain S c where S: "S \<le> now" "unat c \<le> L" "\<forall>t \<in> set H. t \<le> now \<and> t < S + D"
      "count_in (\<lambda>t. S \<le> t) H \<le> unat c"
      and e: "entry = Some \<lparr>w_reset_at = S + D, w_count = c\<rparr> \<or> entry = None \<and> (S + D \<le> now \<or> H = [])"
    using assms(1) unfolding window_inv_def by blast
  have run_out: "S + D \<le> now' \<or> H = []" using e assms(2,4) by auto
  then have "\<forall>t \<in> set H. t < now'" using S(3) by auto
  moreover have "count_in (\<lambda>t. now' < t + D \<and> t < now') H \<le> count_in (\<lambda>t. S \<le> t) H"
    using run_out by (intro count_in_mono) auto
  ultimately show ?thesis using S(2,4) by linarith
qed

lemma window_inv_step:
  assumes inv: "window_inv (unat limit) D H now (hm_get st key)" and "now \<le> now'" and "0 < D" and "hm_wf st"
    and a: "allow_at key limit D now' st = (ok, st')"
  shows "window_inv (unat limit) D (if ok then now' # H else H) now' (hm_get st' key)"
  using allow_at_self [OF assms(4) a]
proof (elim disjE conjE exE)
  assume "\<not> ok" "hm_get st' key = hm_get st key"
  then show ?thesis using window_inv_later [OF inv assms(2)] by simp
next
  fix w
  assume "\<not> ok" "hm_get st key = Some w" "w_reset_at w \<le> now'" "hm_get st' key = None"
  then show ?thesis using window_inv_later [OF inv assms(2)] by simp
next
  fix e
  assume e: "if ok then w_count e < limit \<and> hm_get st' key = Some (e\<lparr>w_count := w_count e + 1\<rparr>)
     else hm_get st' key = Some e \<and> limit \<le> w_count e"
  {
    assume old: "hm_get st key = Some e" "now' < w_reset_at e"
    show ?thesis
    proof (cases ok)
      case False
      then show ?thesis using window_inv_later [OF inv assms(2)] e old by simp
    next
      case True
      obtain S c where S: "S \<le> now" "unat c \<le> unat limit" "\<forall>t \<in> set H. t \<le> now \<and> t < S + D"
          "count_in (\<lambda>t. S \<le> t) H \<le> unat c" "count_in (\<lambda>t. S < t + D \<and> t < S) H \<le> unat limit"
          "e = \<lparr>w_reset_at = S + D, w_count = c\<rparr>"
        using inv old(1) unfolding window_inv_def by auto
      have lt: "unat c < unat limit" using e True S(6) by (simp add: word_less_nat_alt)
      then have c1: "unat (c + 1) = unat c + 1" using unsigned_less [of limit, where 'a = nat] by (simp add: unat_word_ariths)
      have "S \<le> now'" using S(1) assms(2) by simp
      moreover have "hm_get st' key = Some \<lparr>w_reset_at = S + D, w_count = c + 1\<rparr>" using e True S(6) by simp
      moreover have "count_in (\<lambda>t. S < t + D \<and> t < S) (now' # H) \<le> unat limit" using S(5) \<open>S \<le> now'\<close> by simp
      moreover have "t \<le> now' \<and> t < S + D" if "t \<in> set (now' # H)" for t
        using that S(3,6) old(2) assms(2) by (auto intro: order_trans)
      ultimately show ?thesis
        using True S(4) lt c1 by (intro window_invI [of S now' "c + 1"]) auto
    qed
  next
    assume new: "e = \<lparr>w_reset_at = now' + D, w_count = 0\<rparr>" "\<forall>w. hm_get st key = Some w \<longrightarrow> w_reset_at w \<le> now'"
    have f: "\<forall>t \<in> set H. t < now'" "count_in (\<lambda>t. now' < t + D \<and> t < now') H \<le> unat limit"
      using window_inv_fresh [OF inv assms(2,3) new(2)] by auto
    have z: "count_in (\<lambda>t. now' \<le> t) H = 0" using f(1) by (intro count_in_none) auto
    have m: "t \<le> now' \<and> t < now' + D" if "t \<in> set (if ok then now' # H else H)" for t
    proof -
      have "t = now' \<or> t < now'" using that f(1) by (cases ok) auto
      then show ?thesis using assms(3) by linarith
    qed
    show ?thesis
    proof (cases ok)
      case True
      have "(1::nat) \<le> unat limit" using e True new(1) by (auto simp: word_less_nat_alt)
      moreover have "hm_get st' key = Some \<lparr>w_reset_at = now' + D, w_count = 1\<rparr>" using e True new(1) by simp
      ultimately show ?thesis using f(2) z m True by (intro window_invI [of now' now' 1]) simp_all
    next
      case False
      then have "hm_get st' key = Some \<lparr>w_reset_at = now' + D, w_count = 0\<rparr>" using e new(1) by simp
      then show ?thesis using f(2) z m False by (intro window_invI [of now' now' 0]) simp_all
    qed
  }
qed

text \<open>The newest admission together with what the invariant says bounds every window that contains it.\<close>

lemma window_inv_bound:
  assumes "window_inv L D (now # H) now entry" and "x \<le> now" "now < x + D"
  shows "count_in (\<lambda>t. x \<le> t \<and> t < x + D) (now # H) \<le> 2 * L"
proof -
  obtain S c where S: "S \<le> now" "unat c \<le> L" "\<And>t. t \<in> set (now # H) \<Longrightarrow> t \<le> now \<and> t < S + D"
      "count_in (\<lambda>t. S \<le> t) (now # H) \<le> unat c" "count_in (\<lambda>t. S < t + D \<and> t < S) (now # H) \<le> L"
      "entry = Some \<lparr>w_reset_at = S + D, w_count = c\<rparr> \<or> entry = None \<and> (S + D \<le> now \<or> now # H = [])"
    by (rule window_invE [OF assms(1)]) (rule that)
  have "count_in (\<lambda>t. x \<le> t \<and> t < x + D) (now # H)
      \<le> count_in (\<lambda>t. S \<le> t \<or> S < t + D \<and> t < S) (now # H)"
    using S(1) assms(3) by (intro count_in_mono) linarith
  also have "\<dots> \<le> count_in (\<lambda>t. S \<le> t) (now # H) + count_in (\<lambda>t. S < t + D \<and> t < S) (now # H)"
    by (rule count_in_or)
  finally show ?thesis using S(2,4,5) by linarith
qed

definition allowed_times :: "string \<Rightarrow> (string \<times> time) list \<Rightarrow> bool list \<Rightarrow> time list" where
  "allowed_times k calls oks = map (snd \<circ> fst) (filter (\<lambda>(c, ok). ok \<and> fst c = k) (zip calls oks))"

lemma run_limiter_bound:
  assumes "limiter_inv st" and "window_inv (unat limit) D H now (hm_get st k)" and "0 < D"
    and "sorted (map snd calls)" and "\<forall>c \<in> set calls. now \<le> snd c"
    and "run_limiter limit D calls st = (oks, st')"
    and "\<And>x. count_in (\<lambda>t. x \<le> t \<and> t < x + D) H \<le> 2 * unat limit"
  shows "count_in (\<lambda>t. x \<le> t \<and> t < x + D) (rev (allowed_times k calls oks) @ H) \<le> 2 * unat limit"
  using assms
proof (induction calls arbitrary: st H now oks)
  case Nil
  then show ?case by (simp add: allowed_times_def)
next
  case (Cons c calls)
  obtain key now' where c: "c = (key, now')" by (cases c)
  obtain ok st1 where a: "allow_at key limit D now' st = (ok, st1)" by fastforce
  obtain oks1 where oks: "oks = ok # oks1" "run_limiter limit D calls st1 = (oks1, st')"
    using Cons.prems(6) by (auto simp: c a split: prod.splits)
  let ?H = "if ok \<and> key = k then now' # H else H"
  have wf: "hm_wf st" "now \<le> now'" using Cons.prems(1,5) by (auto simp: limiter_inv_def c)
  have inv: "window_inv (unat limit) D ?H now' (hm_get st1 k)"
  proof (cases "key = k")
    case True
    then show ?thesis using window_inv_step [OF _ wf(2) Cons.prems(3) wf(1)] Cons.prems(2) a by auto
  next
    case False
    then show ?thesis using window_inv_later [OF Cons.prems(2) wf(2) allow_at_other [OF wf(1) a, of k]] by simp
  qed
  have bnd: "count_in (\<lambda>t. x \<le> t \<and> t < x + D) ?H \<le> 2 * unat limit" for x
  proof (cases "ok \<and> key = k \<and> x \<le> now' \<and> now' < x + D")
    case True
    then show ?thesis using window_inv_bound [of "unat limit" D now' H "hm_get st1 k" x] inv by auto
  next
    case False
    then show ?thesis using Cons.prems(7) [of x] by auto
  qed
  have "count_in (\<lambda>t. x \<le> t \<and> t < x + D) (rev (allowed_times k calls oks1) @ ?H) \<le> 2 * unat limit"
    using Cons.prems(4) c
    by (intro Cons.IH [OF allow_at_inv [OF Cons.prems(1) a] inv Cons.prems(3) _ _ oks(2) bnd]) auto
  moreover have "rev (allowed_times k (c # calls) oks) @ H = rev (allowed_times k calls oks1) @ ?H"
    by (auto simp: allowed_times_def oks(1) c)
  ultimately show ?case by simp
qed

section \<open>Properties\<close>

text \<open>C18. However the calls of all clients interleave, in any stretch of time of one window length
  a key is admitted at most twice its limit, and the limiter never remembers more than 4096 keys.\<close>

theorem rate_limit_bound:
  assumes "run_limiter limit D calls limiter_new = (oks, st)" and "0 < D" and "sorted (map snd calls)"
  shows "length (filter (\<lambda>t. x \<le> t \<and> t < x + D) (allowed_times k calls oks)) \<le> 2 * unat limit \<and>
    length st \<le> 4096"
proof -
  have "window_inv (unat limit) D [] 0 (hm_get limiter_new k)"
    by (intro window_invI [of 0 0 0]) (simp_all add: limiter_new_def)
  then have "count_in (\<lambda>t. x \<le> t \<and> t < x + D) (rev (allowed_times k calls oks) @ []) \<le> 2 * unat limit"
    by (rule run_limiter_bound [OF limiter_inv_new _ assms(2,3) _ assms(1)]) simp_all
  moreover have "limiter_inv st" using run_limiter_inv [OF limiter_inv_new assms(1)] .
  ultimately show ?thesis by (simp add: rev_filter limiter_inv_def MAX_IDENTITIES_def flip: rev_filter)
qed

theorem rate_limit_bound_witness:
  "\<exists>oks st. run_limiter 1 10 [(''a'', 0), (''a'', 1), (''b'', 2)] limiter_new = (oks, st) \<and>
     length (filter (\<lambda>t. t < 10) (allowed_times ''a'' [(''a'', 0), (''a'', 1), (''b'', 2)] oks)) \<le> 2"
proof -
  obtain oks st where r: "run_limiter 1 10 [(''a'', 0), (''a'', 1), (''b'', 2)] limiter_new = (oks, st)" by fastforce
  then show ?thesis using rate_limit_bound [OF r, of 0 "''a''"] by auto
qed

end
