(* ===== verification/Pairing.thy ===== *)
theory Pairing
  imports RateLimit
begin

unbundle bit_operations_syntax

text \<open>
  \<open>cameod/src/pairing.rs\<close>: one-time device enrolment.  The digest (SHA-256) and the operating
  system's random bytes come from libraries: \<open>hash\<close> is a parameter of the operations, and the
  outcome of \<open>getrandom::fill\<close> (32 bytes, or a failure) is the argument \<open>rnd\<close>.
\<close>

section \<open>Model\<close>

definition PAIRING_TTL :: time where
  "PAIRING_TTL = secs (10 * 60)"

definition MAX_PENDING_PAIRINGS :: nat where
  "MAX_PENDING_PAIRINGS = 64"

definition MAX_PAIRING_LABEL_BYTES :: nat where
  "MAX_PAIRING_LABEL_BYTES = 128"

record PairingOffer =
  po_code :: string
  po_expires_in_seconds :: nat

record PendingPairing =
  pd_digest :: "u8 list"
  pd_label :: string
  pd_expires :: time

type_synonym PairingStore = "PendingPairing list"

definition hex_digit :: "nat \<Rightarrow> char" where
  "hex_digit n = (if n < 10 then char_of (48 + n) else char_of (87 + n))"

definition hex_byte :: "u8 \<Rightarrow> string" where
  "hex_byte b = [hex_digit (unat b div 16), hex_digit (unat b mod 16)]"

definition random_secret :: "u8 list option \<Rightarrow> string + string" where
  "random_secret rnd =
     (case rnd of None \<Rightarrow> Inl ''operating system randomness unavailable''
      | Some bytes \<Rightarrow> Inr (concat (map hex_byte bytes)))"

definition issue_device_credential :: "u8 list option \<Rightarrow> string + string" where
  "issue_device_credential rnd = random_secret rnd"

definition ct_digest_eq :: "u8 list \<Rightarrow> u8 list \<Rightarrow> bool" where
  "ct_digest_eq left right =
     (foldl (\<lambda>different (a, b). different OR (a XOR b)) 0 (zip left right) = 0)"

definition credential_matches :: "(string \<Rightarrow> u8 list) \<Rightarrow> u8 list \<Rightarrow> string \<Rightarrow> bool" where
  "credential_matches hash stored presented = ct_digest_eq stored (hash presented)"

datatype pairing_error = BadLabel | NoRandomness string | TooManyPending | InvalidOrExpired

definition begin_at ::
  "(string \<Rightarrow> u8 list) \<Rightarrow> u8 list option \<Rightarrow> string \<Rightarrow> time \<Rightarrow> PairingStore
   \<Rightarrow> (pairing_error + PairingOffer) \<times> PairingStore" where
  "begin_at hash rnd label0 now pending =
     (let label = trim label0
      in if label = [] \<or> MAX_PAIRING_LABEL_BYTES < length label \<or> list_ex is_control label
         then (Inl BadLabel, pending)
         else (case random_secret rnd of Inl e \<Rightarrow> (Inl (NoRandomness e), pending)
               | Inr secret \<Rightarrow>
                   let live = filter (\<lambda>offer. now < pd_expires offer) pending
                   in if MAX_PENDING_PAIRINGS \<le> length live then (Inl TooManyPending, live)
                      else (Inr \<lparr>po_code = secret, po_expires_in_seconds = PAIRING_TTL div 1000000000\<rparr>,
                            live @ [\<lparr>pd_digest = hash secret, pd_label = label,
                                     pd_expires = now + PAIRING_TTL\<rparr>])))"

definition code_well_formed :: "string \<Rightarrow> bool" where
  "code_well_formed c = (length c = 64 \<and> list_all is_hexdigit c)"

definition is_live :: "(string \<Rightarrow> u8 list) \<Rightarrow> string \<Rightarrow> time \<Rightarrow> PairingStore \<Rightarrow> bool \<times> PairingStore" where
  "is_live hash c now pending =
     (if \<not> code_well_formed c then (False, pending)
      else
        let wanted = hash (to_lower c);
            live = filter (\<lambda>offer. now < pd_expires offer) pending
        in (list_ex (\<lambda>offer. ct_digest_eq (pd_digest offer) wanted) live, live))"

text \<open>The index of the last match, as the loop over \<open>enumerate()\<close> leaves it.\<close>

fun last_match :: "('a \<Rightarrow> bool) \<Rightarrow> nat \<Rightarrow> 'a list \<Rightarrow> nat option" where
  "last_match P i [] = None"
| "last_match P i (x # xs) =
     (case last_match P (Suc i) xs of Some j \<Rightarrow> Some j | None \<Rightarrow> if P x then Some i else None)"

definition remove_at :: "nat \<Rightarrow> 'a list \<Rightarrow> 'a list" where
  "remove_at i xs = take i xs @ drop (Suc i) xs"

definition consume_at ::
  "(string \<Rightarrow> u8 list) \<Rightarrow> string \<Rightarrow> time \<Rightarrow> PairingStore \<Rightarrow> (pairing_error + string) \<times> PairingStore" where
  "consume_at hash c now pending =
     (if \<not> code_well_formed c then (Inl InvalidOrExpired, pending)
      else
        let wanted = hash (to_lower c);
            live = filter (\<lambda>offer. now < pd_expires offer) pending
        in (case last_match (\<lambda>offer. ct_digest_eq (pd_digest offer) wanted) 0 live of
              None \<Rightarrow> (Inl InvalidOrExpired, live)
            | Some index \<Rightarrow> (Inr (pd_label (live ! index)), remove_at index live)))"

section \<open>Comparison of digests\<close>

lemma xor_zero_iff: "a XOR b = 0 \<longleftrightarrow> a = (b :: u8)"
proof
  assume "a XOR b = 0"
  moreover have "(a XOR b) XOR b = a" by (simp only: xor.assoc xor_self_eq xor.right_neutral)
  ultimately show "a = b" by simp
qed simp

lemma foldl_or_zero:
  "foldl (\<lambda>d (a, b). d OR (a XOR b)) (acc :: u8) ps = 0 \<longleftrightarrow> acc = 0 \<and> list_all (\<lambda>(a, b). a = b) ps"
proof (induction ps arbitrary: acc)
  case (Cons p ps)
  obtain a b where p: "p = (a, b)" by (cases p)
  show ?case unfolding p foldl_Cons prod.case Cons or_eq_0_iff xor_zero_iff by auto
qed simp

lemma ct_digest_eq_iff: "length left = length right \<Longrightarrow> ct_digest_eq left right \<longleftrightarrow> left = right"
  unfolding ct_digest_eq_def foldl_or_zero
  by (induction left right rule: list_induct2) auto

lemma last_match_Some:
  "last_match P i xs = Some j \<Longrightarrow> i \<le> j \<and> j < i + length xs \<and> P (xs ! (j - i))"
proof (induction xs arbitrary: i)
  case (Cons x xs)
  then show ?case by (cases "last_match P (Suc i) xs") (fastforce simp: nth_Cons' split: if_splits)+
qed simp

lemma last_match_None: "last_match P i xs = None \<longleftrightarrow> list_all (\<lambda>x. \<not> P x) xs"
  by (induction xs arbitrary: i) (auto split: option.splits)

lemma last_match_snoc: "P x \<Longrightarrow> last_match P i (xs @ [x]) = Some (i + length xs)"
  by (induction xs arbitrary: i) auto

lemma length_remove_at: "i < length xs \<Longrightarrow> length (remove_at i xs) = length xs - 1"
  by (simp add: remove_at_def)

lemma remove_at_snoc: "remove_at (length xs) (xs @ [x]) = xs"
  by (simp add: remove_at_def)

lemma mset_remove_at: "i < length xs \<Longrightarrow> add_mset (xs ! i) (mset (remove_at i xs)) = mset xs"
  unfolding remove_at_def by (subst (3) id_take_nth_drop [of i xs]) simp_all

section \<open>Codes\<close>

lemma hex_digit_props:
  "n < 16 \<Longrightarrow> is_hexdigit (hex_digit n) \<and> lower_char (hex_digit n) = hex_digit n"
  by (auto simp: hex_digit_def is_hexdigit_def lower_char_def is_upper_def of_char_of Let_def)

lemma random_code:
  assumes "random_secret (Some bytes) = Inr c" and "length bytes = 32"
  shows "code_well_formed c" and "to_lower c = c"
proof -
  have c: "c = concat (map hex_byte bytes)" using assms(1) by (simp add: random_secret_def)
  have b: "unat (b :: u8) div 16 < 16" for b using unsigned_less [of b, where 'a = nat] by simp
  have "length (concat (map hex_byte bs)) = 2 * length bs" for bs by (induction bs) (auto simp: hex_byte_def)
  moreover have "list_all is_hexdigit (concat (map hex_byte bs))" for bs
    using b hex_digit_props by (induction bs) (auto simp: hex_byte_def)
  moreover have "map lower_char (concat (map hex_byte bs)) = concat (map hex_byte bs)" for bs
    using b hex_digit_props by (induction bs) (auto simp: hex_byte_def)
  ultimately show "code_well_formed c" "to_lower c = c"
    using assms(2) c by (auto simp: code_well_formed_def to_lower_def)
qed

section \<open>Properties\<close>

definition pairing_inv :: "PairingStore \<Rightarrow> bool" where
  "pairing_inv st \<longleftrightarrow> length st \<le> MAX_PENDING_PAIRINGS \<and> distinct (map pd_digest st) \<and>
     (\<forall>p \<in> set st. length (pd_digest p) = 32)"

lemma pairing_inv_filter: "pairing_inv st \<Longrightarrow> pairing_inv (filter P st)"
  by (auto simp: pairing_inv_def distinct_map_filter intro: order_trans [OF length_filter_le])

lemma distinct_remove_at: "distinct (map f xs) \<Longrightarrow> i < length xs \<Longrightarrow>
  distinct (map f (remove_at i xs)) \<and> f (xs ! i) \<notin> set (map f (remove_at i xs))"
proof -
  assume d: "distinct (map f xs)" and i: "i < length xs"
  have "mset (map f xs) = add_mset (f (xs ! i)) (mset (map f (remove_at i xs)))"
    using arg_cong [OF mset_remove_at [OF i], of "image_mset f"] by simp
  then have "mset (map f xs) = mset (f (xs ! i) # map f (remove_at i xs))" by simp
  then have "distinct (f (xs ! i) # map f (remove_at i xs))" using d by (metis mset_eq_imp_distinct_iff)
  then show ?thesis by simp
qed

lemma set_remove_at: "set (remove_at i xs) \<subseteq> set xs"
  unfolding remove_at_def using set_take_subset [of i xs] set_drop_subset [of "Suc i" xs] by auto

lemma consume_outcome:
  assumes "pairing_inv st" and "\<forall>s. length (hash s) = 32" and "consume_at hash c now st = (r, st1)"
  shows "pairing_inv st1 \<and>
    (case r of
       Inr l \<Rightarrow> length st1 + 1 = length (filter (\<lambda>p. now < pd_expires p) st) \<and>
         (\<exists>p \<in> set st. pd_digest p = hash (to_lower c) \<and> pd_label p = l \<and> now < pd_expires p) \<and>
         fst (consume_at hash c now' st1) = Inl InvalidOrExpired
     | Inl e \<Rightarrow> filter (\<lambda>p. now < pd_expires p) st1 = filter (\<lambda>p. now < pd_expires p) st)"
proof -
  define live where "live = filter (\<lambda>p. now < pd_expires p) st"
  define wanted where "wanted = hash (to_lower c)"
  have inv: "pairing_inv live" unfolding live_def using assms(1) by (rule pairing_inv_filter)
  have eq: "ct_digest_eq (pd_digest p) wanted \<longleftrightarrow> pd_digest p = wanted" if "p \<in> set live" for p
    using inv that assms(2) by (simp add: pairing_inv_def wanted_def ct_digest_eq_iff)
  show ?thesis
  proof (cases "code_well_formed c")
    case False
    then show ?thesis using assms(1,3) by (auto simp: consume_at_def)
  next
    case wf: True
    show ?thesis
    proof (cases "last_match (\<lambda>p. ct_digest_eq (pd_digest p) wanted) 0 live")
      case None
      then show ?thesis using assms(3) wf inv
        by (auto simp: consume_at_def Let_def live_def wanted_def)
    next
      case (Some i)
      have r: "r = Inr (pd_label (live ! i))" "st1 = remove_at i live"
        using assms(3) wf Some by (auto simp: consume_at_def Let_def live_def wanted_def)
      have i: "i < length live" "pd_digest (live ! i) = wanted"
        using last_match_Some [OF Some] eq [of "live ! i"] by auto
      have d: "distinct (map pd_digest st1)" "wanted \<notin> set (map pd_digest st1)" "set st1 \<subseteq> set live" "length st1 + 1 = length live"
        using distinct_remove_at [of pd_digest live i] inv i set_remove_at [of i live] length_remove_at [OF i(1)]
        by (auto simp: pairing_inv_def r(2))
      have "\<not> ct_digest_eq (pd_digest p) wanted" if "p \<in> set st1" for p
        using that d(2,3) eq [of p] by auto
      then have "last_match (\<lambda>p. ct_digest_eq (pd_digest p) wanted) 0 (filter (\<lambda>p. now' < pd_expires p) st1) = None"
        by (simp add: last_match_None list_all_iff)
      then have again: "fst (consume_at hash c now' st1) = Inl InvalidOrExpired"
        using wf by (simp add: consume_at_def Let_def wanted_def)
      have "pairing_inv st1" using d inv by (auto simp: pairing_inv_def)
      moreover have "live ! i \<in> set st" "now < pd_expires (live ! i)"
        using nth_mem [OF i(1)] by (simp_all add: live_def)
      ultimately show ?thesis using again d(4) i(2) r(1) by (auto simp: live_def wanted_def)
    qed
  qed
qed

text \<open>Enrolment round trip: the code shown to the operator, presented before the offer
  expires, is accepted and returns the (trimmed) label it was issued for, and only that offer is used
  up; presented from the expiry on it is of no use, and until then the check that does not consume it
  answers yes.\<close>

lemma pairing_round_trip:
  assumes "begin_at hash (Some bytes) label now st = (Inr offer, st1)" and "length bytes = 32"
    and "now \<le> now'" and "now' < now + PAIRING_TTL"
  shows "consume_at hash (po_code offer) now' st1
      = (Inr (trim label), filter (\<lambda>p. now' < pd_expires p) st) \<and>
    fst (is_live hash (po_code offer) now' st1) \<and> po_expires_in_seconds offer = 600"
proof -
  obtain c where c: "random_secret (Some bytes) = Inr c" by (simp add: random_secret_def)
  define live where "live = filter (\<lambda>p. now < pd_expires p) st"
  define new where "new = \<lparr>pd_digest = hash c, pd_label = trim label, pd_expires = now + PAIRING_TTL\<rparr>"
  have o: "po_code offer = c" "st1 = live @ [new]" "po_expires_in_seconds offer = 600"
    using assms(1) c by (auto simp: begin_at_def Let_def live_def new_def PAIRING_TTL_def split: if_splits)
  have l: "filter (\<lambda>p. now' < pd_expires p) st1 = filter (\<lambda>p. now' < pd_expires p) st @ [new]"
  proof -
    have "filter (\<lambda>p. now' < pd_expires p) live = filter (\<lambda>p. now' < pd_expires p) st"
      unfolding live_def filter_filter by (rule filter_cong) (use assms(3) in auto)
    then show ?thesis using assms(4) by (simp add: o(2) new_def)
  qed
  have m: "ct_digest_eq (pd_digest new) (hash (to_lower c))"
    by (simp add: new_def random_code(2) [OF c assms(2)] ct_digest_eq_iff)
  show ?thesis
    using random_code(1) [OF c assms(2)] o(3) last_match_snoc [where P = "\<lambda>p. ct_digest_eq (pd_digest p) (hash (to_lower c))", OF m]
    by (simp add: consume_at_def is_live_def Let_def o(1) l m remove_at_snoc) (simp add: new_def)
qed

text \<open>C12. A code works once.  On a store that holds at most 64 offers with distinct 32-byte digests,
  a successful use removes exactly one offer, keeps these facts, and the same code is refused at any
  later time; a failed use removes nothing but expired offers.\<close>

theorem pairing_single_use:
  assumes "pairing_inv st" and "\<forall>s. length (hash s) = 32" and "consume_at hash c now st = (r, st1)"
  shows "pairing_inv st1 \<and>
    (case r of
       Inr l \<Rightarrow> length st1 + 1 = length (filter (\<lambda>p. now < pd_expires p) st) \<and>
         (\<exists>p \<in> set st. pd_digest p = hash (to_lower c) \<and> pd_label p = l \<and> now < pd_expires p) \<and>
         fst (consume_at hash c now' st1) = Inl InvalidOrExpired
     | Inl e \<Rightarrow> filter (\<lambda>p. now < pd_expires p) st1 = filter (\<lambda>p. now < pd_expires p) st)"
  using assms by (rule consume_outcome)

theorem pairing_single_use_witness:
  "fst (consume_at (\<lambda>s. replicate 32 0) (replicate 64 (CHR ''a'')) 0
     [\<lparr>pd_digest = replicate 32 0, pd_label = ''x'', pd_expires = 9\<rparr>]) = Inr ''x'' \<and>
   pairing_inv (snd (consume_at (\<lambda>s. replicate 32 0) (replicate 64 (CHR ''a'')) 0
     [\<lparr>pd_digest = replicate 32 0, pd_label = ''x'', pd_expires = 9\<rparr>]))"
proof -
  let ?st = "[\<lparr>pd_digest = replicate 32 0, pd_label = ''x'', pd_expires = 9\<rparr>]"
  have "pairing_inv ?st" by (simp add: pairing_inv_def MAX_PENDING_PAIRINGS_def)
  moreover have "fst (consume_at (\<lambda>s. replicate 32 0) (replicate 64 (CHR ''a'')) 0 ?st) = Inr ''x''" by code_simp
  ultimately show ?thesis using pairing_single_use [of ?st "\<lambda>s. replicate 32 0"] by (metis length_replicate prod.collapse)
qed

end
