(* ===== verification/Drain.thy ===== *)
theory Drain
  imports RateLimit
begin

text \<open>
  \<open>cameod/src/drain.rs\<close>: gateway admission and request lifetimes during a planned drain.  One
  mutex guards the state, so each method is one step (\<open>poll\<close> and the rest of a method that calls it
  read the clock at the same \<open>now\<close>).  A connection is a number and a flag telling whether it was shut
  down; a permit is its generation, and the set of permits that are still held is part of the system
  state of the step relation, not of the code's.
\<close>

section \<open>Model\<close>

record Connection =
  cn_id :: nat
  cn_shut :: bool

record DrainState =
  dr_shutdown :: bool
  dr_active :: nat
  dr_started :: "time option"
  dr_deadline :: time
  dr_generation :: u64
  dr_cancelled_through :: "u64 option"
  dr_next_socket :: u64
  dr_sockets :: "(u64, u64 \<times> Connection) btree_map"

definition drain_default :: DrainState where
  "drain_default =
     \<lparr>dr_shutdown = False, dr_active = 0, dr_started = None, dr_deadline = 0, dr_generation = 0,
      dr_cancelled_through = None, dr_next_socket = 0, dr_sockets = []\<rparr>"

definition drain_admit :: "DrainState \<Rightarrow> u64 option \<times> DrainState" where
  "drain_admit st =
     (if dr_started st \<noteq> None then (None, st)
      else (Some (dr_generation st), st\<lparr>dr_active := dr_active st + 1\<rparr>))"

definition shut_owned :: "u64 \<Rightarrow> (u64, u64 \<times> Connection) btree_map \<Rightarrow> (u64, u64 \<times> Connection) btree_map" where
  "shut_owned g socks =
     map (\<lambda>(i, (own, c)). (i, (own, if own \<le> g then c\<lparr>cn_shut := True\<rparr> else c))) socks"

definition drain_poll :: "time \<Rightarrow> DrainState \<Rightarrow> DrainState" where
  "drain_poll now st =
     (case dr_started st of
        Some at' \<Rightarrow>
          if dr_deadline st \<le> now - at'
          then st\<lparr>dr_cancelled_through := Some (dr_generation st),
                  dr_sockets := shut_owned (dr_generation st) (dr_sockets st)\<rparr>
          else st
      | None \<Rightarrow> st)"

record DrainStatus =
  ds_state :: string
  ds_active_requests :: nat
  ds_accepting :: bool
  ds_gateway_idle :: bool
  ds_deadline_seconds :: "nat option"

definition drain_status :: "time \<Rightarrow> DrainState \<Rightarrow> DrainStatus \<times> DrainState" where
  "drain_status now st0 =
     (let st = drain_poll now st0
      in (\<lparr>ds_state =
             (case dr_started st of None \<Rightarrow> ''accepting''
              | Some started \<Rightarrow>
                  if dr_active st = 0 then ''drained''
                  else if dr_deadline st \<le> now - started then ''deadline_exceeded''
                  else ''draining''),
           ds_active_requests = dr_active st, ds_accepting = (dr_started st = None),
           ds_gateway_idle = (dr_started st \<noteq> None \<and> dr_active st = 0),
           ds_deadline_seconds = map_option (\<lambda>_. dr_deadline st div 1000000000) (dr_started st)\<rparr>, st))"

definition drain_begin :: "time \<Rightarrow> time \<Rightarrow> DrainState \<Rightarrow> DrainStatus \<times> DrainState" where
  "drain_begin deadline now st =
     drain_status now
       (if dr_started st = None then st\<lparr>dr_started := Some now, dr_deadline := deadline\<rparr> else st)"

definition drain_resume :: "time \<Rightarrow> DrainState \<Rightarrow> DrainStatus \<times> DrainState" where
  "drain_resume now st0 =
     (let st = drain_poll now st0
      in if dr_shutdown st then drain_status now st
         else if dr_started st \<noteq> None
         then drain_status now (st\<lparr>dr_started := None, dr_generation := sat_add (dr_generation st) 1\<rparr>)
         else drain_status now st)"

definition drain_begin_shutdown :: "time \<Rightarrow> time \<Rightarrow> DrainState \<Rightarrow> DrainState" where
  "drain_begin_shutdown deadline now st = snd (drain_begin deadline now (st\<lparr>dr_shutdown := True\<rparr>))"

definition past_cancel :: "u64 \<Rightarrow> DrainState \<Rightarrow> bool" where
  "past_cancel generation st = (case dr_cancelled_through st of None \<Rightarrow> False | Some l \<Rightarrow> generation \<le> l)"

definition drain_cancelled :: "u64 \<Rightarrow> time \<Rightarrow> DrainState \<Rightarrow> bool \<times> DrainState" where
  "drain_cancelled generation now st0 =
     (let st = drain_poll now st0 in (past_cancel generation st, st))"

datatype register_error = DeadlineExceeded | RegistrationExhausted

definition register_connection ::
  "Connection \<Rightarrow> u64 \<Rightarrow> time \<Rightarrow> DrainState \<Rightarrow> (register_error + u64) \<times> DrainState" where
  "register_connection stream generation now st0 =
     (let st = drain_poll now st0
      in if past_cancel generation st then (Inl DeadlineExceeded, st)
         else (case checked_add (dr_next_socket st) 1 of
                 None \<Rightarrow> (Inl RegistrationExhausted, st)
               | Some n \<Rightarrow>
                   (Inr (dr_next_socket st),
                    st\<lparr>dr_next_socket := n,
                       dr_sockets := bt_insert (dr_next_socket st) (generation, stream) (dr_sockets st)\<rparr>)))"

text \<open>\<open>Drop\<close> of a socket registration and of a permit.\<close>

definition drop_registration :: "u64 \<Rightarrow> DrainState \<Rightarrow> DrainState" where
  "drop_registration i st = st\<lparr>dr_sockets := bt_remove i (dr_sockets st)\<rparr>"

definition drop_permit :: "DrainState \<Rightarrow> DrainState" where
  "drop_permit st = st\<lparr>dr_active := dr_active st - 1\<rparr>"

section \<open>Runs\<close>

text \<open>A gateway run: the clock, the code's state and the permits held by requests in flight.\<close>

type_synonym gateway = "time \<times> DrainState \<times> u64 list"

inductive gateway_step :: "gateway \<Rightarrow> gateway \<Rightarrow> bool" where
  step_tick: "t \<le> t' \<Longrightarrow> gateway_step (t, st, ps) (t', st, ps)"
| step_admit: "drain_admit st = (Some g, st') \<Longrightarrow> gateway_step (t, st, ps) (t, st', g # ps)"
| step_refuse: "drain_admit st = (None, st') \<Longrightarrow> gateway_step (t, st, ps) (t, st', ps)"
| step_drop: "g \<in> set ps \<Longrightarrow> gateway_step (t, st, ps) (t, drop_permit st, remove1 g ps)"
| step_begin: "drain_begin d t st = (v, st') \<Longrightarrow> gateway_step (t, st, ps) (t, st', ps)"
| step_resume: "drain_resume t st = (v, st') \<Longrightarrow> gateway_step (t, st, ps) (t, st', ps)"
| step_shutdown: "gateway_step (t, st, ps) (t, drain_begin_shutdown d t st, ps)"
| step_cancelled: "drain_cancelled g t st = (b, st') \<Longrightarrow> gateway_step (t, st, ps) (t, st', ps)"
| step_register: "g \<in> set ps \<Longrightarrow> register_connection c g t st = (r, st') \<Longrightarrow> gateway_step (t, st, ps) (t, st', ps)"
| step_unregister: "gateway_step (t, st, ps) (t, drop_registration i st, ps)"
| step_status: "drain_status t st = (v, st') \<Longrightarrow> gateway_step (t, st, ps) (t, st', ps)"

inductive gateway_reach :: "gateway \<Rightarrow> bool" where
  reach_init: "gateway_reach (t, drain_default, [])"
| reach_step: "gateway_reach s \<Longrightarrow> gateway_step s s' \<Longrightarrow> gateway_reach s'"

lemmas drain_defs = drain_admit_def drain_poll_def drain_status_def drain_begin_def drain_resume_def
  drain_begin_shutdown_def drain_cancelled_def register_connection_def drop_registration_def drop_permit_def

section \<open>Invariant\<close>

text \<open>The deadline of the drain under way has passed.\<close>

definition overdue :: "time \<Rightarrow> DrainState \<Rightarrow> bool" where
  "overdue t st = (case dr_started st of None \<Rightarrow> False | Some t0 \<Rightarrow> dr_deadline st \<le> t - t0)"

text \<open>The counter equals the permits in flight, none of them is from the future, the generation being
  admitted is cancelled only once its deadline has passed (or the counter of generations is exhausted),
  the connections of cancelled generations are shut down, and a drain has begun when the daemon shuts
  down.\<close>

definition drain_inv :: "gateway \<Rightarrow> bool" where
  "drain_inv s \<longleftrightarrow>
     (case s of (t, st, ps) \<Rightarrow>
        dr_active st = length ps \<and> (\<forall>g \<in> set ps. g \<le> dr_generation st) \<and>
        (case dr_cancelled_through st of None \<Rightarrow> True
         | Some l \<Rightarrow> l \<le> dr_generation st \<and> (l < dr_generation st \<or> dr_generation st = - 1 \<or> overdue t st)) \<and>
        (\<forall>(i, (g, conn)) \<in> set (dr_sockets st). past_cancel g st \<longrightarrow> cn_shut conn) \<and>
        (dr_shutdown st \<longrightarrow> dr_started st \<noteq> None))"

lemmas drain_inv_simps = drain_inv_def overdue_def past_cancel_def

lemma drain_poll_fields [simp]:
  "dr_active (drain_poll now st) = dr_active st" "dr_generation (drain_poll now st) = dr_generation st"
  "dr_started (drain_poll now st) = dr_started st" "dr_shutdown (drain_poll now st) = dr_shutdown st"
  "dr_deadline (drain_poll now st) = dr_deadline st" "dr_next_socket (drain_poll now st) = dr_next_socket st"
  "overdue t (drain_poll now st) = overdue t st"
  by (simp_all add: drain_poll_def overdue_def split: option.splits)

lemma drain_poll_eq:
  "drain_poll now st =
     (if overdue now st
      then st\<lparr>dr_cancelled_through := Some (dr_generation st), dr_sockets := shut_owned (dr_generation st) (dr_sockets st)\<rparr>
      else st)"
  by (simp add: drain_poll_def overdue_def split: option.splits)

lemma shut_owned_mem:
  "(i, (g, conn)) \<in> set (shut_owned h socks) \<Longrightarrow> \<exists>c. (i, (g, c)) \<in> set socks \<and> (if g \<le> h then cn_shut conn else conn = c)"
  by (auto simp: shut_owned_def)

lemma drain_inv_poll: "drain_inv (t, st, ps) \<Longrightarrow> drain_inv (t, drain_poll t st, ps)"
proof -
  assume inv: "drain_inv (t, st, ps)"
  show ?thesis
  proof (cases "overdue t st")
    case True
    then have o: "overdue t (st\<lparr>dr_cancelled_through := a, dr_sockets := b\<rparr>)" for a b by (simp add: overdue_def split: option.splits)
    have "cn_shut conn" if "(i, (g, conn)) \<in> set (shut_owned (dr_generation st) (dr_sockets st))" "g \<le> dr_generation st" for i g conn
      using shut_owned_mem [OF that(1)] that(2) by auto
    then show ?thesis using inv True o by (auto simp: drain_poll_eq drain_inv_def past_cancel_def)
  qed (use inv in \<open>simp add: drain_poll_eq\<close>)
qed

lemma drain_inv_start:
  "drain_inv (t, st, ps) \<Longrightarrow>
     drain_inv (t, if dr_started st = None then st\<lparr>dr_started := Some now, dr_deadline := d\<rparr> else st, ps)"
  by (auto simp: drain_inv_simps split: option.splits)

lemma drain_status_state [simp]: "snd (drain_status now st) = drain_poll now st"
  by (simp add: drain_status_def Let_def)

lemma drain_inv_begin: "drain_inv (t, st, ps) \<Longrightarrow> drain_inv (t, snd (drain_begin d t st), ps)"
  unfolding drain_begin_def drain_status_state by (intro drain_inv_poll drain_inv_start)

lemma drain_inv_resume: "drain_inv (t, st, ps) \<Longrightarrow> drain_inv (t, snd (drain_resume t st), ps)"
proof -
  assume inv: "drain_inv (t, st, ps)"
  let ?p = "drain_poll t st"
  have p: "drain_inv (t, ?p, ps)" using inv by (rule drain_inv_poll)
  have "drain_inv (t, ?p\<lparr>dr_started := None, dr_generation := sat_add (dr_generation ?p) 1\<rparr>, ps)"
    if "\<not> dr_shutdown ?p"
    using p that sat_add_1 [of "dr_generation ?p"]
    by (auto simp: drain_inv_simps split: option.splits if_splits dest: order_trans le_less_trans)
  then show ?thesis using p by (auto simp: drain_resume_def Let_def intro: drain_inv_poll)
qed

lemma drain_inv_shutdown: "drain_inv (t, st, ps) \<Longrightarrow> drain_inv (t, drain_begin_shutdown d t st, ps)"
proof -
  assume inv: "drain_inv (t, st, ps)"
  let ?s = "st\<lparr>dr_shutdown := True\<rparr>"
  have "drain_inv (t, if dr_started ?s = None then ?s\<lparr>dr_started := Some t, dr_deadline := d\<rparr> else ?s, ps)"
    using inv by (auto simp: drain_inv_simps split: option.splits)
  then show ?thesis unfolding drain_begin_shutdown_def drain_begin_def drain_status_state by (rule drain_inv_poll)
qed

lemma bt_insert_mem: "x \<in> set (bt_insert k v m) \<Longrightarrow> x = (k, v) \<or> x \<in> set m"
  by (induction m) (auto split: if_splits)

lemma drain_inv_register:
  assumes "drain_inv (t, st, ps)" and "register_connection c g t st = (r, st')"
  shows "drain_inv (t, st', ps)"
proof -
  let ?p = "drain_poll t st"
  have p: "drain_inv (t, ?p, ps)" using assms(1) by (rule drain_inv_poll)
  have "drain_inv (t, ?p\<lparr>dr_next_socket := n, dr_sockets := bt_insert i (g, c) (dr_sockets ?p)\<rparr>, ps)"
    if "\<not> past_cancel g ?p" for n i
    using p that by (auto simp: drain_inv_simps split: option.splits dest!: bt_insert_mem)
  then show ?thesis using assms(2) p by (auto simp: register_connection_def Let_def split: if_splits option.splits)
qed

lemma gateway_step_inv: "gateway_step s s' \<Longrightarrow> drain_inv s \<Longrightarrow> drain_inv s'"
proof (induction rule: gateway_step.induct)
  case (step_tick t t' st ps)
  then show ?case by (auto simp: drain_inv_simps split: option.splits intro: order_trans [OF _ diff_le_mono])
next
  case (step_admit st g st' t ps)
  then show ?case by (auto simp: drain_admit_def drain_inv_simps split: if_splits option.splits)
next
  case (step_drop g ps t st)
  then show ?case
    by (auto simp: drain_inv_simps drop_permit_def length_remove1 dest: notin_set_remove1 split: option.splits)
next
  case (step_begin d t st v st' ps)
  then show ?case using drain_inv_begin [of t st ps d] by simp
next
  case (step_resume t st v st' ps)
  then show ?case using drain_inv_resume [of t st ps] by simp
next
  case (step_shutdown t st ps d)
  then show ?case by (rule drain_inv_shutdown)
next
  case (step_register g ps c t st r st')
  then show ?case by (blast intro: drain_inv_register)
next
  case (step_cancelled g t st b st' ps)
  then show ?case using drain_inv_poll [of t st ps] by (auto simp: drain_cancelled_def Let_def)
next
  case (step_status t st v st' ps)
  then show ?case using drain_inv_poll [of t st ps] by (auto simp: drain_status_def Let_def)
next
  case (step_unregister t st ps i)
  then show ?case by (auto simp: drain_inv_simps drop_registration_def bt_remove_def split: option.splits)
qed (auto simp: drain_admit_def split: if_splits)

lemma gateway_reach_inv: "gateway_reach s \<Longrightarrow> drain_inv s"
proof (induction rule: gateway_reach.induct)
  case (reach_init t)
  then show ?case by (simp add: drain_inv_def drain_default_def)
next
  case (reach_step s s')
  then show ?case using gateway_step_inv by blast
qed







section \<open>Properties\<close>

text \<open>In every run of the gateway: the active counter is the number of permits in flight (so
  releasing a permit never underflows); no request is admitted while a drain is under way; and a
  request admitted after a resume is not cancelled by the drain that came before.\<close>

lemma drain_accounting:
  assumes "gateway_reach (t, st, ps)"
  shows "dr_active st = length ps \<and>
    (case drain_admit st of
       (None, st') \<Rightarrow> dr_started st \<noteq> None \<and> st' = st
     | (Some g, st') \<Rightarrow> dr_started st = None \<and>
         (dr_generation st \<noteq> - 1 \<longrightarrow> \<not> fst (drain_cancelled g t st')))"
proof -
  have inv: "drain_inv (t, st, ps)" using assms by (rule gateway_reach_inv)
  show ?thesis
    using inv by (auto simp: drain_admit_def drain_cancelled_def Let_def drain_inv_simps drain_poll_def
        not_le split: option.splits)
qed



end
