(* ===== verification/Sessions.thy ===== *)
theory Sessions
  imports RateLimit
begin

text \<open>
  \<open>cameod/src/sessions.rs\<close>: the board of live harness sessions.  Reading a persisted record and
  writing one belong to the JSON library and the store: \<open>from_value\<close> is a parameter of \<open>recover\<close>, and
  whether \<open>persist\<close> succeeded is an argument of \<open>upsert_durable\<close>.  \<open>list\<close> returns the records with the
  three fields it adds to them.
\<close>

section \<open>Model\<close>

definition STALE :: time where
  "STALE = secs 90"

record VramCapability =
  vc_status :: string
  vc_action :: string
  vc_model :: string
  vc_endpoint_id :: string
  vc_impact :: string
  vc_evicts :: "string list"

definition VramCapability_default :: VramCapability where
  "VramCapability_default =
     \<lparr>vc_status = ''none'', vc_action = [], vc_model = [], vc_endpoint_id = [], vc_impact = [], vc_evicts = []\<rparr>"

record Session =
  se_id :: string
  se_name :: string
  se_role :: string
  se_mode :: string
  se_state :: string
  se_engine :: string
  se_model :: string
  se_plan_step :: string
  se_halt :: string
  se_verification :: string
  se_files :: "string list"
  se_changed_files :: "string list"
  se_summary :: string
  se_task :: string
  se_workspace :: string
  se_trace_ref :: string
  se_vram :: VramCapability

record Live =
  lv_session :: Session
  lv_seen :: time
  lv_recovered :: bool

type_synonym Board = "(string, Live) btree_map"

definition board_new :: Board where
  "board_new = []"

fun board_recover :: "('v \<Rightarrow> Session option) \<Rightarrow> time \<Rightarrow> 'v list \<Rightarrow> Board \<Rightarrow> string + Board" where
  "board_recover from_value now [] board = Inr board"
| "board_recover from_value now (record # records) board =
     (case from_value record of None \<Rightarrow> Inl ''invalid persisted session''
      | Some s \<Rightarrow>
          let session = s\<lparr>se_state := ''recovery_required'', se_vram := VramCapability_default\<rparr>
          in board_recover from_value now records
               (bt_insert (se_id session) \<lparr>lv_session = session, lv_seen = now, lv_recovered = True\<rparr> board))"

definition upsert_durable ::
  "Session \<Rightarrow> (Session \<Rightarrow> string + unit) \<Rightarrow> nat \<Rightarrow> time \<Rightarrow> Board \<Rightarrow> (string + Session) \<times> Board" where
  "upsert_durable session0 persist now_millis now inner =
     (let session1 = (if se_id session0 = [] then session0\<lparr>se_id := ''s'' @ show_nat now_millis\<rparr> else session0);
          session2 = (if se_name session1 = [] then session1\<lparr>se_name := se_id session1\<rparr> else session1);
          sid = se_id session2;
          session = session2\<lparr>se_vram :=
            (case bt_get inner sid of Some previous \<Rightarrow> se_vram (lv_session previous)
             | None \<Rightarrow> VramCapability_default)\<rparr>
      in (case persist session of Inl e \<Rightarrow> (Inl e, inner)
          | Inr _ \<Rightarrow>
              (Inr session, bt_insert sid \<lparr>lv_session = session, lv_seen = now, lv_recovered = False\<rparr> inner)))"

definition board_remove :: "string \<Rightarrow> Board \<Rightarrow> bool \<times> Board" where
  "board_remove sid inner = (bt_get inner sid \<noteq> None, bt_remove sid inner)"

definition record_vram :: "string \<Rightarrow> VramCapability \<Rightarrow> time \<Rightarrow> Board \<Rightarrow> Session option \<times> Board" where
  "record_vram sid vram now inner =
     (case bt_get inner sid of None \<Rightarrow> (None, inner)
      | Some live \<Rightarrow>
          let session = (lv_session live)\<lparr>se_vram := vram\<rparr>
          in (Some session, bt_insert sid (live\<lparr>lv_session := session, lv_seen := now\<rparr>) inner))"

definition board_get :: "string \<Rightarrow> Board \<Rightarrow> Session option" where
  "board_get sid inner = map_option lv_session (bt_get inner sid)"

definition board_contains :: "string \<Rightarrow> time \<Rightarrow> Board \<Rightarrow> bool" where
  "board_contains sid now inner =
     (case bt_get inner sid of None \<Rightarrow> False
      | Some live \<Rightarrow> \<not> lv_recovered live \<and> now - lv_seen live \<le> STALE)"

definition stale_ids :: "time \<Rightarrow> Board \<Rightarrow> string list" where
  "stale_ids now inner =
     map fst (filter (\<lambda>(_, live). \<not> lv_recovered live \<and> STALE < now - lv_seen live) inner)"

record ListedSession =
  lz_session :: Session
  lz_stale :: bool
  lz_recovered :: bool
  lz_age_secs :: nat

definition board_list :: "time \<Rightarrow> Board \<Rightarrow> ListedSession list \<times> Board" where
  "board_list now inner0 =
     (let inner = bt_retain (\<lambda>_ live. lv_recovered live \<or> now - lv_seen live < STALE * 4) inner0
      in (map (\<lambda>(_, live). \<lparr>lz_session = lv_session live,
                 lz_stale = (lv_recovered live \<or> STALE < now - lv_seen live),
                 lz_recovered = lv_recovered live,
                 lz_age_secs = (now - lv_seen live) div 1000000000\<rparr>) inner, inner))"

section \<open>Runs\<close>

text \<open>The board with the log of the capabilities the supervisor recorded.\<close>

inductive board_reach :: "(string \<times> VramCapability) list \<Rightarrow> Board \<Rightarrow> bool" where
  br_recover: "board_recover (from_value :: string \<Rightarrow> Session option) now records board_new = Inr b \<Longrightarrow> board_reach [] b"
| br_upsert: "board_reach log b \<Longrightarrow> board_reach log (snd (upsert_durable s persist ms now b))"
| br_remove: "board_reach log b \<Longrightarrow> board_reach log (snd (board_remove sid b))"
| br_record: "board_reach log b \<Longrightarrow> board_reach ((sid, v) # log) (snd (record_vram sid v now b))"
| br_list: "board_reach log b \<Longrightarrow> board_reach log (snd (board_list now b))"

definition board_inv :: "(string \<times> VramCapability) list \<Rightarrow> Board \<Rightarrow> bool" where
  "board_inv log b \<longleftrightarrow> bt_wf b \<and>
     (\<forall>sid l. bt_get b sid = Some l \<longrightarrow>
        se_id (lv_session l) = sid \<and>
        (se_vram (lv_session l) = VramCapability_default \<or> (sid, se_vram (lv_session l)) \<in> set log))"

lemma board_recover_inv:
  "board_recover from_value now records b = Inr b' \<Longrightarrow> board_inv [] b \<Longrightarrow> board_inv [] b'"
proof (induction records arbitrary: b)
  case (Cons r records)
  show ?case
  proof (cases "from_value r")
    case (Some s)
    show ?thesis
      using Cons.prems Some by (intro Cons.IH [of "bt_insert (se_id s) \<lparr>lv_session = s\<lparr>se_state := ''recovery_required'',
          se_vram := VramCapability_default\<rparr>, lv_seen = now, lv_recovered = True\<rparr> b"])
        (auto simp: board_inv_def map_laws split: if_splits)
  qed (use Cons in simp)
qed simp

lemma board_inv_put:
  assumes "board_inv log b" and "se_id (lv_session l) = sid"
    and "se_vram (lv_session l) = VramCapability_default \<or> (sid, se_vram (lv_session l)) \<in> set log"
  shows "board_inv log (bt_insert sid l b)"
  using assms by (auto simp: board_inv_def map_laws split: if_splits)

lemma upsert_durable_cases:
  assumes "upsert_durable s persist ms now b = (r, b')"
  shows "(\<exists>e. r = Inl e \<and> b' = b) \<or>
    (\<exists>s'. r = Inr s' \<and> b' = bt_insert (se_id s') \<lparr>lv_session = s', lv_seen = now, lv_recovered = False\<rparr> b \<and>
       se_vram s' = (case bt_get b (se_id s') of Some p \<Rightarrow> se_vram (lv_session p) | None \<Rightarrow> VramCapability_default))"
  using assms by (auto simp: upsert_durable_def Let_def split: sum.splits)

lemma stale_ids_iff:
  "bt_wf b \<Longrightarrow> sid \<in> set (stale_ids now b) \<longleftrightarrow>
     (\<exists>l. bt_get b sid = Some l \<and> \<not> lv_recovered l \<and> STALE < now - lv_seen l)"
proof -
  assume wf: "bt_wf b"
  have "sid \<in> set (stale_ids now b) \<longleftrightarrow> (\<exists>l. (sid, l) \<in> set b \<and> \<not> lv_recovered l \<and> STALE < now - lv_seen l)"
    by (force simp: stale_ids_def)
  then show ?thesis using bt_get_in_set [of b sid] bt_in_set_get [OF wf, of sid] by blast
qed

lemma board_reach_inv: "board_reach log b \<Longrightarrow> board_inv log b"
proof (induction rule: board_reach.induct)
  case (br_recover from_value now records b)
  then show ?case by (rule board_recover_inv) (simp add: board_inv_def board_new_def)
next
  case (br_upsert log b s persist ms now)
  obtain r b' where u: "upsert_durable s persist ms now b = (r, b')" by fastforce
  show ?case
    using upsert_durable_cases [OF u]
  proof (elim disjE exE conjE)
    fix s'
    assume b': "b' = bt_insert (se_id s') \<lparr>lv_session = s', lv_seen = now, lv_recovered = False\<rparr> b"
      and v: "se_vram s' = (case bt_get b (se_id s') of Some p \<Rightarrow> se_vram (lv_session p) | None \<Rightarrow> VramCapability_default)"
    have "se_vram s' = VramCapability_default \<or> (se_id s', se_vram s') \<in> set log"
      using br_upsert.IH v by (cases "bt_get b (se_id s')") (auto simp: board_inv_def)
    then show ?thesis using br_upsert.IH by (simp add: u b' board_inv_put)
  qed (use br_upsert.IH u in simp)
next
  case (br_remove log b sid)
  then show ?case by (auto simp: board_remove_def board_inv_def map_laws split: if_splits)
next
  case (br_record log b sid v now)
  have "board_inv ((sid, v) # log) b" using br_record.IH by (auto simp: board_inv_def)
  then show ?case
    by (auto simp: record_vram_def Let_def board_inv_def map_laws split: option.splits if_splits)
next
  case (br_list log b now)
  then show ?case by (auto simp: board_list_def Let_def board_inv_def map_laws split: option.splits if_splits)
qed

section \<open>Properties\<close>

text \<open>C30. A session cannot grant itself VRAM.  In every run of the board, the capability shown for a
  session is empty or one the supervisor recorded for that very session; what a client sends in that
  field is ignored, and recovering from disk clears it.\<close>

theorem vram_only_from_supervisor:
  assumes "board_reach log b" and "board_get sid b = Some s"
  shows "se_id s = sid \<and> (se_vram s = VramCapability_default \<or> (sid, se_vram s) \<in> set log)"
  using board_reach_inv [OF assms(1)] assms(2) by (auto simp: board_inv_def board_get_def)

definition example_session :: Session where
  "example_session = \<lparr>se_id = ''s1'', se_name = [], se_role = [], se_mode = ''ask'', se_state = [], se_engine = [],
     se_model = [], se_plan_step = [], se_halt = [], se_verification = [], se_files = [], se_changed_files = [],
     se_summary = [], se_task = [], se_workspace = [], se_trace_ref = [],
     se_vram = VramCapability_default\<lparr>vc_status := ''resident''\<rparr>\<rparr>"

theorem vram_only_from_supervisor_witness:
  "\<exists>b s. board_reach [] b \<and> board_get ''s1'' b = Some s \<and> se_vram s = VramCapability_default"
proof -
  let ?b = "snd (upsert_durable example_session (\<lambda>_. Inr ()) 0 0 board_new)"
  have "board_reach [] board_new" by (rule br_recover [of "\<lambda>_. None" 0 "[]"]) (simp add: board_new_def)
  then have r: "board_reach [] ?b" by (rule br_upsert)
  obtain s where s: "board_get ''s1'' ?b = Some s"
    by (simp add: upsert_durable_def Let_def board_get_def board_new_def example_session_def bt_get_def)
  then show ?thesis using vram_only_from_supervisor [OF r s] r by auto
qed

text \<open>A heartbeat keeps a session entitled for 90 seconds and no longer: after a successful
  update the session may claim resources exactly during the next 90 seconds, a lapsed session is
  reported stale, and no session is both entitled and stale.\<close>

lemma session_lease_window:
  assumes "bt_wf b" and "upsert_durable s persist ms t b = (Inr s', b')" and "t \<le> now"
  shows "board_contains (se_id s') now b' = (now \<le> t + STALE) \<and>
    (se_id s' \<in> set (stale_ids now b')) = (t + STALE < now) \<and>
    (\<forall>sid. \<not> (board_contains sid now b' \<and> sid \<in> set (stale_ids now b')))"
proof -
  have b': "b' = bt_insert (se_id s') \<lparr>lv_session = s', lv_seen = t, lv_recovered = False\<rparr> b"
    using upsert_durable_cases [OF assms(2)] by auto
  have wf: "bt_wf b'" using assms(1) by (simp add: b' map_laws)
  have get: "bt_get b' (se_id s') = Some \<lparr>lv_session = s', lv_seen = t, lv_recovered = False\<rparr>"
    by (simp add: b' map_laws)
  note st = stale_ids_iff [OF wf]
  show ?thesis using get st assms(3) by (auto simp: board_contains_def split: option.splits)
qed

end
