(* ===== verification/Command.thy ===== *)
theory Command
  imports Plan
begin

text \<open>
  \<open>core/placement/src/command.rs\<close>: the command lines built from a plan, and their printed form.  The
  process itself (\<open>spawn\<close>, \<open>execute\<close>) is the operating system's and is not modelled.  \<open>sh_words\<close> is the
  specification the printing is judged by: how a POSIX shell splits a line into words when the line
  holds only unquoted plain characters, single quotes and backslash escapes; any other character it
  would interpret makes it answer \<open>None\<close>.
\<close>

section \<open>Model\<close>

record CommandSpec =
  cs_program :: string
  cs_args :: "string list"
  cs_env :: "(string \<times> string) list"
  cs_secret_env :: "(string \<times> string) list"

definition SAFE :: string where
  "SAFE = ''-_./:=@,+''"

definition shell_safe :: "char \<Rightarrow> bool" where
  "shell_safe c = (is_alnum c \<or> c \<in> set SAFE)"

abbreviation squote :: char where
  "squote \<equiv> CHR 0x27"

abbreviation backslash :: char where
  "backslash \<equiv> CHR 0x5C"

definition quote_char :: "char \<Rightarrow> string" where
  "quote_char c = (if c = squote then [squote, backslash, squote, squote] else [c])"

definition shell_quote :: "string \<Rightarrow> string" where
  "shell_quote s =
     (if s \<noteq> [] \<and> list_all shell_safe s then s
      else [squote] @ concat (map quote_char s) @ [squote])"

definition command_display :: "CommandSpec \<Rightarrow> string" where
  "command_display c =
     concat (map (\<lambda>(k, v). k @ ''='' @ shell_quote v @ '' '') (cs_env c)) @
     concat (map (\<lambda>(k, v). k @ ''='' @ [squote] @ ''<redacted>'' @ [squote] @ '' '') (cs_secret_env c)) @
     shell_quote (cs_program c) @
     concat (map (\<lambda>a. '' '' @ shell_quote a) (cs_args c))"

text \<open>What the derived serialisation and the hand-written \<open>Debug\<close> show: the secret values are left out.\<close>

definition command_debug ::
    "CommandSpec \<Rightarrow> string \<times> string list \<times> (string \<times> string) list \<times> (string \<times> string) list" where
  "command_debug c =
     (cs_program c, cs_args c, cs_env c, map (\<lambda>(k, v). (k, ''<redacted>'')) (cs_secret_env c))"

text \<open>\<open>format!("{f:.3}")\<close>: the exact value rounded to three decimals, ties to even.\<close>

definition show_fixed3 :: "fl \<Rightarrow> string" where
  "show_fixed3 f =
     (case f of
        NaN \<Rightarrow> ''NaN''
      | Inf neg \<Rightarrow> (if neg then ''-inf'' else ''inf'')
      | Fin x \<Rightarrow>
          (let n = nat (round_half_even (\<bar>x\<bar> * 1000)); d = show_nat (n mod 1000)
           in (if x < 0 then ''-'' else []) @ show_nat (n div 1000) @ ''.'' @
              replicate (3 - length d) (CHR ''0'') @ d))"

abbreviation show_word :: "'a::len word \<Rightarrow> string" where
  "show_word w \<equiv> show_nat (unat w)"

definition placement_flags :: "PlacementPlan \<Rightarrow> string list" where
  "placement_flags p =
     (case ol_gpu_layers (pp_offload p) of
        LayersAll \<Rightarrow> [''-ngl'', ''999'']
      | LayersCount n \<Rightarrow> [''-ngl'', show_word n]) @
     (if ol_experts_on_host (pp_offload p) then [''--override-tensor'', ''exps=CPU''] else []) @
     (if ol_kv_on_host (pp_offload p) then [''--no-kv-offload''] else []) @
     (case pp_multi_gpu p of
        LayerSplit fractions \<Rightarrow>
          [''--split-mode'', ''layer'', ''--tensor-split'', join '','' (map show_fixed3 fractions)]
      | ExpertParallel \<Rightarrow> [''--split-mode'', ''layer'']
      | _ \<Rightarrow> [])"

definition build_llama_run :: "PlacementPlan \<Rightarrow> ModelMeta \<Rightarrow> string \<Rightarrow> string \<Rightarrow> CommandSpec" where
  "build_llama_run p m model_path binary =
     \<lparr>cs_program = binary,
      cs_args = [''-m'', model_path, ''-c'', show_word (m_context_len m)] @ placement_flags p,
      cs_env = pp_env p, cs_secret_env = []\<rparr>"

definition build_llama_server ::
    "PlacementPlan \<Rightarrow> ModelMeta \<Rightarrow> string \<Rightarrow> string \<Rightarrow> string \<Rightarrow> u16 \<Rightarrow> string option \<Rightarrow> CommandSpec" where
  "build_llama_server p m model_path binary host port api_key =
     (let total_context = sat_mul (m_context_len m) (ucast (m_parallel_slots m))
      in \<lparr>cs_program = binary,
          cs_args =
            [''-m'', model_path, ''-c'', show_word total_context, ''-np'', show_word (m_parallel_slots m),
             ''--cont-batching'', ''-b'', show_word (m_batch_size m), ''-ub'', show_word (m_ubatch_size m),
             ''--host'', host, ''--port'', show_word port] @
            (case m_kv_cache_type m of None \<Rightarrow> []
             | Some cache \<Rightarrow> [''-ctk'', as_llama cache, ''-ctv'', as_llama cache]) @
            (if m_flash_attention m then [''--flash-attn'', ''on''] else []) @
            (if 0 < m_cache_reuse m then [''--cache-reuse'', show_word (m_cache_reuse m)] else []) @
            (if 0 < m_cache_ram_mib m then [''--cache-ram'', show_word (m_cache_ram_mib m)] else []) @
            (if m_metrics m then [''--metrics'', ''--slots''] else []) @
            (case m_slot_save_path m of None \<Rightarrow> [] | Some path \<Rightarrow> [''--slot-save-path'', path]) @
            placement_flags p,
          cs_env = pp_env p,
          cs_secret_env = (case api_key of None \<Rightarrow> [] | Some key \<Rightarrow> [(''LLAMA_API_KEY'', key)])\<rparr>)"

definition build_llama_bench :: "PlacementPlan \<Rightarrow> string \<Rightarrow> string \<Rightarrow> CommandSpec" where
  "build_llama_bench p model_path binary =
     \<lparr>cs_program = binary,
      cs_args = [''-m'', model_path, ''-o'', ''json''] @
        (case ol_gpu_layers (pp_offload p) of LayersCount n \<Rightarrow> [''-ngl'', show_word n] | _ \<Rightarrow> []),
      cs_env = pp_env p, cs_secret_env = []\<rparr>"

definition build_training :: "PlacementPlan \<Rightarrow> string \<Rightarrow> string \<Rightarrow> CommandSpec" where
  "build_training p script cfg =
     (let shards = (case pp_multi_gpu p of Fsdp shards \<Rightarrow> shards | _ \<Rightarrow> 1)
      in \<lparr>cs_program = ''torchrun'',
          cs_args = [''--standalone'', ''--nproc_per_node'', show_nat shards, script, ''--config'', cfg],
          cs_env = pp_env p, cs_secret_env = []\<rparr>)"

definition build_quantize :: "string \<Rightarrow> string \<Rightarrow> string \<Rightarrow> CommandSpec" where
  "build_quantize model_in model_out level =
     \<lparr>cs_program = ''llama-quantize'', cs_args = [model_in, model_out, level], cs_env = [], cs_secret_env = []\<rparr>"

section \<open>The shell\<close>

text \<open>\<open>sh_bare w\<close> reads outside quotes with the word so far in \<open>w\<close> (\<open>None\<close> between words),
  \<open>sh_quoted\<close> inside single quotes.  Only the characters a shell takes literally are accepted bare.\<close>

fun sh_bare :: "string option \<Rightarrow> string \<Rightarrow> string list option"
  and sh_quoted :: "string \<Rightarrow> string \<Rightarrow> string list option" where
  "sh_bare w [] = Some (case w of None \<Rightarrow> [] | Some x \<Rightarrow> [x])"
| "sh_bare w (c # cs) =
     (if c = CHR '' '' then
        (case w of None \<Rightarrow> sh_bare None cs
         | Some x \<Rightarrow> (case sh_bare None cs of None \<Rightarrow> None | Some ws \<Rightarrow> Some (x # ws)))
      else if c = squote then sh_quoted (case w of None \<Rightarrow> [] | Some x \<Rightarrow> x) cs
      else if c = backslash then
        (case cs of [] \<Rightarrow> None
         | d # ds \<Rightarrow> if d = newline then None else sh_bare (Some ((case w of None \<Rightarrow> [] | Some x \<Rightarrow> x) @ [d])) ds)
      else if shell_safe c then sh_bare (Some ((case w of None \<Rightarrow> [] | Some x \<Rightarrow> x) @ [c])) cs
      else None)"
| "sh_quoted w [] = None"
| "sh_quoted w (c # cs) = (if c = squote then sh_bare (Some w) cs else sh_quoted (w @ [c]) cs)"

definition sh_words :: "string \<Rightarrow> string list option" where
  "sh_words s = sh_bare None s"

section \<open>Lemmas\<close>

lemma shell_safe_plain: "shell_safe c \<Longrightarrow> c \<noteq> CHR '' '' \<and> c \<noteq> squote \<and> c \<noteq> backslash"
  by (auto simp: shell_safe_def SAFE_def is_alnum_def is_digit_def is_upper_def is_lower_def)

abbreviation so_far :: "string option \<Rightarrow> string" where
  "so_far w \<equiv> (case w of None \<Rightarrow> [] | Some x \<Rightarrow> x)"

lemma sh_bare_safe:
  "list_all shell_safe s \<Longrightarrow> s \<noteq> [] \<Longrightarrow> sh_bare w (s @ t) = sh_bare (Some (so_far w @ s)) t"
proof (induction s arbitrary: w)
  case (Cons c cs)
  then have c: "shell_safe c" "c \<noteq> CHR '' ''" "c \<noteq> squote" "c \<noteq> backslash"
    using shell_safe_plain by auto
  show ?case
  proof (cases "cs = []")
    case True
    with c show ?thesis by simp
  next
    case False
    with c Cons show ?thesis by simp
  qed
qed simp

lemma sh_quoted_escape:
  "sh_quoted w (concat (map quote_char s) @ t) = sh_quoted (w @ s) t"
  by (induction s arbitrary: w) (simp_all add: quote_char_def shell_safe_def)

text \<open>A quoted token is read as exactly the original text, appended to the word under way.\<close>

lemma sh_bare_quote: "sh_bare w (shell_quote s @ t) = sh_bare (Some (so_far w @ s)) t"
proof (cases "s \<noteq> [] \<and> list_all shell_safe s")
  case True
  then show ?thesis using sh_bare_safe [of s w t] by (simp add: shell_quote_def)
next
  case False
  then show ?thesis by (auto simp: shell_quote_def sh_quoted_escape)
qed

lemma sh_bare_space: "sh_bare (Some x) ('' '' @ t) = map_option ((#) x) (sh_bare None t)"
  by (simp split: option.splits)

lemma sh_bare_args:
  "sh_bare (Some x) (concat (map (\<lambda>a. '' '' @ shell_quote a) as)) = Some (x # as)"
proof (induction as arbitrary: x)
  case (Cons a as)
  then show ?case using sh_bare_quote [of None a] by simp
qed simp

text \<open>One assignment: a key of plain characters, the equals sign, a quoted value, a blank.\<close>

lemma sh_bare_assign:
  assumes "list_all shell_safe k"
  shows "sh_bare None (k @ ''='' @ shell_quote v @ '' '' @ t) = map_option ((#) (k @ ''='' @ v)) (sh_bare None t)"
proof -
  have "list_all shell_safe (k @ ''='')" using assms by (simp add: shell_safe_def SAFE_def)
  from sh_bare_safe [OF this, of None "shell_quote v @ '' '' @ t"]
  have "sh_bare None (k @ ''='' @ shell_quote v @ '' '' @ t) = sh_bare (Some (k @ ''='' @ v)) ('' '' @ t)"
    by (simp add: sh_bare_quote)
  then show ?thesis by (simp only: sh_bare_space)
qed

lemma shell_quote_redacted: "[squote] @ ''<redacted>'' @ [squote] = shell_quote ''<redacted>''"
  by (simp add: shell_quote_def quote_char_def shell_safe_def SAFE_def is_alnum_def is_digit_def is_upper_def is_lower_def)

lemma sh_bare_env:
  assumes "\<forall>(k, v) \<in> set env. list_all shell_safe k"
  shows "sh_bare None (concat (map (\<lambda>(k, v). k @ ''='' @ shell_quote (f v) @ '' '') env) @ t)
    = map_option ((@) (map (\<lambda>(k, v). k @ ''='' @ f v) env)) (sh_bare None t)"
  using assms
proof (induction env)
  case Nil
  then show ?case by (cases "sh_bare None t") simp_all
next
  case (Cons e env)
  obtain k v where e: "e = (k, v)" by (cases e)
  with Cons.prems have "list_all shell_safe k" by simp
  from sh_bare_assign [OF this, of "f v"] Cons e show ?case
    by (simp add: option.map_comp comp_def)
qed

section \<open>Properties\<close>

text \<open>C21. The printed command is safe to paste: whatever spaces, quotes, semicolons or newlines the
  program, the arguments and the environment values hold, a POSIX shell splits the line into exactly the
  assignments (secret values replaced by a placeholder), the program and its arguments, one word
  each.\<close>

theorem display_reads_back:
  assumes "\<forall>(k, v) \<in> set (cs_env c) \<union> set (cs_secret_env c). list_all shell_safe k"
  shows "sh_words (command_display c) =
    Some (map (\<lambda>(k, v). k @ ''='' @ v) (cs_env c) @
          map (\<lambda>(k, v). k @ ''=<redacted>'') (cs_secret_env c) @ cs_program c # cs_args c)"
proof -
  let ?rest = "shell_quote (cs_program c) @ concat (map (\<lambda>a. '' '' @ shell_quote a) (cs_args c))"
  have "sh_bare None ?rest = Some (cs_program c # cs_args c)"
    by (simp only: sh_bare_quote sh_bare_args option.case append_Nil)
  then have "sh_bare None (concat (map (\<lambda>(k, v). k @ ''='' @ shell_quote ''<redacted>'' @ '' '') (cs_secret_env c)) @ ?rest)
      = Some (map (\<lambda>(k, v). k @ ''='' @ ''<redacted>'') (cs_secret_env c) @ cs_program c # cs_args c)"
    using assms by (subst sh_bare_env [where f = "\<lambda>_. ''<redacted>''"]) auto
  then have "sh_bare None (concat (map (\<lambda>(k, v). k @ ''='' @ shell_quote v @ '' '') (cs_env c)) @
      concat (map (\<lambda>(k, v). k @ ''='' @ shell_quote ''<redacted>'' @ '' '') (cs_secret_env c)) @ ?rest)
      = Some (map (\<lambda>(k, v). k @ ''='' @ v) (cs_env c) @
          map (\<lambda>(k, v). k @ ''='' @ ''<redacted>'') (cs_secret_env c) @ cs_program c # cs_args c)"
    using assms by (subst sh_bare_env [where f = "\<lambda>v. v"]) auto
  then show ?thesis
    unfolding sh_words_def command_display_def by (simp flip: shell_quote_redacted)
qed

text \<open>The API key of a server reaches the process only through its environment: the printed
  command, its debug form, the arguments and the plain environment are the same for every key.\<close>

lemma api_key_never_shown:
  "command_display (build_llama_server p m path bin host port (Some k))
     = command_display (build_llama_server p m path bin host port (Some k')) \<and>
   command_debug (build_llama_server p m path bin host port (Some k))
     = command_debug (build_llama_server p m path bin host port (Some k')) \<and>
   cs_secret_env (build_llama_server p m path bin host port (Some k)) = [(''LLAMA_API_KEY'', k)] \<and>
   cs_args (build_llama_server p m path bin host port (Some k))
     = cs_args (build_llama_server p m path bin host port None)"
  by (simp add: build_llama_server_def command_display_def command_debug_def Let_def)

theorem display_reads_back_witness:
  "sh_words (command_display \<lparr>cs_program = ''llama-server'', cs_args = [''-m'', ''/m/a b;c''],
      cs_env = [(''HSA'', ''10.3 0'')], cs_secret_env = [(''LLAMA_API_KEY'', ''s3cret'')]\<rparr>)
    = Some [''HSA=10.3 0'', ''LLAMA_API_KEY=<redacted>'', ''llama-server'', ''-m'', ''/m/a b;c'']"
proof -
  let ?c = "\<lparr>cs_program = ''llama-server'', cs_args = [''-m'', ''/m/a b;c''],
      cs_env = [(''HSA'', ''10.3 0'')], cs_secret_env = [(''LLAMA_API_KEY'', ''s3cret'')]\<rparr> :: CommandSpec"
  have "\<forall>(k, v) \<in> set (cs_env ?c) \<union> set (cs_secret_env ?c). list_all shell_safe k"
    by (simp add: shell_safe_def SAFE_def is_alnum_def is_digit_def is_upper_def is_lower_def)
  from display_reads_back [OF this] show ?thesis by simp
qed

end
