(* ===== verification/Net.thy ===== *)
theory Net
  imports Config Command
begin

text \<open>
  \<open>core/net-strategy\<close>: node addresses (\<open>host_of\<close>, \<open>is_loopback\<close>, \<open>parse_ip_literal\<close>), the layout of an
  RPC-sharded run, and the configuration handed to \<open>curl\<close>.  The textual IP parser is the standard
  library's (\<open>core::net::parser\<close>): four decimal octets without leading zeros, or up to eight
  hexadecimal groups with one \<open>::\<close> and an optional trailing IPv4 part.  Reading bytes as UTF-8 is a
  parameter; running \<open>curl\<close> is not modelled.
\<close>

section \<open>IP address literals\<close>

definition hex_value :: "char \<Rightarrow> nat" where
  "hex_value c = (let n = ccode c in if n \<le> 57 then n - 48 else if n \<le> 70 then n - 55 else n - 87)"

text \<open>\<open>read_number\<close>: all the digits at the front, at most \<open>limit\<close> of them, the value below \<open>bound\<close>.\<close>

definition read_number :: "(char \<Rightarrow> bool) \<Rightarrow> nat \<Rightarrow> nat \<Rightarrow> bool \<Rightarrow> nat \<Rightarrow> string \<Rightarrow> (nat \<times> string) option" where
  "read_number digit radix limit zero_prefix bound s =
     (let ds = takeWhile digit s;
          v = foldl (\<lambda>acc c. acc * radix + hex_value c) 0 ds
      in if ds = [] \<or> limit < length ds \<or> (\<not> zero_prefix \<and> hd ds = CHR ''0'' \<and> 1 < length ds) \<or> bound \<le> v
         then None else Some (v, dropWhile digit s))"

definition read_octet :: "string \<Rightarrow> (nat \<times> string) option" where
  "read_octet s = read_number is_digit 10 3 False 256 s"

definition read_group :: "string \<Rightarrow> (nat \<times> string) option" where
  "read_group s = read_number is_hexdigit 16 4 True 65536 s"

definition read_sep :: "char \<Rightarrow> bool \<Rightarrow> (string \<Rightarrow> 'a option) \<Rightarrow> string \<Rightarrow> 'a option" where
  "read_sep sep first inner s =
     (if first then inner s
      else case s of [] \<Rightarrow> None | c # cs \<Rightarrow> if c = sep then inner cs else None)"

fun read_octets :: "nat \<Rightarrow> bool \<Rightarrow> string \<Rightarrow> (nat list \<times> string) option" where
  "read_octets 0 first s = Some ([], s)"
| "read_octets (Suc n) first s =
     (case read_sep (CHR ''.'') first read_octet s of None \<Rightarrow> None
      | Some (v, rest) \<Rightarrow>
          (case read_octets n False rest of None \<Rightarrow> None | Some (vs, r) \<Rightarrow> Some (v # vs, r)))"

definition read_ipv4 :: "string \<Rightarrow> (nat list \<times> string) option" where
  "read_ipv4 s = read_octets 4 True s"

text \<open>\<open>read_groups\<close>: up to \<open>n\<close> groups; the flag says that a trailing IPv4 part ended them.\<close>

fun read_groups :: "nat \<Rightarrow> bool \<Rightarrow> string \<Rightarrow> nat list \<times> bool \<times> string" where
  "read_groups 0 first s = ([], False, s)"
| "read_groups (Suc n) first s =
     (case (if 0 < n then read_sep (CHR '':'') first read_ipv4 s else None) of
        Some ([a, b, c, d], rest) \<Rightarrow> ([a * 256 + b, c * 256 + d], True, rest)
      | _ \<Rightarrow>
        (case read_sep (CHR '':'') first read_group s of
           None \<Rightarrow> ([], False, s)
         | Some (g, rest) \<Rightarrow>
             (case read_groups n False rest of (gs, v4, r) \<Rightarrow> (g # gs, v4, r))))"

definition ipv6_word :: "nat list \<Rightarrow> 128 word" where
  "ipv6_word gs = foldl (\<lambda>acc g. acc * 65536 + of_nat g) 0 gs"

definition read_ipv6 :: "string \<Rightarrow> (128 word \<times> string) option" where
  "read_ipv6 s =
     (case read_groups 8 True s of (hd', hd_v4, rest) \<Rightarrow>
        if length hd' = 8 then Some (ipv6_word hd', rest)
        else if hd_v4 then None
        else case rest of
          c # d # rest' \<Rightarrow>
            if c = CHR '':'' \<and> d = CHR '':'' then
              (case read_groups (8 - (length hd' + 1)) True rest' of (tl', _, r) \<Rightarrow>
                 Some (ipv6_word (hd' @ replicate (8 - length hd' - length tl') 0 @ tl'), r))
            else None
        | _ \<Rightarrow> None)"

definition parse_ipv6 :: "string \<Rightarrow> 128 word option" where
  "parse_ipv6 s = (case read_ipv6 s of Some (w, []) \<Rightarrow> Some w | _ \<Rightarrow> None)"

definition parse_ip :: "string \<Rightarrow> IpAddr option" where
  "parse_ip s =
     (case read_ipv4 s of
        Some ([a, b, c, d], rest) \<Rightarrow>
          if rest = [] then Some (V4 (of_nat a) (of_nat b) (of_nat c) (of_nat d)) else None
      | _ \<Rightarrow> map_option V6 (parse_ipv6 s))"

section \<open>Addresses of nodes\<close>

definition parses_u16 :: "string \<Rightarrow> bool" where
  "parses_u16 s = (parse_word s \<noteq> (None :: u16 option))"

definition host_of :: "string \<Rightarrow> string option" where
  "host_of address =
     (if address = [] then None
      else if hd address = CHR ''['' then
        (case split_once (CHR '']'') (tl address) of
           None \<Rightarrow> None
         | Some (host, suffix) \<Rightarrow>
             if parse_ipv6 host = None \<or>
                \<not> (suffix = [] \<or>
                  (case strip_prefix '':'' suffix of None \<Rightarrow> False | Some port \<Rightarrow> parses_u16 port))
             then None else Some host)
      else if parse_ip address \<noteq> None then Some address
      else if count_list address (CHR '':'') = 0 then Some address
      else if count_list address (CHR '':'') = 1 then
        (case rsplit_once (CHR '':'') address of
           None \<Rightarrow> None
         | Some (host, port) \<Rightarrow> if host \<noteq> [] \<and> parses_u16 port then Some host else None)
      else None)"

definition is_loopback :: "string \<Rightarrow> bool" where
  "is_loopback host =
     (eq_ignore_case host ''localhost'' \<or>
      (case parse_ip host of None \<Rightarrow> False | Some ip \<Rightarrow> ip_is_loopback ip))"

datatype net_error = NotDistributable nat | InvalidAddress string

definition parse_ip_literal :: "string \<Rightarrow> net_error + IpAddr option" where
  "parse_ip_literal host =
     (case parse_ip host of
        Some ip \<Rightarrow> Inr (Some ip)
      | None \<Rightarrow>
        (let ipv4_like = (CHR ''.'' \<in> set host \<and> list_all (\<lambda>b. is_digit b \<or> b = CHR ''.'') host)
         in if CHR '':'' \<in> set host \<or> CHR ''['' \<in> set host \<or> CHR '']'' \<in> set host \<or> ipv4_like
            then Inl (InvalidAddress host) else Inr None))"

section \<open>RPC layout\<close>

record RpcWorker =
  rw_host :: string
  rw_port :: u16
  rw_command :: "string list"

record RpcLayout =
  rl_workers :: "RpcWorker list"
  rl_endpoints :: string

definition head_rpc_args :: "RpcLayout \<Rightarrow> string list" where
  "head_rpc_args l = [''--rpc'', rl_endpoints l]"

definition rpc_endpoint :: "RpcWorker \<Rightarrow> string" where
  "rpc_endpoint w = rw_host w @ '':'' @ show_word (rw_port w)"

fun rpc_workers :: "nat \<Rightarrow> u16 \<Rightarrow> string list \<Rightarrow> net_error + RpcWorker list" where
  "rpc_workers i base [] = Inr []"
| "rpc_workers i base (addr # addrs) =
     (case host_of addr of
        None \<Rightarrow> Inl (InvalidAddress addr)
      | Some host \<Rightarrow>
          (let port = sat_add base (of_nat i)
           in case rpc_workers (i + 1) base addrs of
                Inl e \<Rightarrow> Inl e
              | Inr ws \<Rightarrow>
                  Inr (\<lparr>rw_host = host, rw_port = port,
                        rw_command = [''rpc-server'', ''--host'', ''0.0.0.0'', ''--port'', show_word port]\<rparr> # ws)))"

definition rpc_layout :: "string list \<Rightarrow> u16 \<Rightarrow> net_error + RpcLayout" where
  "rpc_layout addrs base =
     (if length addrs < 2 then Inl (NotDistributable (length addrs))
      else case rpc_workers 0 base addrs of
        Inl e \<Rightarrow> Inl e
      | Inr ws \<Rightarrow> Inr \<lparr>rl_workers = ws, rl_endpoints = join '','' (map rpc_endpoint ws)\<rparr>)"

section \<open>The curl adapter\<close>

definition MAX_RESPONSE_BYTES :: u64 where
  "MAX_RESPONSE_BYTES = 1024 * 1024"

datatype Policy = HTTPS_ONLY | HTTP_OR_HTTPS

fun policy_protocols :: "Policy \<Rightarrow> string" where
  "policy_protocols HTTPS_ONLY = ''=https''"
| "policy_protocols HTTP_OR_HTTPS = ''=http,https''"

record CurlPlan =
  cp_args :: "string list"
  cp_stdin_config :: string

datatype curl_error = BadMethod | BadTimeout | ControlCharacter | NotUtf8

abbreviation dquote :: char where
  "dquote \<equiv> CHR 0x22"

definition config_char :: "char \<Rightarrow> string option" where
  "config_char c =
     (if c = backslash then Some [backslash, backslash]
      else if c = dquote then Some [backslash, dquote]
      else if c = newline then Some [backslash, CHR ''n'']
      else if c = carriage then Some [backslash, CHR ''r'']
      else if c = CHR 0x09 then Some [backslash, CHR ''t'']
      else if c = CHR 0x0B then Some [backslash, CHR ''v'']
      else if is_control c then None
      else Some [c])"

fun config_chars :: "string \<Rightarrow> string option" where
  "config_chars [] = Some []"
| "config_chars (c # cs) =
     (case config_char c of None \<Rightarrow> None
      | Some q \<Rightarrow> (case config_chars cs of None \<Rightarrow> None | Some qs \<Rightarrow> Some (q @ qs)))"

definition quote_config :: "string \<Rightarrow> curl_error + string" where
  "quote_config v =
     (case config_chars v of None \<Rightarrow> Inl ControlCharacter | Some q \<Rightarrow> Inr ([dquote] @ q @ [dquote]))"

definition unlines :: "string list \<Rightarrow> string" where
  "unlines ls = concat (map (\<lambda>l. l @ [newline]) ls)"

text \<open>One line \<open>name = quoted\<close>, and the fixed head of every configuration.\<close>

definition config_line :: "string \<Rightarrow> string \<Rightarrow> curl_error + string" where
  "config_line nm v = (case quote_config v of Inl e \<Rightarrow> Inl e | Inr q \<Rightarrow> Inr (nm @ '' = '' @ q))"

definition config_head :: "u64 \<Rightarrow> Policy \<Rightarrow> string list" where
  "config_head timeout_secs policy =
     [''silent'', ''show-error'', ''fail'', ''connect-timeout = '' @ show_word (min timeout_secs 5),
      ''max-time = '' @ show_word timeout_secs, ''max-filesize = '' @ show_word MAX_RESPONSE_BYTES,
      ''proto = '' @ [dquote] @ policy_protocols policy @ [dquote]] @
     (if policy_protocols policy = ''=https'' then [''tlsv1.2''] else [])"

definition optional_line :: "string \<Rightarrow> string option \<Rightarrow> curl_error + string list" where
  "optional_line nm v =
     (case v of None \<Rightarrow> Inr [] | Some x \<Rightarrow> (case config_line nm x of Inl e \<Rightarrow> Inl e | Inr l \<Rightarrow> Inr [l]))"

definition body_lines :: "(u8 list \<Rightarrow> string option) \<Rightarrow> u8 list option \<Rightarrow> curl_error + string list" where
  "body_lines from_utf8 body =
     (case body of
        None \<Rightarrow> Inr []
      | Some bytes \<Rightarrow>
          (case from_utf8 bytes of
             None \<Rightarrow> Inl NotUtf8
           | Some text \<Rightarrow>
               (case config_line ''data-binary'' text of
                  Inl e \<Rightarrow> Inl e
                | Inr l \<Rightarrow> Inr [''header = '' @ [dquote] @ ''Content-Type: application/json'' @ [dquote], l])))"

definition plan_json_request ::
    "(u8 list \<Rightarrow> string option) \<Rightarrow> string \<Rightarrow> string \<Rightarrow> string option \<Rightarrow> u8 list option \<Rightarrow> u64 \<Rightarrow> Policy
     \<Rightarrow> curl_error + CurlPlan" where
  "plan_json_request from_utf8 url method bearer body timeout_secs policy =
     (if \<not> list_all is_upper method \<or> method = [] then Inl BadMethod
      else if timeout_secs = 0 \<or> 300 < timeout_secs then Inl BadTimeout
      else case config_line ''request'' method of Inl e \<Rightarrow> Inl e | Inr l1 \<Rightarrow>
        (case config_line ''url'' url of Inl e \<Rightarrow> Inl e | Inr l2 \<Rightarrow>
        (case optional_line ''header'' (map_option (\<lambda>token. ''Authorization: Bearer '' @ token) bearer) of
           Inl e \<Rightarrow> Inl e | Inr l3 \<Rightarrow>
        (case body_lines from_utf8 body of Inl e \<Rightarrow> Inl e | Inr l4 \<Rightarrow>
           Inr \<lparr>cp_args = [''--config'', ''-''],
                cp_stdin_config = unlines (config_head timeout_secs policy @ [l1, l2] @ l3 @ l4)\<rparr>))))"

section \<open>How curl reads a configuration\<close>

text \<open>A line is an option name alone, or a name, \<open>=\<close> and a value; a value in double quotes undoes the
  escapes \<open>\\n\<close>, \<open>\\r\<close>, \<open>\\t\<close>, \<open>\\v\<close> and takes any other escaped character as it is.\<close>

definition unescape :: "char \<Rightarrow> char" where
  "unescape c =
     (if c = CHR ''n'' then newline else if c = CHR ''r'' then carriage
      else if c = CHR ''t'' then CHR 0x09 else if c = CHR ''v'' then CHR 0x0B else c)"

fun unquote :: "string \<Rightarrow> string option" where
  "unquote [] = None"
| "unquote (c # cs) =
     (if c = dquote then (if cs = [] then Some [] else None)
      else if c = backslash then
        (case cs of [] \<Rightarrow> None | d # ds \<Rightarrow> map_option ((#) (unescape d)) (unquote ds))
      else map_option ((#) c) (unquote cs))"

definition read_option :: "string \<Rightarrow> (string \<times> string option) option" where
  "read_option l =
     (let nm = takeWhile (\<lambda>c. c \<noteq> CHR '' '') l; rest = dropWhile (\<lambda>c. c \<noteq> CHR '' '') l
      in if rest = [] then Some (nm, None)
         else case strip_prefix '' = '' rest of
           None \<Rightarrow> None
         | Some v \<Rightarrow>
             if v \<noteq> [] \<and> hd v = dquote then map_option (\<lambda>x. (nm, Some x)) (unquote (tl v))
             else Some (nm, Some v))"

section \<open>Lemmas\<close>

lemma split_on_append_sep: "c \<notin> set x \<Longrightarrow> split_on c (x @ c # s) = x # split_on c s"
  by (induction x) auto

lemma split_on_unlines: "\<forall>l \<in> set ls. newline \<notin> set l \<Longrightarrow> split_on newline (unlines ls) = ls @ [[]]"
  by (induction ls) (simp_all add: unlines_def split_on_append_sep)

definition plain_line :: "string \<Rightarrow> bool" where
  "plain_line l = (newline \<notin> set l \<and> carriage \<notin> set l)"

lemma lines_unlines:
  assumes "\<forall>l \<in> set ls. plain_line l"
  shows "lines (unlines ls) = ls"
proof -
  have "drop_cr l = l" if "l \<in> set ls" for l
    using assms that by (cases l rule: rev_cases) (auto simp: drop_cr_def plain_line_def)
  with assms show ?thesis by (simp add: lines_def split_on_unlines plain_line_def Let_def map_idI)
qed

lemma plain_line_append [simp]: "plain_line (a @ b) \<longleftrightarrow> plain_line a \<and> plain_line b"
  by (auto simp: plain_line_def)

lemma config_char_Some:
  assumes "config_char c = Some q"
  shows "plain_line q \<and> unquote (q @ r) = map_option ((#) c) (unquote r)"
  using assms
  by (auto simp: config_char_def plain_line_def unescape_def split: if_splits)

lemma config_chars_Some:
  "config_chars v = Some q \<Longrightarrow> plain_line q \<and> unquote (q @ [dquote]) = Some v"
proof (induction v arbitrary: q)
  case Nil
  then show ?case by (simp add: plain_line_def)
next
  case (Cons c v)
  then obtain a b where "config_char c = Some a" "config_chars v = Some b" "q = a @ b"
    by (auto split: option.splits)
  with Cons.IH config_char_Some show ?case by simp
qed

lemma takeWhile_name: "CHR '' '' \<notin> set nm \<Longrightarrow> takeWhile (\<lambda>c. c \<noteq> CHR '' '') (nm @ '' = '' @ v) = nm"
  by (induction nm) auto

lemma dropWhile_name: "CHR '' '' \<notin> set nm \<Longrightarrow> dropWhile (\<lambda>c. c \<noteq> CHR '' '') (nm @ '' = '' @ v) = '' = '' @ v"
  by (induction nm) auto

text \<open>A quoted line cannot break out of its line and is read back as the value it was made from.\<close>

lemma config_line_Inr:
  assumes "config_line nm v = Inr l" and "plain_line nm" and "CHR '' '' \<notin> set nm"
  shows "plain_line l \<and> read_option l = Some (nm, Some v)"
proof -
  from assms(1) obtain q where q: "config_chars v = Some q" and l: "l = nm @ '' = '' @ [dquote] @ q @ [dquote]"
    by (auto simp: config_line_def quote_config_def split: option.splits)
  have "read_option l = Some (nm, Some v)"
    unfolding l read_option_def takeWhile_name [OF assms(3)] dropWhile_name [OF assms(3)]
    using config_chars_Some [OF q] by (simp add: Let_def)
  moreover have "plain_line l"
    using assms(2) config_chars_Some [OF q] by (simp add: l) (simp add: plain_line_def)
  ultimately show ?thesis by simp
qed

lemma show_nat_plain: "plain_line (show_nat n) \<and> hd (show_nat n) \<noteq> dquote"
proof -
  have d: "is_digit c" if "c \<in> set (show_nat n)" for c
    using show_nat_digits [of n] that by (simp add: list_all_iff)
  have "hd (show_nat n) \<in> set (show_nat n)" by simp
  from d [OF this] have "hd (show_nat n) \<noteq> dquote" by (auto simp: is_digit_def)
  moreover have "newline \<notin> set (show_nat n)" "carriage \<notin> set (show_nat n)"
    using d [of newline] d [of carriage] by (auto simp: is_digit_def)
  ultimately show ?thesis by (simp add: plain_line_def)
qed

definition head_options :: "u64 \<Rightarrow> Policy \<Rightarrow> (string \<times> string option) list" where
  "head_options timeout_secs policy =
     [(''silent'', None), (''show-error'', None), (''fail'', None),
      (''connect-timeout'', Some (show_word (min timeout_secs 5))),
      (''max-time'', Some (show_word timeout_secs)), (''max-filesize'', Some (show_word MAX_RESPONSE_BYTES)),
      (''proto'', Some (policy_protocols policy))] @
     (if policy = HTTPS_ONLY then [(''tlsv1.2'', None)] else [])"

lemma config_head_reads:
  "list_all plain_line (config_head t policy) \<and>
   map read_option (config_head t policy) = map Some (head_options t policy)"
  by (cases policy)
    (simp_all add: config_head_def head_options_def plain_line_def read_option_def unescape_def Let_def
       show_nat_plain [unfolded plain_line_def])

section \<open>Properties\<close>

text \<open>C31. Nothing in the URL, the token or the body can add or change a \<open>curl\<close> option: whenever a
  request is built, \<open>curl\<close> reads from the configuration the fixed options (timeouts within 300 seconds,
  the response limit, the protocols of the policy) followed by exactly the method, the URL, the
  authorisation header and the body that were given, and the command line holds none of them.\<close>

theorem curl_config_reads_back:
  assumes "plan_json_request from_utf8 url method bearer body t policy = Inr p"
  shows "map read_option (lines (cp_stdin_config p)) = map Some
      (head_options t policy @ [(''request'', Some method), (''url'', Some url)] @
       (case bearer of None \<Rightarrow> [] | Some token \<Rightarrow> [(''header'', Some (''Authorization: Bearer '' @ token))]) @
       (case body of None \<Rightarrow> []
        | Some bytes \<Rightarrow> [(''header'', Some ''Content-Type: application/json''), (''data-binary'', from_utf8 bytes)])) \<and>
    cp_args p = [''--config'', ''-''] \<and> 0 < t \<and> t \<le> 300"
proof -
  from assms obtain l1 l2 l3 l4 where l1: "config_line ''request'' method = Inr l1"
    and l2: "config_line ''url'' url = Inr l2"
    and l3: "optional_line ''header'' (map_option (\<lambda>token. ''Authorization: Bearer '' @ token) bearer) = Inr l3"
    and l4: "body_lines from_utf8 body = Inr l4"
    and p: "p = \<lparr>cp_args = [''--config'', ''-''], cp_stdin_config = unlines (config_head t policy @ [l1, l2] @ l3 @ l4)\<rparr>"
    and t: "t \<noteq> 0" "\<not> 300 < t"
    by (auto simp: plan_json_request_def split: if_splits sum.splits)
  have 1: "plain_line l1 \<and> read_option l1 = Some (''request'', Some method)"
    by (rule config_line_Inr [OF l1]) (simp_all add: plain_line_def)
  have 2: "plain_line l2 \<and> read_option l2 = Some (''url'', Some url)"
    by (rule config_line_Inr [OF l2]) (simp_all add: plain_line_def)
  have 3: "list_all plain_line l3 \<and> map read_option l3 = map Some
      (case bearer of None \<Rightarrow> [] | Some token \<Rightarrow> [(''header'', Some (''Authorization: Bearer '' @ token))])"
    using l3 config_line_Inr [of "''header''"]
    by (auto simp: optional_line_def plain_line_def split: option.splits sum.splits)
  have 4: "list_all plain_line l4 \<and> map read_option l4 = map Some
      (case body of None \<Rightarrow> []
       | Some bytes \<Rightarrow> [(''header'', Some ''Content-Type: application/json''), (''data-binary'', from_utf8 bytes)])"
    using l4 config_line_Inr [of "''data-binary''"]
    by (auto simp: body_lines_def plain_line_def read_option_def split: option.splits sum.splits)
  have "\<forall>l \<in> set (config_head t policy @ [l1, l2] @ l3 @ l4). plain_line l"
    using 1 2 3 4 config_head_reads [of t policy] by (auto simp: list_all_iff)
  from lines_unlines [OF this] 1 2 3 4 config_head_reads [of t policy] t show ?thesis
    by (simp add: p word_neq_0_conv linorder_not_less)
qed

theorem curl_config_reads_back_witness:
  "map read_option (lines (cp_stdin_config (projr (plan_json_request (\<lambda>b. None) (''http://a'' @ [newline]) ''GET''
      (Some [dquote]) None 1 HTTPS_ONLY)))) = map Some
    (head_options 1 HTTPS_ONLY @ [(''request'', Some ''GET''), (''url'', Some (''http://a'' @ [newline])),
      (''header'', Some (''Authorization: Bearer '' @ [dquote]))])"
proof -
  obtain p where "plan_json_request (\<lambda>b. None) (''http://a'' @ [newline]) ''GET'' (Some [dquote]) None 1 HTTPS_ONLY = Inr p"
    by (simp add: plan_json_request_def config_line_def quote_config_def config_char_def is_upper_def is_control_def
        optional_line_def body_lines_def)
  from curl_config_reads_back [OF this] this show ?thesis by simp
qed

end
