(* ===== verification/Agents.thy ===== *)
theory Agents
  imports Net Fleet "HOL-Library.Product_Lexorder"
begin

text \<open>
  \<open>core/placement/src/agents.rs\<close>: binding an agent's engine to a cloud provider or to a model served on
  a node of the fleet, and sharing one server between agents that land on the same node with the same
  model file.
\<close>

section \<open>Model\<close>

datatype PlacementTarget = Auto | Node string

datatype EngineBinding = Cloud string string | Local string ModelMeta PlacementTarget

record AgentSpec =
  ag_name :: string
  ag_role :: string
  ag_engine :: EngineBinding

record CloudRun =
  cr_name :: string
  cr_role :: string
  cr_provider :: string
  cr_model :: string
  cr_endpoint :: string

record LocalRun =
  lr_name :: string
  lr_role :: string
  lr_node :: nat
  lr_node_name :: string
  lr_endpoint :: string
  lr_bind :: string
  lr_authenticated :: bool
  lr_serve :: CommandSpec
  lr_already_running :: bool

datatype AgentRunPlan = RunCloud CloudRun | RunLocal LocalRun

definition provider_endpoint :: "string \<Rightarrow> string option" where
  "provider_endpoint provider =
     (let p = to_lower provider
      in if p = ''anthropic'' then Some ''https://api.anthropic.com''
         else if p = ''openai'' then Some ''https://api.openai.com/v1''
         else None)"

fun position :: "('a \<Rightarrow> bool) \<Rightarrow> 'a list \<Rightarrow> nat option" where
  "position P [] = None"
| "position P (x # xs) = (if P x then Some 0 else map_option Suc (position P xs))"

text \<open>The node an agent's model goes to, with its plan and name.\<close>

definition agent_node ::
    "AgentSpec \<Rightarrow> Cluster \<Rightarrow> Settings \<Rightarrow> ModelMeta \<Rightarrow> PlacementTarget
     \<Rightarrow> place_error + (nat \<times> PlacementPlan \<times> string)" where
  "agent_node spec cluster settings model target =
     (case target of
        Auto \<Rightarrow>
          (case place_on_fleet cluster model Inference settings of
             Inl e \<Rightarrow> Inl e
           | Inr fp \<Rightarrow>
               (case fp_chosen fp of
                  SingleNode node node_name p \<Rightarrow> Inr (node, p, node_name)
                | Distributed _ _ \<Rightarrow> Inl (LocalAgentTooLarge (ag_name spec))))
      | Node nm \<Rightarrow>
          (case position (\<lambda>n. ni_name n = nm) (cl_nodes cluster) of
             None \<Rightarrow> Inl (NodeNotFound nm)
           | Some node \<Rightarrow>
               (case plan (ni_topology (cl_nodes cluster ! node)) (ni_assessments (cl_nodes cluster ! node))
                       model Inference settings of
                  Inl e \<Rightarrow> Inl e
                | Inr p \<Rightarrow> Inr (node, p, nm))))"

definition bind_address :: "string \<Rightarrow> string" where
  "bind_address host =
     (if parse_ip host \<noteq> None then host
      else if is_loopback host then ''127.0.0.1''
      else ''0.0.0.0'')"

definition resolve_agent :: "AgentSpec \<Rightarrow> Cluster \<Rightarrow> Settings \<Rightarrow> u16 \<Rightarrow> place_error + AgentRunPlan" where
  "resolve_agent spec cluster settings port =
     (case ag_engine spec of
        Cloud provider model \<Rightarrow>
          (case provider_endpoint provider of
             None \<Rightarrow> Inl (UnknownProvider provider)
           | Some endpoint \<Rightarrow>
               Inr (RunCloud \<lparr>cr_name = ag_name spec, cr_role = ag_role spec, cr_provider = provider,
                 cr_model = model, cr_endpoint = endpoint\<rparr>))
      | Local path model target \<Rightarrow>
          (case agent_node spec cluster settings model target of
             Inl e \<Rightarrow> Inl e
           | Inr (node, p, node_name) \<Rightarrow>
               (let address = ni_address (cl_nodes cluster ! node)
                in case host_of address of
                     None \<Rightarrow> Inl (InvalidNodeAddress address)
                   | Some host \<Rightarrow>
                       (let api_key = st_serve_api_key settings
                        in if \<not> is_loopback host \<and> api_key = None then Inl (MissingApiKey (ag_name spec))
                           else Inr (RunLocal \<lparr>lr_name = ag_name spec, lr_role = ag_role spec, lr_node = node,
                             lr_node_name = node_name, lr_endpoint = ''http://'' @ host @ '':'' @ show_word port,
                             lr_bind = bind_address host, lr_authenticated = (api_key \<noteq> None),
                             lr_serve = build_llama_server p model path ''llama-server'' (bind_address host) port api_key,
                             lr_already_running = is_warm_for (cl_nodes cluster ! node) (m_name model) path\<rparr>)))))"

definition reuse_local :: "AgentSpec \<Rightarrow> AgentRunPlan \<Rightarrow> AgentRunPlan" where
  "reuse_local spec existing =
     (case existing of
        RunLocal r \<Rightarrow> RunLocal (r\<lparr>lr_name := ag_name spec, lr_role := ag_role spec, lr_already_running := True\<rparr>)
      | other \<Rightarrow> other)"

fun resolve_from ::
    "Cluster \<Rightarrow> Settings \<Rightarrow> u16 \<Rightarrow> (string \<times> string, AgentRunPlan) btree_map \<Rightarrow> AgentSpec list
     \<Rightarrow> (place_error + AgentRunPlan) list" where
  "resolve_from cluster settings port resident [] = []"
| "resolve_from cluster settings port resident (spec # specs) =
     (let resolved = resolve_agent spec cluster settings port
      in case (resolved, ag_engine spec) of
           (Inr (RunLocal r), Local path _ _) \<Rightarrow>
             (let key = (lr_node_name r, path)
              in case bt_get resident key of
                   Some existing \<Rightarrow>
                     Inr (reuse_local spec existing) # resolve_from cluster settings port resident specs
                 | None \<Rightarrow>
                     resolved # resolve_from cluster settings
                       (if lr_already_running r then port else sat_add port 1)
                       (bt_insert key (RunLocal r) resident) specs)
         | _ \<Rightarrow> resolved # resolve_from cluster settings port resident specs)"

definition resolve_agents :: "AgentSpec list \<Rightarrow> Cluster \<Rightarrow> Settings \<Rightarrow> (place_error + AgentRunPlan) list" where
  "resolve_agents specs cluster settings = resolve_from cluster settings 8100 [] specs"

section \<open>Lemmas\<close>

lemma resolve_agent_LocalE:
  assumes "resolve_agent spec cluster settings port = Inr (RunLocal r)"
  obtains path model target p host where "ag_engine spec = Local path model target"
    and "agent_node spec cluster settings model target = Inr (lr_node r, p, lr_node_name r)"
    and "host_of (ni_address (cl_nodes cluster ! lr_node r)) = Some host"
    and "is_loopback host \<or> st_serve_api_key settings \<noteq> None"
    and "lr_endpoint r = ''http://'' @ host @ '':'' @ show_word port"
    and "lr_bind r = bind_address host"
    and "lr_authenticated r = (st_serve_api_key settings \<noteq> None)"
    and "lr_serve r = build_llama_server p model path ''llama-server'' (lr_bind r) port (st_serve_api_key settings)"
    and "lr_already_running r = is_warm_for (cl_nodes cluster ! lr_node r) (m_name model) path"
proof (cases "ag_engine spec")
  case (Cloud provider model)
  with assms show ?thesis by (simp add: resolve_agent_def split: option.splits)
next
  case (Local path model target)
  with assms that show ?thesis
    by (auto simp: resolve_agent_def Let_def split: sum.splits option.splits if_splits)
qed

lemma read_ipv4_unfold: "read_ipv4 s = read_octets (Suc (Suc (Suc (Suc 0)))) True s"
  by (simp add: read_ipv4_def eval_nat_numeral)

lemma read_groups_8: "read_groups 8 = read_groups (Suc 7)"
  by simp

lemma parse_ip_word_None:
  assumes "\<not> is_hexdigit c" and "c \<noteq> CHR '':''"
  shows "parse_ip (c # cs) = None"
proof -
  have "\<not> is_digit c" using assms by (auto simp: is_digit_def is_hexdigit_def Let_def)
  then have 4: "read_ipv4 (c # cs) = None"
    by (simp add: read_ipv4_unfold read_sep_def read_octet_def read_number_def)
  have "read_groups 8 True (c # cs) = ([], False, c # cs)"
    unfolding read_groups_8 read_groups.simps(2) using 4 assms(1) by (simp add: read_sep_def read_group_def read_number_def)
  then have "read_ipv6 (c # cs) = None" using assms(2) by (simp add: read_ipv6_def split: list.splits)
  with 4 show ?thesis by (simp add: parse_ip_def parse_ipv6_def)
qed

lemma lower_char_l: "lower_char c = CHR ''l'' \<Longrightarrow> c = CHR ''l'' \<or> c = CHR ''L''"
proof -
  assume a: "lower_char c = CHR ''l''"
  show ?thesis
  proof (cases "is_upper c")
    case True
    then have "ccode c + 32 < 256" by (simp add: is_upper_def Let_def)
    moreover have "of_char (lower_char c) = (108 :: nat)" using a by simp
    ultimately have "ccode c = ccode (CHR ''L'')" using True by (simp add: lower_char_def)
    then show ?thesis unfolding of_char_eq_iff by (rule disjI2)
  qed (use a in \<open>simp add: lower_char_def\<close>)
qed

lemma localhost_no_ip: "eq_ignore_case host ''localhost'' \<Longrightarrow> parse_ip host = None"
proof -
  assume "eq_ignore_case host ''localhost''"
  then have "to_lower host = ''localhost''"
    by (simp add: eq_ignore_case_def to_lower_def lower_char_def is_upper_def)
  then obtain c cs where "host = c # cs" "lower_char c = CHR ''l''"
    by (cases host) (auto simp: to_lower_def)
  then show ?thesis using lower_char_l [of c] by (auto simp: is_hexdigit_def intro!: parse_ip_word_None)
qed

text \<open>A listener for a loopback host is bound to a loopback address.\<close>

lemma bind_address_loopback:
  assumes "is_loopback host"
  shows "\<exists>ip. parse_ip (bind_address host) = Some ip \<and> ip_is_loopback ip"
proof (cases "parse_ip host")
  case None
  have "parse_ip ''127.0.0.1'' = Some (V4 127 0 0 1)"
    by (simp add: parse_ip_def read_ipv4_unfold read_sep_def read_octet_def read_number_def is_digit_def hex_value_def)
  with None assms show ?thesis by (simp add: bind_address_def)
next
  case (Some ip)
  with assms localhost_no_ip [of host] show ?thesis by (auto simp: is_loopback_def bind_address_def)
qed

text \<open>The servers a caller has to start: for each, the node and model file it is for, and its port.\<close>

definition server_of :: "AgentSpec \<Rightarrow> place_error + AgentRunPlan \<Rightarrow> ((string \<times> string) \<times> string) list" where
  "server_of spec out =
     (case (ag_engine spec, out) of
        (Local path _ _, Inr (RunLocal r)) \<Rightarrow>
          if lr_already_running r then [] else [((lr_node_name r, path), cs_args (lr_serve r) ! 14)]
      | _ \<Rightarrow> [])"

definition servers_to_start ::
    "AgentSpec list \<Rightarrow> (place_error + AgentRunPlan) list \<Rightarrow> ((string \<times> string) \<times> string) list" where
  "servers_to_start specs outs = concat (map2 server_of specs outs)"

lemma servers_simps [simp]:
  "servers_to_start [] outs = []"
  "servers_to_start (spec # specs) (out # outs) = server_of spec out @ servers_to_start specs outs"
  by (simp_all add: servers_to_start_def)

lemma serve_port_arg: "cs_args (build_llama_server p m path bin host port key) ! 14 = show_word port"
  by (simp add: build_llama_server_def Let_def)

lemma serve_shape:
  "\<exists>a b. cs_args (build_llama_server p m path bin host port key) = a @ [''--host'', host, ''--port'', show_word port] @ b"
  unfolding build_llama_server_def Let_def CommandSpec.simps
  by (rule exI [of _ "[''-m'', path, ''-c'', show_word (sat_mul (m_context_len m) (ucast (m_parallel_slots m))), ''-np'',
     show_word (m_parallel_slots m), ''--cont-batching'', ''-b'', show_word (m_batch_size m), ''-ub'', show_word (m_ubatch_size m)]"]) simp

lemma reuse_no_server:
  "(\<exists>r. existing = RunLocal r) \<Longrightarrow> server_of spec (Inr (reuse_local spec' existing)) = []"
  by (auto simp: server_of_def reuse_local_def split: EngineBinding.splits)

lemma length_resolve_from [simp]: "length (resolve_from cluster settings port resident specs) = length specs"
  by (induction cluster settings port resident specs rule: resolve_from.induct)
    (auto simp: Let_def split: sum.splits AgentRunPlan.splits EngineBinding.splits option.splits)

definition local_only :: "(string \<times> string, AgentRunPlan) btree_map \<Rightarrow> bool" where
  "local_only resident = (\<forall>k x. bt_get resident k = Some x \<longrightarrow> (\<exists>r. x = RunLocal r))"

lemma local_onlyD: "local_only m \<Longrightarrow> bt_get m k = Some x \<Longrightarrow> \<exists>r. x = RunLocal r"
  unfolding local_only_def by blast

lemma local_only_insert: "local_only m \<Longrightarrow> local_only (bt_insert k (RunLocal r) m)"
  by (auto simp: local_only_def map_laws)

lemma fresh_insert: "bt_get (bt_insert k' v m) k = None \<Longrightarrow> k \<noteq> k' \<and> bt_get m k = None"
  by (auto simp: map_laws split: if_splits)

text \<open>One step of the loop, by what it does to the servers to start.\<close>

lemma resolve_from_step:
  obtains (idle) out where
      "resolve_from cluster settings port resident (spec # specs) = out # resolve_from cluster settings port resident specs"
      and "local_only resident \<Longrightarrow> server_of spec out = []"
  | (warm) out key r where
      "resolve_from cluster settings port resident (spec # specs)
        = out # resolve_from cluster settings port (bt_insert key (RunLocal r) resident) specs"
      and "server_of spec out = []"
  | (cold) out key r where
      "resolve_from cluster settings port resident (spec # specs)
        = out # resolve_from cluster settings (sat_add port 1) (bt_insert key (RunLocal r) resident) specs"
      and "server_of spec out = [(key, show_word port)]" and "bt_get resident key = None"
proof (cases "\<exists>r path model target. resolve_agent spec cluster settings port = Inr (RunLocal r) \<and> ag_engine spec = Local path model target")
  case False
  then have "resolve_from cluster settings port resident (spec # specs)
      = resolve_agent spec cluster settings port # resolve_from cluster settings port resident specs"
    by (auto simp: Let_def split: sum.splits AgentRunPlan.splits EngineBinding.splits)
  moreover have "server_of spec (resolve_agent spec cluster settings port) = []"
    using False by (auto simp: server_of_def split: EngineBinding.splits sum.splits AgentRunPlan.splits)
  ultimately show ?thesis by (rule idle)
next
  case True
  then obtain r path model target where r: "resolve_agent spec cluster settings port = Inr (RunLocal r)"
    and e: "ag_engine spec = Local path model target" by blast
  have serve: "cs_args (lr_serve r) ! 14 = show_word port"
    using r by (rule resolve_agent_LocalE) (simp add: serve_port_arg)
  show ?thesis
  proof (cases "bt_get resident (lr_node_name r, path)")
    case (Some existing)
    show ?thesis
      by (rule idle [of "Inr (reuse_local spec existing)"])
        (use Some r e in \<open>simp_all add: Let_def reuse_no_server local_onlyD\<close>)
  next
    case None
    show ?thesis
    proof (cases "lr_already_running r")
      case True
      show ?thesis
        by (rule warm [of "Inr (RunLocal r)" "(lr_node_name r, path)" r])
          (use None True r e in \<open>simp_all add: Let_def server_of_def\<close>)
    next
      case False
      show ?thesis
        by (rule cold [of "Inr (RunLocal r)" "(lr_node_name r, path)" r])
          (use None False r e serve in \<open>simp_all add: Let_def server_of_def\<close>)
    qed
  qed
qed

lemma resolve_from_servers:
  assumes "local_only resident" and "unat port + length specs \<le> 65535"
  shows "let sp = servers_to_start specs (resolve_from cluster settings port resident specs)
    in distinct (map fst sp) \<and> (\<forall>k \<in> set (map fst sp). bt_get resident k = None) \<and>
       (\<exists>qs. map snd sp = map show_nat qs \<and> sorted_wrt (<) qs \<and> (\<forall>q \<in> set qs. unat port \<le> q))"
  using assms
proof (induction specs arbitrary: port resident)
  case (Cons spec specs)
  show ?case
  proof (rule resolve_from_step [of cluster settings port resident spec specs])
    fix out
    assume "resolve_from cluster settings port resident (spec # specs) = out # resolve_from cluster settings port resident specs"
      and "local_only resident \<Longrightarrow> server_of spec out = []"
    with Cons.IH [of resident port] Cons.prems show ?thesis by (simp add: Let_def del: resolve_from.simps)
  next
    fix out key r
    assume *: "resolve_from cluster settings port resident (spec # specs)
        = out # resolve_from cluster settings port (bt_insert key (RunLocal r) resident) specs"
      and s: "server_of spec out = []"
    from Cons.prems have "unat port + length specs \<le> 65535" by simp
    from Cons.IH [OF local_only_insert [OF Cons.prems(1)] this, of key r] show ?thesis
      unfolding * servers_simps s by (auto simp: Let_def dest!: fresh_insert)
  next
    fix out key r
    assume *: "resolve_from cluster settings port resident (spec # specs)
        = out # resolve_from cluster settings (sat_add port 1) (bt_insert key (RunLocal r) resident) specs"
      and s: "server_of spec out = [(key, show_word port)]" and n: "bt_get resident key = None"
    have p: "unat (sat_add port 1) = Suc (unat port)" using Cons.prems(2) by (simp add: u_nat)
    let ?sp = "servers_to_start specs (resolve_from cluster settings (sat_add port 1) (bt_insert key (RunLocal r) resident) specs)"
    from Cons.prems p have "unat (sat_add port 1) + length specs \<le> 65535" by simp
    from Cons.IH [OF local_only_insert [OF Cons.prems(1)] this, of key r]
    obtain qs where sp: "distinct (map fst ?sp)" "\<forall>k \<in> set (map fst ?sp). bt_get (bt_insert key (RunLocal r) resident) k = None"
      and qs: "map snd ?sp = map show_nat qs" "sorted_wrt (<) qs" "\<forall>q \<in> set qs. Suc (unat port) \<le> q"
      unfolding Let_def p by blast
    have k: "k \<noteq> key \<and> bt_get resident k = None" if "k \<in> set (map fst ?sp)" for k
      using sp(2) that by (intro fresh_insert) blast
    have ps: "sorted_wrt (<) (unat port # qs)" "\<forall>q \<in> set (unat port # qs). unat port \<le> q"
      using qs(2,3) by (auto simp: Suc_le_eq)
    have "map snd (server_of spec out @ ?sp) = map show_nat (unat port # qs)" using s qs(1) by simp
    moreover have "distinct (map fst (server_of spec out @ ?sp))"
      using s sp(1) k [of key] by (simp del: split_paired_All) blast
    moreover have "\<forall>k \<in> set (map fst (server_of spec out @ ?sp)). bt_get resident k = None" using s n k by auto
    ultimately show ?thesis unfolding * servers_simps Let_def using ps by blast
  qed
qed simp

section \<open>Properties\<close>

text \<open>C14. Serving is fail-closed.  A local binding names a node of the cluster with a well-formed
  address; its server is told to listen on \<open>bind\<close> at the given port; and unless a key is required
  (and handed over in the environment) that address is a loopback address.\<close>

theorem agent_serving_fail_closed:
  assumes "resolve_agent spec cluster settings port = Inr (RunLocal r)"
  shows "(\<exists>host. host_of (ni_address (cl_nodes cluster ! lr_node r)) = Some host \<and>
            lr_endpoint r = ''http://'' @ host @ '':'' @ show_word port) \<and>
    (\<exists>a b. cs_args (lr_serve r) = a @ [''--host'', lr_bind r, ''--port'', show_word port] @ b) \<and>
    (if lr_authenticated r
     then \<exists>key. st_serve_api_key settings = Some key \<and> cs_secret_env (lr_serve r) = [(''LLAMA_API_KEY'', key)]
     else \<exists>ip. parse_ip (lr_bind r) = Some ip \<and> ip_is_loopback ip)"
proof (rule resolve_agent_LocalE [OF assms])
  fix path model target p host
  assume h: "host_of (ni_address (cl_nodes cluster ! lr_node r)) = Some host"
    and safe: "is_loopback host \<or> st_serve_api_key settings \<noteq> None"
    and e: "lr_endpoint r = ''http://'' @ host @ '':'' @ show_word port" and b: "lr_bind r = bind_address host"
    and a: "lr_authenticated r = (st_serve_api_key settings \<noteq> None)"
    and s: "lr_serve r = build_llama_server p model path ''llama-server'' (lr_bind r) port (st_serve_api_key settings)"
  have "if lr_authenticated r
     then \<exists>key. st_serve_api_key settings = Some key \<and> cs_secret_env (lr_serve r) = [(''LLAMA_API_KEY'', key)]
     else \<exists>ip. parse_ip (lr_bind r) = Some ip \<and> ip_is_loopback ip"
    using safe a b s bind_address_loopback [of host]
    by (auto simp: build_llama_server_def Let_def)
  moreover have "\<exists>a b. cs_args (lr_serve r) = a @ [''--host'', lr_bind r, ''--port'', show_word port] @ b"
    unfolding s by (rule serve_shape)
  ultimately show ?thesis using h e by blast
qed

text \<open>Agents share servers and never collide: of the servers a resolved set of agents asks to
  start, no two are for the same model file on the same node and no two are given the same port.\<close>

lemma agents_servers_distinct:
  assumes "length specs \<le> 57435"
  shows "let sp = servers_to_start specs (resolve_agents specs cluster settings)
    in length (resolve_agents specs cluster settings) = length specs \<and>
       distinct (map fst sp) \<and> distinct (map snd sp)"
proof -
  let ?sp = "servers_to_start specs (resolve_agents specs cluster settings)"
  have "unat (8100 :: u16) + length specs \<le> 65535" using assms by simp
  then obtain qs where d: "distinct (map fst ?sp)" and qs: "map snd ?sp = map show_nat qs" "sorted_wrt (<) qs"
    using resolve_from_servers [of "[]" 8100 specs cluster settings]
    unfolding resolve_agents_def Let_def local_only_def by auto
  have "inj show_nat" by (rule injI) (rule show_nat_inj)
  then have "distinct (map show_nat qs)"
    using sorted_lt_distinct [OF qs(2)] by (auto simp: distinct_map intro: inj_on_subset)
  with d qs(1) show ?thesis unfolding Let_def by (simp add: resolve_agents_def)
qed

definition example_agent :: AgentSpec where
  "example_agent = \<lparr>ag_name = ''coder'', ag_role = [], ag_engine = Local ''/m.gguf'' example_model (Node ''a'')\<rparr>"

definition example_host :: Cluster where
  "example_host = \<lparr>cl_nodes = [\<lparr>ni_name = ''a'', ni_address = ''localhost'', ni_topology = example_topo 1,
     ni_assessments = classify_topology (example_topo 1) example_db, ni_resident = []\<rparr>], cl_network = Consumer\<rparr>"

theorem agent_serving_fail_closed_witness:
  "\<exists>r. resolve_agent example_agent example_host Settings_default 8100 = Inr (RunLocal r) \<and>
     (\<exists>ip. parse_ip (lr_bind r) = Some ip \<and> ip_is_loopback ip)"
proof -
  obtain p where p: "plan (example_topo 1) (classify_topology (example_topo 1) example_db) example_model Inference
      Settings_default = Inr p"
    using example_plan_ok by (metis isl_def sum.exhaust)
  have "parse_ip ''localhost'' = None" by (rule parse_ip_word_None) (simp_all add: is_hexdigit_def)
  then have h: "host_of ''localhost'' = Some ''localhost''" "is_loopback ''localhost''"
    by (simp_all add: host_of_def is_loopback_def eq_ignore_case_def)
  obtain r where r: "resolve_agent example_agent example_host Settings_default 8100 = Inr (RunLocal r)"
    using p h by (simp add: resolve_agent_def example_agent_def example_host_def agent_node_def Let_def)
  have "\<not> lr_authenticated r" using r by (rule resolve_agent_LocalE) (simp add: Settings_default_def)
  with agent_serving_fail_closed [OF r] r show ?thesis by auto
qed

end
