(* ===== verification/Auth.thy ===== *)
theory Auth
  imports Pairing
begin

text \<open>
  \<open>cameod/src/auth.rs\<close>: roles, the key ring, the deployment posture and the keys file.  The file's
  metadata are an argument of \<open>load_keys_file\<close>, and reading its text as JSON entries is a parameter.
\<close>

section \<open>Model\<close>

definition MIN_SECRET_BYTES :: nat where
  "MIN_SECRET_BYTES = 16"

definition MAX_SECRET_BYTES :: nat where
  "MAX_SECRET_BYTES = 4096"

definition MAX_KEYS_FILE_BYTES :: u64 where
  "MAX_KEYS_FILE_BYTES = 1024 * 1024"

definition MAX_KEY_LABEL_BYTES :: nat where
  "MAX_KEY_LABEL_BYTES = 128"

datatype Role = Operator | Consumer

record ApiKey =
  ak_key :: string
  ak_role :: Role
  ak_label :: string

datatype Posture = SelfHost | MultiTenant

definition posture_parse :: "string \<Rightarrow> Posture option" where
  "posture_parse s =
     (let p = to_lower s
      in if p \<in> set [''self-host'', ''selfhost'', ''self'', ''single'', ''single-tenant''] then Some SelfHost
         else if p \<in> set [''multi-tenant'', ''multitenant'', ''multi'', ''enterprise''] then Some MultiTenant
         else None)"

definition allows_local_harness :: "Posture \<Rightarrow> bool" where
  "allows_local_harness p = (p = SelfHost)"

type_synonym KeyRing = "ApiKey list"

datatype secret_defect = TooShort | TooLong | BadCharacters

definition validate_secret :: "string \<Rightarrow> secret_defect option" where
  "validate_secret secret =
     (if length secret < MIN_SECRET_BYTES then Some TooShort
      else if MAX_SECRET_BYTES < length secret then Some TooLong
      else if trim secret \<noteq> secret \<or> list_ex is_control secret then Some BadCharacters
      else None)"

definition byte_of :: "char \<Rightarrow> u8" where
  "byte_of c = of_nat (ccode c)"

definition ct_eq :: "string \<Rightarrow> string \<Rightarrow> bool" where
  "ct_eq a b =
     (length a = length b \<and>
      foldl (\<lambda>acc (x, y). acc OR (x XOR y)) 0 (zip (map byte_of a) (map byte_of b)) = 0)"

definition role_of :: "KeyRing \<Rightarrow> string option \<Rightarrow> Role option" where
  "role_of keys presented =
     (case presented of
        None \<Rightarrow> None
      | Some p \<Rightarrow> map_option ak_role (find (\<lambda>k. ct_eq p (ak_key k)) keys))"

definition requires_operator :: "KeyRing \<Rightarrow> bool" where
  "requires_operator keys = list_ex (\<lambda>k. ak_role k = Operator) keys"

definition operator_key :: "KeyRing \<Rightarrow> string option" where
  "operator_key keys = map_option ak_key (find (\<lambda>k. ak_role k = Operator) keys)"

definition requires_consumer :: "KeyRing \<Rightarrow> bool" where
  "requires_consumer keys = list_ex (\<lambda>k. ak_role k = Consumer) keys"

definition is_operator :: "KeyRing \<Rightarrow> string option \<Rightarrow> bool" where
  "is_operator keys presented = (role_of keys presented = Some Operator)"

definition is_consumer_or_better :: "KeyRing \<Rightarrow> string option \<Rightarrow> bool" where
  "is_consumer_or_better keys presented = (role_of keys presented \<noteq> None)"

record KeyFileEntry =
  kf_key :: string
  kf_role :: string
  kf_label :: string

datatype keys_error =
    SymlinkedFile | NotRegular | FileTooLarge | OpenPermissions | Unreadable | NotJson
  | UnknownRole string | BadSecret secret_defect | DuplicateKey | BadKeyLabel

definition role_parse :: "string \<Rightarrow> Role option" where
  "role_parse s =
     (let r = to_lower s
      in if r \<in> set [''operator'', ''admin''] then Some Operator
         else if r \<in> set [''consumer'', ''user'', ''inference''] then Some Consumer
         else None)"

fun parse_entries :: "string list \<Rightarrow> KeyFileEntry list \<Rightarrow> keys_error + ApiKey list" where
  "parse_entries seen [] = Inr []"
| "parse_entries seen (e # es) =
     (case role_parse (kf_role e) of
        None \<Rightarrow> Inl (UnknownRole (to_lower (kf_role e)))
      | Some role \<Rightarrow>
          (case validate_secret (kf_key e) of
             Some d \<Rightarrow> Inl (BadSecret d)
           | None \<Rightarrow>
               if kf_key e \<in> set seen then Inl DuplicateKey
               else if MAX_KEY_LABEL_BYTES < length (kf_label e) \<or> list_ex is_control (kf_label e)
               then Inl BadKeyLabel
               else case parse_entries (kf_key e # seen) es of
                 Inl err \<Rightarrow> Inl err
               | Inr ks \<Rightarrow> Inr (\<lparr>ak_key = kf_key e, ak_role = role, ak_label = kf_label e\<rparr> # ks)))"

definition parse_keys :: "(string \<Rightarrow> KeyFileEntry list option) \<Rightarrow> string \<Rightarrow> keys_error + ApiKey list" where
  "parse_keys from_json raw =
     (case from_json raw of None \<Rightarrow> Inl NotJson | Some entries \<Rightarrow> parse_entries [] entries)"

record Metadata =
  md_is_symlink :: bool
  md_is_file :: bool
  md_len :: u64
  md_mode :: u32

definition load_keys_file ::
    "(string \<Rightarrow> KeyFileEntry list option) \<Rightarrow> Metadata option \<Rightarrow> string option \<Rightarrow> keys_error + ApiKey list" where
  "load_keys_file from_json metadata contents =
     (case metadata of
        None \<Rightarrow> Inl Unreadable
      | Some md \<Rightarrow>
          if md_is_symlink md then Inl SymlinkedFile
          else if \<not> md_is_file md then Inl NotRegular
          else if MAX_KEYS_FILE_BYTES < md_len md then Inl FileTooLarge
          else if md_mode md AND 0x3F \<noteq> 0 then Inl OpenPermissions
          else case contents of None \<Rightarrow> Inl Unreadable | Some raw \<Rightarrow> parse_keys from_json raw)"

section \<open>Lemmas\<close>

lemma byte_of_eq_iff [simp]: "byte_of a = byte_of b \<longleftrightarrow> a = b"
proof
  assume "byte_of a = byte_of b"
  then have "unat (byte_of a) = unat (byte_of b)" by simp
  then show "a = b" by (simp add: byte_of_def unat_of_nat)
qed simp

text \<open>The constant-time comparison is equality.\<close>

lemma ct_eq_iff [simp]: "ct_eq a b \<longleftrightarrow> a = b"
proof (cases "length a = length b")
  case True
  then show ?thesis unfolding ct_eq_def foldl_or_zero by (induction a b rule: list_induct2) auto
qed (auto simp: ct_eq_def)

lemma find_key: "find (\<lambda>k. p = ak_key k) keys = Some k \<Longrightarrow> k \<in> set keys \<and> ak_key k = p"
  by (auto simp: find_Some_iff)

lemma find_key_unique:
  assumes "distinct (map ak_key keys)" and "k \<in> set keys"
  shows "find (\<lambda>k'. ak_key k = ak_key k') keys = Some k"
  using assms
proof (induction keys)
  case (Cons a keys)
  show ?case
  proof (cases "k = a")
    case False
    with Cons.prems have k: "k \<in> set keys" by simp
    then have in_keys: "ak_key k \<in> ak_key ` set keys" by (rule imageI)
    have "ak_key a \<notin> ak_key ` set keys" using Cons.prems(1) by simp
    then have "ak_key k \<noteq> ak_key a" using in_keys by metis
    with k Cons show ?thesis by simp
  qed simp
qed simp

lemma role_of_distinct:
  assumes "distinct (map ak_key keys)"
  shows "role_of keys (Some p) = Some r \<longleftrightarrow> (\<exists>k \<in> set keys. ak_key k = p \<and> ak_role k = r)"
proof
  assume "role_of keys (Some p) = Some r"
  then show "\<exists>k \<in> set keys. ak_key k = p \<and> ak_role k = r" by (auto simp: role_of_def dest: find_key)
next
  assume "\<exists>k \<in> set keys. ak_key k = p \<and> ak_role k = r"
  then obtain k where "k \<in> set keys" "ak_key k = p" "ak_role k = r" by blast
  with find_key_unique [OF assms this(1)] show "role_of keys (Some p) = Some r" by (simp add: role_of_def)
qed

lemma is_operator_key: "is_operator keys presented \<Longrightarrow> \<exists>k \<in> set keys. presented = Some (ak_key k) \<and> ak_role k = Operator"
  by (auto simp: is_operator_def role_of_def split: option.splits dest!: find_key)

lemma is_consumer_key: "is_consumer_or_better keys presented \<Longrightarrow> \<exists>k \<in> set keys. presented = Some (ak_key k)"
  by (auto simp: is_consumer_or_better_def role_of_def split: option.splits dest!: find_key)

lemma parse_entries_Inr:
  "parse_entries seen es = Inr ks \<Longrightarrow>
     map ak_key ks = map kf_key es \<and> map (Some \<circ> ak_role) ks = map (role_parse \<circ> kf_role) es \<and>
     distinct (map kf_key es) \<and> set (map kf_key es) \<inter> set seen = {} \<and>
     list_all (\<lambda>k. validate_secret (ak_key k) = None) ks"
proof (induction seen es arbitrary: ks rule: parse_entries.induct)
  case (2 seen e es)
  from "2.prems" obtain role ks' where r: "role_parse (kf_role e) = Some role" and v: "validate_secret (kf_key e) = None"
    and s: "kf_key e \<notin> set seen" and l: "\<not> (MAX_KEY_LABEL_BYTES < length (kf_label e) \<or> list_ex is_control (kf_label e))"
    and p: "parse_entries (kf_key e # seen) es = Inr ks'"
    and ks: "ks = \<lparr>ak_key = kf_key e, ak_role = role, ak_label = kf_label e\<rparr> # ks'"
    by (auto split: option.splits if_splits sum.splits)
  from "2.IH" [OF r v s l p] r v s show ?case by (auto simp: ks)
qed simp

section \<open>Properties\<close>

text \<open>A keys file grants exactly what it lists.  When a file is accepted it is a private regular
  file of at most 1 MiB, its keys are pairwise different secrets of 16 to 4096 bytes, and a presented
  token has a role precisely when some entry of the file carries that very token with that role.\<close>

lemma keys_file_grants:
  assumes "load_keys_file from_json md contents = Inr keys"
  shows "\<exists>m raw entries. md = Some m \<and> md_is_file m \<and> \<not> md_is_symlink m \<and> md_mode m AND 0x3F = 0 \<and>
      contents = Some raw \<and> from_json raw = Some entries \<and>
      distinct (map ak_key keys) \<and>
      (\<forall>k \<in> set keys. 16 \<le> length (ak_key k) \<and> length (ak_key k) \<le> 4096) \<and>
      (\<forall>p r. role_of keys (Some p) = Some r \<longleftrightarrow>
         (\<exists>e \<in> set entries. kf_key e = p \<and> role_parse (kf_role e) = Some r))"
proof -
  obtain m raw entries where m: "md = Some m" "md_is_file m" "\<not> md_is_symlink m" "md_mode m AND 0x3F = 0"
    and raw: "contents = Some raw" "from_json raw = Some entries" and p: "parse_entries [] entries = Inr keys"
    using assms by (auto simp: load_keys_file_def parse_keys_def split: option.splits if_splits)
  note k = parse_entries_Inr [OF p]
  have len: "\<forall>k \<in> set keys. 16 \<le> length (ak_key k) \<and> length (ak_key k) \<le> 4096"
    using k by (auto simp: list_all_iff validate_secret_def MIN_SECRET_BYTES_def MAX_SECRET_BYTES_def split: if_splits)
  have "set (map (\<lambda>k. (ak_key k, Some (ak_role k))) keys) = set (map (\<lambda>e. (kf_key e, role_parse (kf_role e))) entries)"
    using k by (intro arg_cong [where f = set]) (simp add: list_eq_iff_nth_eq comp_def)
  then have "(\<exists>k \<in> set keys. ak_key k = q \<and> ak_role k = r) \<longleftrightarrow>
      (\<exists>e \<in> set entries. kf_key e = q \<and> role_parse (kf_role e) = Some r)" for q r
    by (auto simp: set_eq_iff image_iff) (metis option.inject)+
  moreover have dist: "distinct (map ak_key keys)" using k by simp
  ultimately have "\<forall>q r. role_of keys (Some q) = Some r \<longleftrightarrow> (\<exists>e \<in> set entries. kf_key e = q \<and> role_parse (kf_role e) = Some r)"
    by (simp add: role_of_distinct)
  with m raw dist len show ?thesis by blast
qed

end
