(* ===== verification/Http.thy ===== *)
theory Http
  imports Net Pairing "HOL-Library.Product_Lexorder"
begin

text \<open>
  \<open>cameod/src/http.rs\<close>: connection admission, the request parser, the \<open>/field/\<close> head rewriter and the
  response writer.  A connection is the list of bytes it will deliver before it ends.  UTF-8 validity
  and the display of IP addresses are the standard library's; white space and letter case are their
  ASCII part.  Sockets, TLS, timeouts and streaming responses are not modelled.
\<close>

section \<open>Connection admission\<close>

definition MAX_CONNECTIONS :: nat where
  "MAX_CONNECTIONS = 64"

definition MAX_CONNECTIONS_PER_PEER :: nat where
  "MAX_CONNECTIONS_PER_PEER = 16"

record Slots =
  sl_total :: nat
  sl_per_peer :: "(IpAddr, nat) hash_map"

definition slots_default :: Slots where
  "slots_default = \<lparr>sl_total = 0, sl_per_peer = []\<rparr>"

text \<open>The result is the peer the slot is counted for, as kept in \<open>ConnectionSlot::peer\<close>.\<close>

definition slot_admit :: "IpAddr option \<Rightarrow> Slots \<Rightarrow> IpAddr option option \<times> Slots" where
  "slot_admit peer st =
     (if \<not> sl_total st < MAX_CONNECTIONS then (None, st)
      else let st1 = st\<lparr>sl_total := sl_total st + 1\<rparr>
      in case peer of
           None \<Rightarrow> (Some None, st1)
         | Some ip \<Rightarrow>
             if ip_is_loopback ip then (Some None, st1)
             else let n = (case hm_get (sl_per_peer st1) ip of None \<Rightarrow> 0 | Some n \<Rightarrow> n);
                      st2 = st1\<lparr>sl_per_peer := hm_insert ip n (sl_per_peer st1)\<rparr>
                  in if MAX_CONNECTIONS_PER_PEER \<le> n then (None, st2\<lparr>sl_total := sl_total st2 - 1\<rparr>)
                     else (Some (Some ip), st2\<lparr>sl_per_peer := hm_insert ip (n + 1) (sl_per_peer st2)\<rparr>))"

definition slot_drop :: "IpAddr option \<Rightarrow> Slots \<Rightarrow> Slots" where
  "slot_drop peer st =
     (let st1 = st\<lparr>sl_total := sl_total st - 1\<rparr>
      in case peer of
           None \<Rightarrow> st1
         | Some ip \<Rightarrow>
             (case hm_get (sl_per_peer st1) ip of
                None \<Rightarrow> st1
              | Some n \<Rightarrow>
                  if n - 1 = 0 then st1\<lparr>sl_per_peer := hm_remove ip (sl_per_peer st1)\<rparr>
                  else st1\<lparr>sl_per_peer := hm_insert ip (n - 1) (sl_per_peer st1)\<rparr>))"

section \<open>Requests and responses\<close>

definition MAX_REQUEST_BODY_BYTES :: nat where
  "MAX_REQUEST_BODY_BYTES = 1024 * 1024"

definition MAX_HEAD :: nat where
  "MAX_HEAD = 32 * 1024"

record Request =
  rq_method :: string
  rq_path :: string
  rq_query :: "(string, string) hash_map"
  rq_headers :: "(string, string) hash_map"
  rq_body :: string
  rq_from_unix :: bool
  rq_peer_ip :: "IpAddr option"

definition header :: "Request \<Rightarrow> string \<Rightarrow> string option" where
  "header req name = hm_get (rq_headers req) (to_lower name)"

definition segments :: "Request \<Rightarrow> string list" where
  "segments req = filter (\<lambda>s. s \<noteq> []) (split_on (CHR ''/'') (rq_path req))"

record Response =
  rs_status :: u16
  rs_content_type :: string
  rs_body :: string
  rs_extra_headers :: "(string \<times> string) list"

definition response_new :: "u16 \<Rightarrow> string \<Rightarrow> string \<Rightarrow> Response" where
  "response_new status content_type body =
     \<lparr>rs_status = status, rs_content_type = content_type, rs_body = body, rs_extra_headers = []\<rparr>"

definition with_header :: "string \<Rightarrow> string \<Rightarrow> Response \<Rightarrow> Response" where
  "with_header k v r = r\<lparr>rs_extra_headers := rs_extra_headers r @ [(k, v)]\<rparr>"

definition redirect :: "string \<Rightarrow> Response" where
  "redirect location = with_header ''Location'' location (response_new 307 ''text/plain; charset=utf-8'' [])"

definition no_store :: "Response \<Rightarrow> Response" where
  "no_store r = with_header ''Cache-Control'' ''no-store'' r"

section \<open>Text of the wire\<close>

abbreviation crlf :: string where
  "crlf \<equiv> [carriage, newline]"

definition TOKEN_MARKS :: string where
  "TOKEN_MARKS = ''!#$%&'' @ [squote] @ ''*+-.^_'' @ [CHR 0x60] @ ''|~''"

definition is_token_char :: "char \<Rightarrow> bool" where
  "is_token_char c = (is_alnum c \<or> c \<in> set TOKEN_MARKS)"

text \<open>Well-formed UTF-8, by the table of the Unicode standard: a leading byte says which ranges the
  following bytes must lie in.\<close>

definition utf8_lead :: "char \<Rightarrow> (nat \<times> nat) list option" where
  "utf8_lead c =
     (let n = ccode c
      in if n < 0x80 then Some []
         else if 0xC2 \<le> n \<and> n \<le> 0xDF then Some [(0x80, 0xBF)]
         else if n = 0xE0 then Some [(0xA0, 0xBF), (0x80, 0xBF)]
         else if n = 0xED then Some [(0x80, 0x9F), (0x80, 0xBF)]
         else if 0xE1 \<le> n \<and> n \<le> 0xEF then Some [(0x80, 0xBF), (0x80, 0xBF)]
         else if n = 0xF0 then Some [(0x90, 0xBF), (0x80, 0xBF), (0x80, 0xBF)]
         else if 0xF1 \<le> n \<and> n \<le> 0xF3 then Some [(0x80, 0xBF), (0x80, 0xBF), (0x80, 0xBF)]
         else if n = 0xF4 then Some [(0x80, 0x8F), (0x80, 0xBF), (0x80, 0xBF)]
         else None)"

fun utf8_run :: "(nat \<times> nat) list \<Rightarrow> string \<Rightarrow> bool" where
  "utf8_run due [] = (due = [])"
| "utf8_run due (c # cs) =
     (case due of
        [] \<Rightarrow> (case utf8_lead c of None \<Rightarrow> False | Some due' \<Rightarrow> utf8_run due' cs)
      | (lo, hi) # due' \<Rightarrow> lo \<le> ccode c \<and> ccode c \<le> hi \<and> utf8_run due' cs)"

definition utf8_valid :: "string \<Rightarrow> bool" where
  "utf8_valid s = utf8_run [] s"

text \<open>\<open>read_line\<close> through a reader limited to \<open>n\<close> more bytes: the line, the limit left, the rest.\<close>

definition read_line :: "nat \<Rightarrow> string \<Rightarrow> string \<times> nat \<times> string" where
  "read_line n s =
     (let avail = take n s;
          body = takeWhile (\<lambda>c. c \<noteq> newline) avail;
          line = (if length body < length avail then body @ [newline] else body)
      in (line, n - length line, drop (length line) s))"

definition trim_crlf :: "string \<Rightarrow> string" where
  "trim_crlf h = rev (dropWhile (\<lambda>c. c = carriage \<or> c = newline) (rev h))"

section \<open>The request parser\<close>

datatype ParseError = Empty | Malformed | TooLarge | Io

record Head =
  hd_method :: string
  hd_target :: string
  hd_version :: string
  hd_headers :: "(string, string) hash_map"

definition cut_short :: "nat \<Rightarrow> ParseError" where
  "cut_short limit = (if limit = 0 then TooLarge else Malformed)"

definition bad_value :: "string \<Rightarrow> bool" where
  "bad_value v = list_ex (\<lambda>b. ccode b < 0x20 \<and> ccode b \<noteq> 9) v"

definition parse_header :: "string \<Rightarrow> (string, string) hash_map \<Rightarrow> (string, string) hash_map option" where
  "parse_header trimmed headers =
     (case split_once (CHR '':'') trimmed of
        None \<Rightarrow> None
      | Some (k, v) \<Rightarrow>
          (let key = to_lower (trim k); val = trim v
           in if key = [] \<or> \<not> list_all is_token_char key \<or> bad_value val \<or> hm_get headers key \<noteq> None
              then None else Some (hm_insert key val headers)))"

lemma read_line_shorter: "read_line n s = (h, n', s') \<Longrightarrow> h \<noteq> [] \<Longrightarrow> length s' < length s"
proof -
  assume r: "read_line n s = (h, n', s')" and "h \<noteq> []"
  then have "s \<noteq> []" by (auto simp: read_line_def Let_def split: if_splits)
  with r \<open>h \<noteq> []\<close> show ?thesis by (auto simp: read_line_def Let_def)
qed

function read_headers ::
    "nat \<Rightarrow> string \<Rightarrow> (string, string) hash_map \<Rightarrow> ParseError + (string, string) hash_map \<times> string" where
  "read_headers n s headers =
     (case read_line n s of (h, n', s') \<Rightarrow>
        if \<not> utf8_valid h then Inl Io
        else if h = [] then Inl (cut_short n')
        else if \<not> ends_with h crlf then Inl (cut_short n')
        else if trim_crlf h = [] then Inr (headers, s')
        else case parse_header (trim_crlf h) headers of
          None \<Rightarrow> Inl Malformed
        | Some headers' \<Rightarrow> read_headers n' s' headers')"
  by pat_completeness auto

termination read_headers
  by (relation "measure (\<lambda>(n, s, headers). length s)") (auto dest: read_line_shorter [OF sym])

declare read_headers.simps [simp del]

definition parse_head :: "string \<Rightarrow> ParseError + Head \<times> string" where
  "parse_head s =
     (case read_line MAX_HEAD s of (line, n, s') \<Rightarrow>
        if \<not> utf8_valid line then Inl Io
        else if line = [] then Inl Empty
        else if \<not> ends_with line crlf then Inl (cut_short n)
        else case split_whitespace line of
          [method, target, version] \<Rightarrow>
            if version \<notin> {''HTTP/1.0'', ''HTTP/1.1''} \<or> method = [] \<or> \<not> list_all is_token_char method \<or>
               \<not> starts_with target ''/'' \<or> CHR ''#'' \<in> set target \<or>
               list_ex (\<lambda>b. ccode b < 0x21 \<or> ccode b = 0x7F) target
            then Inl Malformed
            else (case read_headers n s' [] of
                    Inl e \<Rightarrow> Inl e
                  | Inr (headers, rest) \<Rightarrow>
                      if version = ''HTTP/1.1'' \<and> hm_get headers ''host'' = None then Inl Malformed
                      else Inr (\<lparr>hd_method = method, hd_target = target, hd_version = version,
                                 hd_headers = headers\<rparr>, rest))
        | _ \<Rightarrow> Inl Malformed)"

fun decode_bytes :: "bool \<Rightarrow> string \<Rightarrow> string option" where
  "decode_bytes plus_as_space [] = Some []"
| "decode_bytes plus_as_space (c # cs) =
     (if c = CHR ''%'' then
        (case cs of
           h # l # rest \<Rightarrow>
             if is_hexdigit h \<and> is_hexdigit l
             then map_option ((#) (char_of (hex_value h * 16 + hex_value l))) (decode_bytes plus_as_space rest)
             else None
         | _ \<Rightarrow> None)
      else if c = CHR ''+'' \<and> plus_as_space then map_option ((#) (CHR '' '')) (decode_bytes plus_as_space cs)
      else map_option ((#) c) (decode_bytes plus_as_space cs))"

definition percent_decode :: "string \<Rightarrow> bool \<Rightarrow> ParseError + string" where
  "percent_decode s plus_as_space =
     (case decode_bytes plus_as_space s of
        None \<Rightarrow> Inl Malformed
      | Some out \<Rightarrow>
          if list_ex (\<lambda>b. ccode b = 0 \<or> b = carriage \<or> b = newline \<or> ccode b = 0x7F) out then Inl Malformed
          else if utf8_valid out then Inr out else Inl Malformed)"

fun decode_pairs :: "string list \<Rightarrow> (string, string) hash_map \<Rightarrow> ParseError + (string, string) hash_map" where
  "decode_pairs [] m = Inr m"
| "decode_pairs (pair # pairs) m =
     (let (k, v) = (case split_once (CHR ''='') pair of Some kv \<Rightarrow> kv | None \<Rightarrow> (pair, []))
      in case percent_decode k True of
           Inl e \<Rightarrow> Inl e
         | Inr k' \<Rightarrow>
             (case percent_decode v True of
                Inl e \<Rightarrow> Inl e
              | Inr v' \<Rightarrow> decode_pairs pairs (hm_insert k' v' m)))"

definition split_target :: "string \<Rightarrow> ParseError + string \<times> (string, string) hash_map" where
  "split_target target =
     (let (path, query) = (case split_once (CHR ''?'') target of Some pq \<Rightarrow> pq | None \<Rightarrow> (target, []))
      in case decode_pairs (filter (\<lambda>s. s \<noteq> []) (split_on (CHR ''&'') query)) [] of
           Inl e \<Rightarrow> Inl e
         | Inr m \<Rightarrow>
             (case percent_decode path False of
                Inl e \<Rightarrow> Inl e
              | Inr path' \<Rightarrow>
                  if list_ex (\<lambda>b. ccode b = 0 \<or> ccode b < 0x20 \<or> ccode b = 0x7F) path' then Inl Malformed
                  else Inr (path', m)))"

definition FIELD_PREFIX :: string where
  "FIELD_PREFIX = ''/field''"

datatype FieldRoute = Redirect string | Forward string

definition field_route :: "string \<Rightarrow> FieldRoute option" where
  "field_route target =
     (case strip_prefix FIELD_PREFIX target of
        None \<Rightarrow> None
      | Some [] \<Rightarrow> Some (Redirect (FIELD_PREFIX @ ''/''))
      | Some (c # cs) \<Rightarrow>
          if c = CHR ''?'' then Some (Redirect (FIELD_PREFIX @ ''/'' @ (c # cs)))
          else if c = CHR ''/'' then Some (Forward (c # cs))
          else None)"

datatype Parsed = ParsedRequest Request | FieldRedirect string | Field Head string

definition read_body :: "string option \<Rightarrow> string \<Rightarrow> ParseError + string \<times> string" where
  "read_body content_length s =
     (case content_length of
        None \<Rightarrow> Inr ([], s)
      | Some text \<Rightarrow>
          (case parse_usize text of
             None \<Rightarrow> Inl Malformed
           | Some len \<Rightarrow>
               if MAX_REQUEST_BODY_BYTES < len then Inl TooLarge
               else if length s < len then Inl Io
               else Inr (take len s, drop len s)))"

definition parse_own :: "Head \<Rightarrow> string \<Rightarrow> ParseError + Parsed \<times> string" where
  "parse_own head s =
     (if hd_method head \<notin> {''GET'', ''POST'', ''DELETE''} then Inl Malformed
      else if hm_get (hd_headers head) ''transfer-encoding'' \<noteq> None then Inl Malformed
      else case split_target (hd_target head) of
        Inl e \<Rightarrow> Inl e
      | Inr (path, query) \<Rightarrow>
          (case read_body (hm_get (hd_headers head) ''content-length'') s of
             Inl e \<Rightarrow> Inl e
           | Inr (body, rest) \<Rightarrow>
               Inr (ParsedRequest \<lparr>rq_method = hd_method head, rq_path = path, rq_query = query,
                      rq_headers = hd_headers head, rq_body = body, rq_from_unix = False,
                      rq_peer_ip = None\<rparr>, rest)))"

definition parse_incoming :: "bool \<Rightarrow> string \<Rightarrow> ParseError + Parsed \<times> string" where
  "parse_incoming field s =
     (case parse_head s of
        Inl e \<Rightarrow> Inl e
      | Inr (head, rest) \<Rightarrow>
          (case (if field then field_route (hd_target head) else None) of
             Some (Redirect location) \<Rightarrow> Inr (FieldRedirect location, rest)
           | Some (Forward target) \<Rightarrow> Inr (Field head target, rest)
           | None \<Rightarrow> parse_own head rest))"

definition parse_request :: "string \<Rightarrow> ParseError + Request \<times> string" where
  "parse_request s =
     (case parse_incoming False s of
        Inl e \<Rightarrow> Inl e
      | Inr (ParsedRequest r, rest) \<Rightarrow> Inr (r, rest)
      | Inr _ \<Rightarrow> Inl Malformed)"

section \<open>The head sent to Field\<close>

fun show_hex :: "nat \<Rightarrow> string" where
  "show_hex n = (if n < 16 then [hex_digit n] else show_hex (n div 16) @ [hex_digit (n mod 16)])"

declare show_hex.simps [simp del]

definition ipv6_segments :: "128 word \<Rightarrow> nat list" where
  "ipv6_segments w = map (\<lambda>i. unat w div 65536 ^ (7 - i) mod 65536) [0..<8]"

text \<open>The first longest run of zero segments: start and length (\<open>fold\<close> over the segments with the
  current and the longest run so far).\<close>

fun zero_runs :: "nat \<Rightarrow> nat \<times> nat \<Rightarrow> nat \<times> nat \<Rightarrow> nat list \<Rightarrow> nat \<times> nat" where
  "zero_runs i cur longest [] = longest"
| "zero_runs i cur longest (g # gs) =
     (if g = 0 then
        (let cur' = (if snd cur = 0 then (i, 1) else (fst cur, snd cur + 1))
         in zero_runs (i + 1) cur' (if snd longest < snd cur' then cur' else longest) gs)
      else zero_runs (i + 1) (0, 0) longest gs)"

definition show_groups :: "nat list \<Rightarrow> string" where
  "show_groups gs = join '':'' (map show_hex gs)"

definition show_v4 :: "nat \<Rightarrow> nat \<Rightarrow> nat \<Rightarrow> nat \<Rightarrow> string" where
  "show_v4 a b c d = join ''.'' (map show_nat [a, b, c, d])"

fun show_ip :: "IpAddr \<Rightarrow> string" where
  "show_ip (V4 a b c d) = show_v4 (unat a) (unat b) (unat c) (unat d)"
| "show_ip (V6 w) =
     (let gs = ipv6_segments w
      in if take 6 gs = [0, 0, 0, 0, 0, 65535]
         then ''::ffff:'' @ show_v4 (gs ! 6 div 256) (gs ! 6 mod 256) (gs ! 7 div 256) (gs ! 7 mod 256)
         else case zero_runs 0 (0, 0) (0, 0) gs of
           (start, len) \<Rightarrow>
             if 1 < len then show_groups (take start gs) @ ''::'' @ show_groups (drop (start + len) gs)
             else show_groups gs)"

fun show_socket :: "IpAddr \<times> u16 \<Rightarrow> string" where
  "show_socket (V4 a b c d, port) = show_ip (V4 a b c d) @ '':'' @ show_word port"
| "show_socket (V6 w, port) = ''['' @ show_ip (V6 w) @ '']:'' @ show_word port"

definition wants_upgrade :: "(string, string) hash_map \<Rightarrow> bool" where
  "wants_upgrade headers =
     (case hm_get headers ''connection'' of
        None \<Rightarrow> False
      | Some v \<Rightarrow> list_ex (\<lambda>t. eq_ignore_case (trim t) ''upgrade'') (split_on (CHR '','') v))"

definition field_headers :: "(string, string) hash_map \<Rightarrow> IpAddr \<times> u16 \<Rightarrow> bool \<Rightarrow> IpAddr option \<Rightarrow> (string, string) hash_map" where
  "field_headers headers upstream secure peer_ip =
     (let h1 = hm_insert ''host'' (show_socket upstream) headers;
          h2 = (case hm_get headers ''host'' of
                  Some original \<Rightarrow> hm_insert ''x-forwarded-host'' original h1
                | None \<Rightarrow> hm_remove ''x-forwarded-host'' h1);
          h3 = hm_insert ''x-forwarded-proto'' (if secure then ''https'' else ''http'') h2;
          h4 = (case peer_ip of
                  Some ip \<Rightarrow> hm_insert ''x-forwarded-for'' (show_ip ip) h3
                | None \<Rightarrow> hm_remove ''x-forwarded-for'' h3)
      in if wants_upgrade h4 then h4 else hm_insert ''connection'' ''close'' h4)"

definition head_line :: "string \<times> string \<Rightarrow> string" where
  "head_line = (\<lambda>(name, val). name @ '': '' @ val @ crlf)"

definition head_text :: "string \<Rightarrow> string \<Rightarrow> string \<Rightarrow> (string \<times> string) list \<Rightarrow> string" where
  "head_text method target version headers =
     method @ '' '' @ target @ '' '' @ version @ crlf @ concat (map head_line headers) @ crlf"

definition field_request_head :: "Head \<Rightarrow> string \<Rightarrow> IpAddr \<times> u16 \<Rightarrow> bool \<Rightarrow> IpAddr option \<Rightarrow> string" where
  "field_request_head head target upstream secure peer_ip =
     head_text (hd_method head) target (hd_version head)
       (sort (field_headers (hd_headers head) upstream secure peer_ip))"

section \<open>Writing a response\<close>

definition safe_header_name :: "string \<Rightarrow> string option" where
  "safe_header_name v = (if v \<noteq> [] \<and> list_all is_token_char v then Some v else None)"

definition safe_header_value :: "string \<Rightarrow> string option" where
  "safe_header_value v =
     (if \<not> list_ex (\<lambda>b. b = carriage \<or> b = newline \<or> (ccode b < 0x20 \<and> ccode b \<noteq> 9)) v then Some v else None)"

definition reason_phrase :: "u16 \<Rightarrow> string" where
  "reason_phrase status =
     (if status = 200 then ''OK'' else if status = 201 then ''Created'' else if status = 202 then ''Accepted''
      else if status = 204 then ''No Content'' else if status = 307 then ''Temporary Redirect''
      else if status = 400 then ''Bad Request'' else if status = 401 then ''Unauthorized''
      else if status = 403 then ''Forbidden'' else if status = 404 then ''Not Found''
      else if status = 405 then ''Method Not Allowed'' else if status = 409 then ''Conflict''
      else if status = 413 then ''Payload Too Large'' else if status = 429 then ''Too Many Requests''
      else if status = 500 then ''Internal Server Error'' else if status = 501 then ''Not Implemented''
      else if status = 502 then ''Bad Gateway'' else if status = 503 then ''Service Unavailable''
      else if status = 507 then ''Insufficient Storage'' else ''OK'')"

definition safe_extra :: "(string \<times> string) list \<Rightarrow> (string \<times> string) list" where
  "safe_extra hs = filter (\<lambda>(k, v). safe_header_name k \<noteq> None \<and> safe_header_value v \<noteq> None) hs"

definition write_response :: "Response \<Rightarrow> string" where
  "write_response r =
     ''HTTP/1.1 '' @ show_word (rs_status r) @ '' '' @ reason_phrase (rs_status r) @ crlf @
     ''Content-Type: '' @
       (case safe_header_value (rs_content_type r) of Some v \<Rightarrow> v | None \<Rightarrow> ''application/octet-stream'') @ crlf @
     ''Content-Length: '' @ show_nat (length (rs_body r)) @ crlf @
     ''Connection: close'' @ crlf @ ''X-Content-Type-Options: nosniff'' @ crlf @ ''X-Frame-Options: DENY'' @ crlf @
     ''Referrer-Policy: no-referrer'' @ crlf @
     concat (map head_line (safe_extra (rs_extra_headers r))) @ crlf @ rs_body r"

text \<open>What a connection answers to a request that did not parse.\<close>

definition parse_failure :: "ParseError \<Rightarrow> (u16 \<times> string) option" where
  "parse_failure e =
     (case e of
        TooLarge \<Rightarrow> Some (413, ''request body too large'')
      | Malformed \<Rightarrow> Some (400, ''malformed request'')
      | _ \<Rightarrow> None)"

section \<open>Lemmas on text\<close>

lemma is_ws_ascii: "is_ws c \<Longrightarrow> ccode c < 0x80"
  by (auto simp: is_ws_def Let_def)

lemma utf8_Nil [simp]: "utf8_valid []"
  by (simp add: utf8_valid_def)

lemma utf8_ascii_Cons [simp]: "ccode c < 0x80 \<Longrightarrow> utf8_valid (c # s) = utf8_valid s"
  by (simp add: utf8_valid_def utf8_lead_def)

lemma utf8_run_append: "utf8_run due a \<Longrightarrow> utf8_run due (a @ b) = utf8_run [] b"
  by (induction due a rule: utf8_run.induct) (auto split: list.splits option.splits)

lemma utf8_append: "utf8_valid a \<Longrightarrow> utf8_valid (a @ b) = utf8_valid b"
  by (simp add: utf8_valid_def utf8_run_append)

lemma utf8_lead_high: "utf8_lead c = Some due \<Longrightarrow> \<forall>(lo, hi) \<in> set due. 0x80 \<le> lo"
  by (auto simp: utf8_lead_def Let_def split: if_splits)

lemma utf8_run_ascii_split:
  assumes "ccode c < 0x80" and "\<forall>(lo, hi) \<in> set due. 0x80 \<le> lo"
  shows "utf8_run due (a @ c # b) \<longleftrightarrow> utf8_run due a \<and> utf8_run [] b"
  using assms(2)
proof (induction a arbitrary: due)
  case Nil
  then show ?case using assms(1) by (auto simp: utf8_lead_def split: list.splits)
next
  case (Cons x a)
  show ?case
  proof (cases due)
    case Nil
    show ?thesis
    proof (cases "utf8_lead x")
      case (Some due')
      with Nil Cons.IH [OF utf8_lead_high [OF Some]] show ?thesis by simp
    qed (simp add: Nil)
  next
    case (Cons p ps)
    then show ?thesis using Cons.IH [of ps] Cons.prems by (cases p) auto
  qed
qed

lemma utf8_ascii_split:
  "ccode c < 0x80 \<Longrightarrow> utf8_valid (a @ c # b) \<longleftrightarrow> utf8_valid a \<and> utf8_valid b"
  by (simp add: utf8_valid_def utf8_run_ascii_split)

lemma utf8_ascii: "list_all (\<lambda>c. ccode c < 0x80) s \<Longrightarrow> utf8_valid s"
  by (induction s) auto

lemma token_ascii: "is_token_char c \<Longrightarrow> ccode c < 0x80 \<and> \<not> is_ws c \<and> c \<noteq> CHR '':''"
  by (auto simp: is_token_char_def TOKEN_MARKS_def is_alnum_def is_digit_def is_upper_def is_lower_def is_ws_def Let_def)

lemma trim_start_id: "(s = [] \<or> \<not> is_ws (hd s)) \<Longrightarrow> trim_start s = s"
  by (cases s) (auto simp: trim_start_def)

lemma trim_no_ws: "list_all (\<lambda>c. \<not> is_ws c) s \<Longrightarrow> trim s = s"
proof -
  assume a: "list_all (\<lambda>c. \<not> is_ws c) s"
  then have "dropWhile is_ws s = s" by (cases s) auto
  moreover from a have "dropWhile is_ws (rev s) = rev s" by (cases s rule: rev_cases) auto
  ultimately show ?thesis by (simp add: trim_def trim_start_def trim_end_def)
qed

lemma trim_ws_Cons: "is_ws c \<Longrightarrow> trim (c # s) = trim s"
  by (simp add: trim_def trim_start_def)

lemma utf8_trim: "utf8_valid s \<Longrightarrow> utf8_valid (trim s)"
proof -
  have 1: "utf8_valid s \<Longrightarrow> utf8_valid (trim_start s)" for s
    by (induction s) (auto simp: trim_start_def is_ws_ascii)
  have 2: "utf8_valid s \<Longrightarrow> utf8_valid (trim_end s)" for s
  proof (induction s rule: rev_induct)
    case (snoc c s)
    then show ?case by (cases "is_ws c") (auto simp: trim_end_def utf8_ascii_split is_ws_ascii)
  qed (simp add: trim_end_def)
  assume "utf8_valid s"
  then show ?thesis by (auto simp: trim_def intro: 1 2)
qed

lemma split_ws_word:
  assumes "list_all (\<lambda>c. \<not> is_ws c) w" and "acc \<noteq> [] \<or> w \<noteq> []" and "is_ws c"
  shows "split_ws_from acc (w @ c # s) = (rev acc @ w) # split_ws_from [] s"
  using assms by (induction w arbitrary: acc) auto

lemma split_ws_blank: "is_ws c \<Longrightarrow> split_ws_from [] (c # s) = split_ws_from [] s"
  by simp

lemma split_ws_parts:
  "utf8_valid (rev acc @ s) \<Longrightarrow> list_all (\<lambda>c. \<not> is_ws c) acc \<Longrightarrow>
     \<forall>p \<in> set (split_ws_from acc s). utf8_valid p \<and> list_all (\<lambda>c. \<not> is_ws c) p \<and> p \<noteq> []"
proof (induction acc s rule: split_ws_from.induct)
  case (2 acc c cs)
  show ?case
  proof (cases "is_ws c")
    case True
    have u: "utf8_valid (rev acc)" "utf8_valid cs"
      using "2.prems"(1) utf8_ascii_split [OF is_ws_ascii [OF True], of "rev acc" cs] by simp_all
    have "\<forall>p \<in> set (split_ws_from [] cs). utf8_valid p \<and> list_all (\<lambda>c. \<not> is_ws c) p \<and> p \<noteq> []"
      using "2.IH"(1,2) [OF True] u(2) by (cases "acc = []") simp_all
    with True u(1) "2.prems"(2) show ?thesis by simp
  next
    case False
    with "2.IH"(3) [OF False] "2.prems" show ?thesis by simp
  qed
qed (auto simp: list_all_iff)

lemma hm_insert_fresh: "hm_get m k = None \<Longrightarrow> hm_insert k v m = m @ [(k, v)]"
  by (induction m) (auto simp: hm_get_def)

section \<open>Reading a head\<close>

lemma read_line_newline:
  assumes "newline \<notin> set l" and "length l < n"
  shows "read_line n (l @ newline # s) = (l @ [newline], n - length l - 1, s)"
proof -
  have t: "takeWhile (\<lambda>c. c \<noteq> newline) (take n (l @ newline # s)) = l"
    using assms by (cases "n - length l") (auto simp: takeWhile_append)
  have "length l < length (take n (l @ newline # s))" using assms by simp
  then show ?thesis unfolding read_line_def t Let_def by simp
qed

lemma read_line_split:
  assumes "read_line n s = (h, n', s')"
  shows "s = h @ s' \<and> n = n' + length h"
proof -
  define avail where "avail = take n s"
  define body where "body = takeWhile (\<lambda>c. c \<noteq> newline) avail"
  have h: "h = (if length body < length avail then body @ [newline] else body)" "n' = n - length h" "s' = drop (length h) s"
    using assms by (auto simp: read_line_def Let_def avail_def body_def)
  have b: "avail = body @ dropWhile (\<lambda>c. c \<noteq> newline) avail" by (simp add: body_def)
  have "\<exists>r. avail = h @ r"
  proof (cases "dropWhile (\<lambda>c. c \<noteq> newline) avail")
    case Nil
    with b h(1) show ?thesis by (metis append_Nil2 less_irrefl)
  next
    case (Cons c r)
    then have "c = newline" by (simp add: dropWhile_eq_Cons_conv)
    with b Cons have "avail = body @ newline # r" by simp
    moreover from this have "length body < length avail" by simp
    ultimately show ?thesis using h(1) by simp
  qed
  then obtain r where r: "take n s = h @ r" by (auto simp: avail_def)
  then have "s = h @ (r @ drop n s)" by (metis append.assoc append_take_drop_id)
  moreover from this have "drop (length h) s = r @ drop n s" by (metis append_eq_conv_conj)
  moreover have "length h \<le> n" using arg_cong [OF r, of length] by simp
  ultimately show ?thesis using h by simp
qed

lemma trim_crlf_crlf: "carriage \<notin> set x \<Longrightarrow> newline \<notin> set x \<Longrightarrow> trim_crlf (x @ crlf) = x"
proof -
  assume "carriage \<notin> set x" "newline \<notin> set x"
  then have "dropWhile (\<lambda>c. c = carriage \<or> c = newline) (rev x) = rev x"
    by (cases x rule: rev_cases) auto
  then show ?thesis by (simp add: trim_crlf_def)
qed

lemma ends_with_crlf [simp]: "ends_with (x @ crlf) crlf"
  by (simp add: ends_with_iff)

text \<open>A header the parser accepts and keeps as it is.\<close>

definition good_header :: "string \<times> string \<Rightarrow> bool" where
  "good_header = (\<lambda>(k, v). k \<noteq> [] \<and> list_all is_token_char k \<and> to_lower k = k \<and> \<not> bad_value v \<and> trim v = v \<and>
     utf8_valid v)"

lemma not_bad_value: "\<not> bad_value v \<Longrightarrow> carriage \<notin> set v \<and> newline \<notin> set v"
  by (auto simp: bad_value_def list_ex_iff)

lemma token_plain: "list_all is_token_char k \<Longrightarrow>
    carriage \<notin> set k \<and> newline \<notin> set k \<and> CHR '':'' \<notin> set k \<and> utf8_valid k \<and> trim k = k \<and> list_all (\<lambda>c. \<not> is_ws c) k"
proof -
  assume k: "list_all is_token_char k"
  have "carriage \<notin> set k" "newline \<notin> set k" "CHR '':'' \<notin> set k"
    using k token_ascii [of carriage] token_ascii [of newline] token_ascii [of "CHR '':''"]
    by (auto simp: list_all_iff is_ws_def)
  moreover have "utf8_valid k" using k token_ascii by (intro utf8_ascii) (auto simp: list_all_iff)
  moreover have "list_all (\<lambda>c. \<not> is_ws c) k" using k token_ascii by (auto simp: list_all_iff)
  ultimately show ?thesis using trim_no_ws [of k] by blast
qed

lemma split_once_first: "c \<notin> set a \<Longrightarrow> split_once c (a @ c # b) = Some (a, b)"
proof -
  assume "c \<notin> set a"
  then have "takeWhile (\<lambda>x. x \<noteq> c) (a @ c # b) = a" "dropWhile (\<lambda>x. x \<noteq> c) (a @ c # b) = c # b"
    by (induction a) auto
  then show ?thesis by (simp add: split_once_def)
qed

lemma parse_header_good:
  assumes "good_header (k, v)" and "hm_get headers k = None"
  shows "parse_header (k @ '': '' @ v) headers = Some (headers @ [(k, v)])"
proof -
  have k: "CHR '':'' \<notin> set k" "trim k = k" and kv: "k \<noteq> []" "list_all is_token_char k" "to_lower k = k" "\<not> bad_value v" "trim v = v"
    using assms(1) token_plain [of k] by (auto simp: good_header_def)
  have "trim (CHR '' '' # v) = v" using kv by (subst trim_ws_Cons) (simp_all add: is_ws_def)
  then show ?thesis
    using assms(2) kv k split_once_first [OF k(1), of "CHR '' '' # v"]
    by (simp add: parse_header_def Let_def hm_insert_fresh)
qed

lemma head_line_read:
  assumes "good_header (k, v)" and "length (head_line (k, v)) \<le> n"
  shows "read_line n (head_line (k, v) @ s) = (head_line (k, v), n - length (head_line (k, v)), s) \<and>
    utf8_valid (head_line (k, v)) \<and> ends_with (head_line (k, v)) crlf \<and> trim_crlf (head_line (k, v)) = k @ '': '' @ v"
proof -
  have k: "carriage \<notin> set k" "newline \<notin> set k" "utf8_valid k"
    and v: "carriage \<notin> set v" "newline \<notin> set v" "utf8_valid v"
    using assms(1) token_plain [of k] not_bad_value [of v] by (auto simp: good_header_def)
  have e: "head_line (k, v) = (k @ '': '' @ v) @ crlf" by (simp add: head_line_def)
  have "read_line n ((k @ '': '' @ v @ [carriage]) @ newline # s)
      = ((k @ '': '' @ v @ [carriage]) @ [newline], n - length (k @ '': '' @ v @ [carriage]) - 1, s)"
    using k v assms(2) by (intro read_line_newline) (auto simp: head_line_def)
  then have "read_line n (head_line (k, v) @ s) = (head_line (k, v), n - length (head_line (k, v)), s)"
    by (simp add: head_line_def)
  moreover have "utf8_valid (head_line (k, v))"
    unfolding head_line_def using k v by (simp add: utf8_append)
  moreover have "ends_with (head_line (k, v)) crlf" unfolding e by (rule ends_with_crlf)
  moreover have "trim_crlf (head_line (k, v)) = k @ '': '' @ v"
    unfolding e using k v by (intro trim_crlf_crlf) auto
  ultimately show ?thesis by blast
qed

lemma read_headers_text:
  assumes "list_all good_header hs" and "distinct (map fst hs)" and "\<forall>(k, v) \<in> set hs. hm_get headers k = None"
    and "length (concat (map head_line hs) @ crlf) \<le> n"
  shows "read_headers n (concat (map head_line hs) @ crlf @ s) headers = Inr (headers @ hs, s)"
  using assms
proof (induction hs arbitrary: n headers)
  case Nil
  then have "read_line n ([carriage] @ newline # s) = ([carriage] @ [newline], n - length [carriage] - 1, s)"
    by (intro read_line_newline) auto
  then show ?case
    using ends_with_crlf [of "[]"] trim_crlf_crlf [of "[]"] by (subst read_headers.simps) simp
next
  case (Cons h hs)
  obtain k v where h: "h = (k, v)" by (cases h)
  have g: "good_header (k, v)" and fresh: "hm_get headers k = None" using Cons.prems h by auto
  let ?rest = "concat (map head_line hs) @ crlf @ s"
  have len: "length (head_line (k, v)) \<le> n" using Cons.prems(4) h by simp
  note line = head_line_read [OF g len, of ?rest]
  have "read_headers n (head_line (k, v) @ ?rest) headers
      = read_headers (n - length (head_line (k, v))) ?rest (headers @ [(k, v)])"
    using line parse_header_good [OF g fresh] g
    by (subst read_headers.simps) (auto simp: head_line_def)
  also have "\<dots> = Inr ((headers @ [(k, v)]) @ hs, s)"
  proof (rule Cons.IH)
    show "\<forall>(k', v') \<in> set hs. hm_get (headers @ [(k, v)]) k' = None"
      using Cons.prems(2,3) h by (force simp: hm_get_def map_add_def split: option.splits)
  qed (use Cons.prems h in auto)
  finally show ?case by (simp add: h)
qed

section \<open>Heads the parser accepts\<close>

definition target_char :: "char \<Rightarrow> bool" where
  "target_char b = (\<not> (ccode b < 0x21 \<or> ccode b = 0x7F) \<and> b \<noteq> CHR ''#'')"

lemma target_char_plain: "target_char b \<Longrightarrow> \<not> is_ws b \<and> b \<noteq> newline"
  by (auto simp: target_char_def is_ws_def Let_def)

definition good_target :: "string \<Rightarrow> bool" where
  "good_target t = (starts_with t ''/'' \<and> list_all target_char t \<and> utf8_valid t)"

definition head_wf :: "Head \<Rightarrow> bool" where
  "head_wf h =
     (hd_method h \<noteq> [] \<and> list_all is_token_char (hd_method h) \<and> good_target (hd_target h) \<and>
      hd_version h \<in> {''HTTP/1.0'', ''HTTP/1.1''} \<and>
      list_all good_header (hd_headers h) \<and> distinct (map fst (hd_headers h)) \<and>
      (hd_version h = ''HTTP/1.1'' \<longrightarrow> hm_get (hd_headers h) ''host'' \<noteq> None))"

lemma utf8_trim_crlf: "utf8_valid s \<Longrightarrow> utf8_valid (trim_crlf s)"
proof (induction s rule: rev_induct)
  case (snoc c s)
  show ?case
  proof (cases "c = carriage \<or> c = newline")
    case True
    then have "ccode c < 0x80" by auto
    with snoc True show ?thesis by (auto simp: trim_crlf_def utf8_ascii_split)
  qed (use snoc in \<open>auto simp: trim_crlf_def\<close>)
qed (simp add: trim_crlf_def)

lemma parse_header_Some:
  assumes "parse_header t headers = Some headers'" and "utf8_valid t"
  shows "\<exists>k v. good_header (k, v) \<and> hm_get headers k = None \<and> headers' = headers @ [(k, v)]"
proof -
  obtain k v where kv: "split_once (CHR '':'') t = Some (k, v)"
    using assms(1) by (auto simp: parse_header_def split: option.splits)
  define key where "key = to_lower (trim k)"
  have p: "key \<noteq> []" "list_all is_token_char key" "\<not> bad_value (trim v)" "hm_get headers key = None"
    and h: "headers' = hm_insert key (trim v) headers"
    using assms(1) kv by (auto simp: parse_header_def Let_def key_def split: if_splits)
  have "utf8_valid v" using split_once_Some [OF kv] assms(2) utf8_ascii_split [of "CHR '':''" k v] by auto
  then have "utf8_valid (trim v)" by (rule utf8_trim)
  then have "good_header (key, trim v)" using p by (simp add: good_header_def key_def)
  with p h show ?thesis by (auto simp: hm_insert_fresh)
qed

lemma read_headers_sound:
  assumes "read_headers n s headers = Inr (headers', rest)"
    and "list_all good_header headers" and "distinct (map fst headers)"
  shows "list_all good_header headers' \<and> distinct (map fst headers') \<and> (\<exists>c. s = c @ rest \<and> length c \<le> n)"
  using assms
proof (induction n s headers rule: read_headers.induct)
  case (1 n s headers)
  obtain h n' s' where r: "read_line n s = (h, n', s')" by (cases "read_line n s")
  note rs = read_line_split [OF r]
  from "1.prems"(1) r have u: "utf8_valid h" "h \<noteq> []" "ends_with h crlf"
    by (auto simp: read_headers.simps [of n] split: if_splits)
  show ?case
  proof (cases "trim_crlf h = []")
    case True
    with "1.prems" r u have "headers' = headers" "rest = s'" by (auto simp: read_headers.simps [of n])
    with rs "1.prems" show ?thesis by auto
  next
    case False
    with "1.prems"(1) r u obtain hs where hs: "parse_header (trim_crlf h) headers = Some hs"
      and rec: "read_headers n' s' hs = Inr (headers', rest)"
      by (auto simp: read_headers.simps [of n] split: option.splits)
    obtain k v where kv: "good_header (k, v)" "hm_get headers k = None" "hs = headers @ [(k, v)]"
      using parse_header_Some [OF hs utf8_trim_crlf [OF u(1)]] by blast
    have "list_all good_header hs" "distinct (map fst hs)"
      using kv "1.prems"(2,3) by (auto simp: hm_get_def map_of_eq_None_iff)
    with "1.IH" [OF r [symmetric] refl] u False hs rec
    have "list_all good_header headers' \<and> distinct (map fst headers') \<and> (\<exists>c. s' = c @ rest \<and> length c \<le> n')" by simp
    then obtain c where "list_all good_header headers'" "distinct (map fst headers')" "s' = c @ rest" "length c \<le> n'" by blast
    then show ?thesis using rs by (intro conjI exI [of _ "h @ c"]) auto
  qed
qed

lemma parse_head_sound:
  assumes "parse_head s = Inr (h, rest)"
  shows "head_wf h \<and> (\<exists>c. s = c @ rest \<and> length c \<le> MAX_HEAD)"
proof -
  obtain line n s' where r: "read_line MAX_HEAD s = (line, n, s')" by (cases "read_line MAX_HEAD s")
  from assms r have u: "utf8_valid line" by (auto simp: parse_head_def split: if_splits)
  obtain m t v hs where w: "split_whitespace line = [m, t, v]" and hs: "read_headers n s' [] = Inr (hs, rest)"
    and h: "h = \<lparr>hd_method = m, hd_target = t, hd_version = v, hd_headers = hs\<rparr>"
    and ok: "v \<in> {''HTTP/1.0'', ''HTTP/1.1''}" "m \<noteq> []" "list_all is_token_char m" "starts_with t ''/''"
      "CHR ''#'' \<notin> set t" "\<not> list_ex (\<lambda>b. ccode b < 0x21 \<or> ccode b = 0x7F) t"
      "v = ''HTTP/1.1'' \<longrightarrow> hm_get hs ''host'' \<noteq> None"
    using assms r by (auto simp: parse_head_def split: if_splits list.splits sum.splits)
  have "utf8_valid t" using split_ws_parts [of "[]" line] u w by (simp add: split_whitespace_def)
  then have "good_target t" using ok by (auto simp: good_target_def target_char_def list_all_iff list_ex_iff)
  with read_headers_sound [OF hs] ok h have "head_wf h" by (simp add: head_wf_def)
  moreover obtain c where "s' = c @ rest" "length c \<le> n" using read_headers_sound [OF hs] by auto
  then have "\<exists>c. s = c @ rest \<and> length c \<le> MAX_HEAD"
    using read_line_split [OF r] by (intro exI [of _ "line @ c"]) auto
  ultimately show ?thesis ..
qed

lemma good_target_plain:
  assumes "good_target t"
  shows "t \<noteq> []" and "list_all (\<lambda>c. \<not> is_ws c) t" and "newline \<notin> set t"
proof -
  have c: "\<forall>b \<in> set t. \<not> is_ws b \<and> b \<noteq> newline"
    using assms target_char_plain by (simp add: good_target_def list_all_iff)
  show "t \<noteq> []" using assms by (auto simp: good_target_def starts_with_iff)
  show "list_all (\<lambda>c. \<not> is_ws c) t" using c by (simp add: list_all_iff)
  show "newline \<notin> set t" using c by blast
qed

text \<open>A printed head is read back as it was.\<close>

lemma parse_head_text:
  assumes "head_wf \<lparr>hd_method = m, hd_target = t, hd_version = v, hd_headers = hs\<rparr>"
    and "length (head_text m t v hs) \<le> MAX_HEAD"
  shows "parse_head (head_text m t v hs @ s) = Inr (\<lparr>hd_method = m, hd_target = t, hd_version = v, hd_headers = hs\<rparr>, s)"
proof -
  let ?line = "m @ '' '' @ t @ '' '' @ v @ crlf"
  let ?rest = "concat (map head_line hs) @ crlf @ s"
  have m: "m \<noteq> []" "list_all is_token_char m" and t: "good_target t" and v: "v \<in> {''HTTP/1.0'', ''HTTP/1.1''}"
    and hs: "list_all good_header hs" "distinct (map fst hs)" and host: "v = ''HTTP/1.1'' \<longrightarrow> hm_get hs ''host'' \<noteq> None"
    using assms(1) by (simp_all add: head_wf_def)
  note mp = token_plain [OF m(2)] and tp = good_target_plain [OF t]
  have vp: "newline \<notin> set v" "utf8_valid v" "list_all (\<lambda>c. \<not> is_ws c) v" "v \<noteq> []"
    using v by (auto simp: is_ws_def)
  have len: "length ?line + length (concat (map head_line hs) @ crlf) \<le> MAX_HEAD"
    using assms(2) by (simp add: head_text_def)
  have "read_line MAX_HEAD ((m @ '' '' @ t @ '' '' @ v @ [carriage]) @ newline # ?rest)
      = ((m @ '' '' @ t @ '' '' @ v @ [carriage]) @ [newline], MAX_HEAD - length (m @ '' '' @ t @ '' '' @ v @ [carriage]) - 1, ?rest)"
    using mp tp vp len by (intro read_line_newline) auto
  then have line: "read_line MAX_HEAD (head_text m t v hs @ s) = (?line, MAX_HEAD - length ?line, ?rest)"
    by (simp add: head_text_def)
  have ws: "is_ws (CHR '' '')" "is_ws carriage" "is_ws newline" by (simp_all add: is_ws_def)
  have "split_whitespace ?line = [m, t, v]"
    using split_ws_word [of m "[]" "CHR '' ''" "t @ '' '' @ v @ crlf"] split_ws_word [of t "[]" "CHR '' ''" "v @ crlf"]
      split_ws_word [of v "[]" carriage "[newline]"] mp m tp vp ws by (simp add: split_whitespace_def)
  moreover have "utf8_valid ?line" using mp t vp by (simp add: utf8_append good_target_def)
  moreover have "ends_with ?line crlf" using ends_with_crlf [of "m @ '' '' @ t @ '' '' @ v"] by simp
  moreover have "read_headers (MAX_HEAD - length ?line) ?rest [] = Inr ([] @ hs, s)"
    using hs len by (intro read_headers_text) auto
  moreover have "starts_with t ''/''" "CHR ''#'' \<notin> set t" "\<not> list_ex (\<lambda>b. ccode b < 0x21 \<or> ccode b = 0x7F) t"
    using t by (auto simp: good_target_def target_char_def list_all_iff list_ex_iff)
  ultimately show ?thesis using m v host unfolding parse_head_def line by auto
qed

section \<open>Rewritten heads\<close>

definition ip_char :: "char \<Rightarrow> bool" where
  "ip_char c = (is_hexdigit c \<or> c \<in> set ''.:[]'')"

lemma ip_char_plain: "ip_char c \<Longrightarrow> ccode c < 0x80 \<and> \<not> is_ws c \<and> \<not> ccode c < 0x20"
  by (auto simp: ip_char_def is_hexdigit_def is_ws_def Let_def)

lemma good_header_ip:
  assumes "k \<noteq> []" "list_all is_token_char k" "to_lower k = k" and "list_all ip_char s"
  shows "good_header (k, s)"
proof -
  have c: "\<forall>c \<in> set s. ccode c < 0x80 \<and> \<not> is_ws c \<and> \<not> ccode c < 0x20"
    using assms(4) ip_char_plain by (simp add: list_all_iff)
  then have "utf8_valid s" "trim s = s" "\<not> bad_value s"
    by (auto intro!: utf8_ascii trim_no_ws simp: list_all_iff bad_value_def list_ex_iff)
  with assms show ?thesis by (simp add: good_header_def)
qed

lemma show_nat_ip: "list_all ip_char (show_nat n)"
proof -
  have "ip_char c" if "is_digit c" for c using that by (auto simp: ip_char_def is_digit_def is_hexdigit_def Let_def)
  then show ?thesis using show_nat_digits [of n] by (simp add: list_all_iff)
qed

lemma show_hex_ip: "list_all ip_char (show_hex n)"
proof (induction n rule: show_hex.induct)
  case (1 n)
  have d: "m < 16 \<Longrightarrow> ip_char (hex_digit m)" for m by (simp add: ip_char_def hex_digit_props)
  show ?case by (subst show_hex.simps) (use 1 d in simp)
qed

lemma join_ip: "list_all ip_char sep \<Longrightarrow> \<forall>p \<in> set ps. list_all ip_char p \<Longrightarrow> list_all ip_char (join sep ps)"
  by (induction sep ps rule: join.induct) auto

lemma show_ip_ip: "list_all ip_char (show_ip ip)"
proof -
  have g: "list_all ip_char (show_groups gs)" for gs
    unfolding show_groups_def by (rule join_ip) (auto simp: ip_char_def intro: show_hex_ip)
  have v4: "list_all ip_char (show_v4 a b c d)" for a b c d
    unfolding show_v4_def by (rule join_ip) (auto simp: ip_char_def intro: show_nat_ip)
  have lits: "list_all ip_char ''::ffff:''" "list_all ip_char ''::''"
    by (simp_all add: ip_char_def is_hexdigit_def)
  show ?thesis
  proof (cases ip)
    case (V6 w)
    then show ?thesis using g v4 lits by (simp add: Let_def split: prod.splits)
  qed (use v4 in simp)
qed

lemma show_socket_ip: "list_all ip_char (show_socket up)"
proof (cases up)
  case (Pair ip port)
  then show ?thesis using show_ip_ip [of ip] show_nat_ip by (cases ip) (simp_all add: ip_char_def)
qed

lemma list_all_hm_insert: "list_all P m \<Longrightarrow> P (k, v) \<Longrightarrow> list_all P (hm_insert k v m)"
  by (induction m) auto

lemma list_all_hm_remove: "list_all P m \<Longrightarrow> list_all P (hm_remove k m)"
  by (auto simp: hm_remove_def list_all_iff)

lemma hm_wf_iff: "hm_wf m \<longleftrightarrow> distinct (map fst m)"
  by (simp add: hm_wf_def)

lemmas header_names = is_token_char_def TOKEN_MARKS_def is_alnum_def is_digit_def is_upper_def is_lower_def
  to_lower_def lower_char_def

lemma field_headers_good:
  assumes "list_all good_header headers" and "distinct (map fst headers)"
  shows "list_all good_header (field_headers headers up secure peer) \<and> distinct (map fst (field_headers headers up secure peer))"
proof -
  have ip: "good_header (''host'', show_socket up)" "good_header (''x-forwarded-for'', show_ip ip)" for ip
    by (rule good_header_ip; simp add: show_socket_ip show_ip_ip header_names)+
  have fixed: "good_header (''x-forwarded-proto'', ''https'')" "good_header (''x-forwarded-proto'', ''http'')"
    "good_header (''connection'', ''close'')"
    by (simp_all add: good_header_def header_names bad_value_def trim_no_ws is_ws_def)
  have fwd: "good_header (''x-forwarded-host'', v)" if "hm_get headers ''host'' = Some v" for v
  proof -
    have "good_header (''host'', v)" using hm_get_in_set [OF that] assms(1) by (auto simp: list_all_iff)
    then show ?thesis by (simp add: good_header_def header_names)
  qed
  show ?thesis
    using assms ip fixed fwd
    by (auto simp: field_headers_def Let_def list_all_hm_insert list_all_hm_remove hm.map_simps
        hm_wf_iff [symmetric] split: option.splits)
qed

lemma field_headers_get:
  assumes "distinct (map fst headers)"
  shows "hm_get (field_headers headers up secure peer) k =
     (if k = ''host'' then Some (show_socket up)
      else if k = ''x-forwarded-host'' then hm_get headers ''host''
      else if k = ''x-forwarded-proto'' then Some (if secure then ''https'' else ''http'')
      else if k = ''x-forwarded-for'' then map_option show_ip peer
      else if k = ''connection'' \<and> \<not> wants_upgrade headers then Some ''close''
      else hm_get headers k)"
proof -
  have "hm_wf headers" using assms by (simp add: hm_wf_iff)
  then show ?thesis
    by (auto simp: field_headers_def Let_def map_laws wants_upgrade_def split: option.splits)
qed

lemma hm_get_sort:
  assumes "distinct (map fst (m :: (string \<times> string) list))"
  shows "hm_get (sort m) k = hm_get m k" and "distinct (map fst (sort m))"
proof -
  have "mset (map fst (sort m)) = mset (map fst m)" by simp
  then show d: "distinct (map fst (sort m))" using assms mset_eq_imp_distinct_iff by blast
  have "hm_get (sort m) k = Some v \<longleftrightarrow> hm_get m k = Some v" for v
    using assms d by (auto simp: hm_wf_iff dest!: hm_get_in_set intro!: hm_in_set_get)
  then show "hm_get (sort m) k = hm_get m k" by (metis option.exhaust)
qed

lemma field_route_target:
  assumes "field_route t = Some (Forward t')" and "good_target t"
  shows "good_target t'"
proof -
  have t: "t = FIELD_PREFIX @ t'" "starts_with t' ''/''"
    using assms(1) by (auto simp: field_route_def strip_prefix_Some_iff starts_with_iff split: option.splits list.splits if_splits)
  have "utf8_valid (FIELD_PREFIX @ t')" using assms(2) t(1) by (simp add: good_target_def)
  then have "utf8_valid t'" by (simp add: FIELD_PREFIX_def)
  with t assms(2) show ?thesis by (simp add: good_target_def)
qed

section \<open>Reading a response\<close>

text \<open>How a client cuts a response: lines up to the first empty one, then the body.\<close>

fun cut_crlf :: "string \<Rightarrow> (string \<times> string) option" where
  "cut_crlf (c # d # s) =
     (if c = carriage \<and> d = newline then Some ([], s)
      else map_option (\<lambda>(l, r). (c # l, r)) (cut_crlf (d # s)))"
| "cut_crlf _ = None"

lemma cut_crlf_length: "cut_crlf s = Some (l, r) \<Longrightarrow> length r < length s"
  by (induction s arbitrary: l r rule: cut_crlf.induct) (auto split: if_splits)

function read_response :: "string \<Rightarrow> (string list \<times> string) option" where
  "read_response s =
     (case cut_crlf s of
        None \<Rightarrow> None
      | Some (l, r) \<Rightarrow>
          if l = [] then Some ([], r)
          else map_option (\<lambda>(ls, body). (l # ls, body)) (read_response r))"
  by pat_completeness auto

termination read_response
  by (relation "measure length") (auto dest: cut_crlf_length)

declare read_response.simps [simp del]

lemma cut_crlf_line: "carriage \<notin> set l \<Longrightarrow> cut_crlf (l @ crlf @ s) = Some (l, s)"
proof (induction l)
  case (Cons c l)
  then show ?case by (cases l) auto
qed simp

lemma read_response_lines:
  "\<forall>l \<in> set ls. l \<noteq> [] \<and> carriage \<notin> set l \<Longrightarrow>
     read_response (concat (map (\<lambda>l. l @ crlf) ls) @ crlf @ body) = Some (ls, body)"
proof (induction ls)
  case Nil
  show ?case using cut_crlf_line [of "[]"] by (subst read_response.simps) simp
next
  case (Cons l ls)
  then show ?case
    using cut_crlf_line [of l "concat (map (\<lambda>l. l @ crlf) ls) @ crlf @ body"]
    by (subst read_response.simps) simp
qed

definition clean_line :: "string \<Rightarrow> bool" where
  "clean_line l = (l \<noteq> [] \<and> carriage \<notin> set l \<and> newline \<notin> set l)"

lemma clean_line_append: "clean_line a \<Longrightarrow> carriage \<notin> set b \<Longrightarrow> newline \<notin> set b \<Longrightarrow> clean_line (a @ b)"
  by (auto simp: clean_line_def)

lemma safe_value_clean: "safe_header_value v = Some w \<Longrightarrow> carriage \<notin> set w \<and> newline \<notin> set w"
  by (auto simp: safe_header_value_def list_ex_iff split: if_splits)

lemma safe_extra_clean: "(k, v) \<in> set (safe_extra hs) \<Longrightarrow> clean_line (k @ '': '' @ v)"
proof -
  assume "(k, v) \<in> set (safe_extra hs)"
  then have "safe_header_name k \<noteq> None" "safe_header_value v \<noteq> None" by (auto simp: safe_extra_def)
  then have "k \<noteq> [] \<and> list_all is_token_char k" "carriage \<notin> set v \<and> newline \<notin> set v"
    using safe_value_clean [of v v] by (auto simp: safe_header_name_def safe_header_value_def split: if_splits)
  then show ?thesis using token_plain [of k] by (auto simp: clean_line_def)
qed

lemma show_nat_clean: "carriage \<notin> set (show_nat n) \<and> newline \<notin> set (show_nat n)"
  using show_nat_plain [of n] by (simp add: plain_line_def)

lemma reason_clean: "carriage \<notin> set (reason_phrase st) \<and> newline \<notin> set (reason_phrase st)"
  by (simp add: reason_phrase_def)

section \<open>Percent encoding\<close>

text \<open>The inverse the decoder is judged by: every byte but letters and digits as \<open>%\<close> and two digits.\<close>

definition percent_encode :: "string \<Rightarrow> string" where
  "percent_encode s =
     concat (map (\<lambda>c. if is_alnum c then [c] else [CHR ''%'', hex_digit (ccode c div 16), hex_digit (ccode c mod 16)]) s)"

lemma hex_value_digit: "d < 16 \<Longrightarrow> hex_value (hex_digit d) = d"
  by (auto simp: hex_value_def hex_digit_def of_char_of Let_def)

lemma decode_encode: "decode_bytes plus_as_space (percent_encode s) = Some s"
proof (induction s)
  case (Cons c s)
  have lt: "ccode c div 16 < 16" "ccode c mod 16 < 16" using of_char_mod_256 [of c, where 'a = nat]
    by (auto simp: less_mult_imp_div_less)
  show ?case
  proof (cases "is_alnum c")
    case True
    then have "c \<noteq> CHR ''%''" "c \<noteq> CHR ''+''"
      by (auto simp: is_alnum_def is_digit_def is_upper_def is_lower_def)
    with True Cons show ?thesis by (simp add: percent_encode_def)
  next
    case False
    with Cons show ?thesis
      using hex_digit_props [OF lt(1)] hex_digit_props [OF lt(2)]
      by (simp add: percent_encode_def hex_value_digit lt mult.commute)
  qed
qed (simp add: percent_encode_def)

section \<open>Connection slots over time\<close>

inductive slots_reach :: "Slots \<Rightarrow> IpAddr option list \<Rightarrow> bool" where
  start: "slots_reach slots_default []"
| admitted: "slots_reach st live \<Longrightarrow> slot_admit peer st = (Some c, st') \<Longrightarrow> slots_reach st' (c # live)"
| refused: "slots_reach st live \<Longrightarrow> slot_admit peer st = (None, st') \<Longrightarrow> slots_reach st' live"
| dropped: "slots_reach st live \<Longrightarrow> c \<in> set live \<Longrightarrow> slots_reach (slot_drop c st) (remove1 c live)"

definition peer_ok :: "(IpAddr, nat) hash_map \<Rightarrow> IpAddr option list \<Rightarrow> IpAddr \<Rightarrow> bool" where
  "peer_ok m live ip =
     (case hm_get m ip of
        None \<Rightarrow> count_list live (Some ip) = 0
      | Some n \<Rightarrow> n = count_list live (Some ip) \<and> 0 < n \<and> n \<le> 16)"

lemma peer_ok_cong:
  "peer_ok m live ip \<Longrightarrow> hm_get m' ip = hm_get m ip \<Longrightarrow> count_list live' (Some ip) = count_list live (Some ip)
     \<Longrightarrow> peer_ok m' live' ip"
  by (auto simp: peer_ok_def split: option.splits)

lemma peer_ok_None [simp]: "peer_ok m (None # live) ip = peer_ok m live ip"
  by (simp add: peer_ok_def split: option.splits)

definition slots_inv :: "Slots \<Rightarrow> IpAddr option list \<Rightarrow> bool" where
  "slots_inv st live =
     (sl_total st = length live \<and> length live \<le> 64 \<and> hm_wf (sl_per_peer st) \<and>
      (\<forall>ip. peer_ok (sl_per_peer st) live ip))"

lemma count_list_remove1: "count_list (remove1 x xs) y = count_list xs y - (if x = y then 1 else 0)"
  by (induction xs) (auto simp: count_list_0_iff)

lemma slots_inv_count: "slots_inv st live \<Longrightarrow>
    (case hm_get (sl_per_peer st) ip of None \<Rightarrow> 0 | Some n \<Rightarrow> n) = count_list live (Some ip) \<and> count_list live (Some ip) \<le> 16"
proof -
  assume "slots_inv st live"
  then have "peer_ok (sl_per_peer st) live ip" by (simp add: slots_inv_def)
  then show ?thesis by (auto simp: peer_ok_def split: option.splits)
qed

lemma slot_admit_inv:
  assumes "slots_inv st live"
  shows "case slot_admit peer st of
     (None, st') \<Rightarrow> slots_inv st' live \<and>
       (length live = 64 \<or> (\<exists>ip. peer = Some ip \<and> \<not> ip_is_loopback ip \<and> count_list live (Some ip) = 16))
   | (Some c, st') \<Rightarrow> slots_inv st' (c # live) \<and> length live < 64 \<and>
       (\<forall>ip. peer = Some ip \<longrightarrow> \<not> ip_is_loopback ip \<longrightarrow> count_list live (Some ip) < 16)"
proof (cases "length live < 64 \<and> (\<exists>ip. peer = Some ip \<and> \<not> ip_is_loopback ip)")
  case False
  with assms show ?thesis
    by (auto simp: slot_admit_def slots_inv_def MAX_CONNECTIONS_def Let_def split: option.splits)
next
  case True
  then obtain ip where ip: "peer = Some ip" "\<not> ip_is_loopback ip" "length live < 64" by blast
  define n where "n = count_list live (Some ip)"
  have n: "(case hm_get (sl_per_peer st) ip of None \<Rightarrow> 0 | Some n \<Rightarrow> n) = n" "n \<le> 16"
    using slots_inv_count [OF assms, of ip] by (simp_all add: n_def)
  have wf: "hm_wf (sl_per_peer st)" "sl_total st = length live" and
    peers: "\<And>i. peer_ok (sl_per_peer st) live i"
    using assms by (auto simp: slots_inv_def)
  show ?thesis
  proof (cases "16 \<le> n")
    case True
    then have "hm_get (sl_per_peer st) ip = Some 16" using n by (auto split: option.splits)
    then have "peer_ok (hm_insert ip n (sl_per_peer st)) live i" for i
      using peers [of i] True n by (intro peer_ok_cong [OF peers]) (auto simp: map_laws)
    then have "\<forall>i. peer_ok (hm_insert ip n (sl_per_peer st)) live i" by blast
    with True ip wf n n_def show ?thesis
      by (simp add: slot_admit_def slots_inv_def MAX_CONNECTIONS_def MAX_CONNECTIONS_PER_PEER_def Let_def map_laws)
  next
    case False
    have "peer_ok (hm_insert ip (Suc n) (hm_insert ip n (sl_per_peer st))) (Some ip # live) i" for i
      using peers [of i] False n_def wf by (auto simp: peer_ok_def map_laws split: option.splits)
    then have "\<forall>i. peer_ok (hm_insert ip (Suc n) (hm_insert ip n (sl_per_peer st))) (Some ip # live) i" by blast
    with False ip wf n n_def show ?thesis
      by (simp add: slot_admit_def slots_inv_def MAX_CONNECTIONS_def MAX_CONNECTIONS_PER_PEER_def Let_def map_laws)
  qed
qed

lemma slot_drop_inv:
  assumes "slots_inv st live" and "c \<in> set live"
  shows "slots_inv (slot_drop c st) (remove1 c live)"
proof -
  have wf: "hm_wf (sl_per_peer st)" "sl_total st = length live" "length live \<le> 64" and
    peers: "\<And>i. peer_ok (sl_per_peer st) live i"
    using assms by (auto simp: slots_inv_def)
  have len: "length (remove1 c live) = length live - 1" "length (remove1 c live) \<le> 64"
    using assms(2) wf by (simp_all add: length_remove1)
  show ?thesis
  proof (cases c)
    case None
    have "peer_ok (sl_per_peer st) (remove1 c live) i" for i
      by (rule peer_ok_cong [OF peers]) (simp_all add: count_list_remove1 None)
    then show ?thesis using wf len None by (simp add: slot_drop_def slots_inv_def Let_def)
  next
    case (Some ip)
    then have "count_list live (Some ip) \<noteq> 0" using assms(2) by (simp add: count_list_0_iff)
    then obtain n where n: "hm_get (sl_per_peer st) ip = Some n" "n = count_list live (Some ip)" "0 < n" "n \<le> 16"
      using peers [of ip] by (auto simp: peer_ok_def split: option.splits)
    have "peer_ok (sl_per_peer (slot_drop c st)) (remove1 c live) i" for i
      using peers [of i] n Some wf
      by (auto simp: peer_ok_def slot_drop_def Let_def map_laws count_list_remove1 split: option.splits)
    moreover have "hm_wf (sl_per_peer (slot_drop c st))" "sl_total (slot_drop c st) = length live - 1"
      using n Some wf by (auto simp: slot_drop_def Let_def map_laws)
    ultimately show ?thesis using len by (simp add: slots_inv_def)
  qed
qed

lemma slots_reach_inv: "slots_reach st live \<Longrightarrow> slots_inv st live"
proof (induction rule: slots_reach.induct)
  case start
  show ?case by (simp add: slots_inv_def slots_default_def peer_ok_def)
next
  case (admitted st live peer c st')
  with slot_admit_inv [OF admitted.IH, of peer] show ?case by simp
next
  case (refused st live peer st')
  with slot_admit_inv [OF refused.IH, of peer] show ?case by simp
qed (rule slot_drop_inv)

section \<open>Properties\<close>

text \<open>C32. A request forwarded to Field says exactly what was meant.  Whatever head the client sent,
  the rewritten head, if within the limit for heads, is read back as one request with the same method
  and version and the stripped target, followed by the client's remaining bytes; the host and the
  forwarding headers are the daemon's own, the connection is closed unless an upgrade was asked for, and
  every other header is the client's.\<close>

theorem field_head_reads_back:
  assumes "parse_head s = Inr (h, rest)" and "field_route (hd_target h) = Some (Forward t)"
    and "length (field_request_head h t up secure peer) \<le> 32768"
  shows "\<exists>h'. parse_head (field_request_head h t up secure peer @ rest) = Inr (h', rest) \<and>
     hd_method h' = hd_method h \<and> hd_target h' = t \<and> hd_version h' = hd_version h \<and>
     (\<forall>k. hm_get (hd_headers h') k =
       (if k = ''host'' then Some (show_socket up)
        else if k = ''x-forwarded-host'' then hm_get (hd_headers h) ''host''
        else if k = ''x-forwarded-proto'' then Some (if secure then ''https'' else ''http'')
        else if k = ''x-forwarded-for'' then map_option show_ip peer
        else if k = ''connection'' \<and> \<not> wants_upgrade (hd_headers h) then Some ''close''
        else hm_get (hd_headers h) k))"
proof -
  have wf: "head_wf h" using parse_head_sound [OF assms(1)] by blast
  let ?hs = "field_headers (hd_headers h) up secure peer"
  let ?h' = "\<lparr>hd_method = hd_method h, hd_target = t, hd_version = hd_version h, hd_headers = sort ?hs\<rparr>"
  have good: "list_all good_header ?hs" "distinct (map fst ?hs)" and d: "distinct (map fst (hd_headers h))"
    using field_headers_good [of "hd_headers h"] wf by (simp_all add: head_wf_def)
  note get = hm_get_sort [OF good(2)] field_headers_get [OF d]
  have "head_wf ?h'"
    using wf good get field_route_target [OF assms(2)] by (auto simp: head_wf_def list_all_iff)
  then have "parse_head (field_request_head h t up secure peer @ rest) = Inr (?h', rest)"
    using assms(3) unfolding field_request_head_def by (intro parse_head_text) (simp_all add: MAX_HEAD_def)
  then show ?thesis by (intro exI [of _ ?h']) (simp add: get)
qed

text \<open>C33. Request framing: an accepted request has one of the three methods, no transfer encoding,
  pairwise different lower-case header names, a path and header values without control characters, and a
  body that is exactly the announced length of at most 1 MiB; the bytes read are a head of at most
  32 KiB and that body, and what follows is untouched.\<close>

theorem parsed_request_framed:
  assumes "parse_request s = Inr (r, rest)"
  shows "\<exists>c. s = c @ rq_body r @ rest \<and> length c \<le> 32768 \<and> length (rq_body r) \<le> 1048576 \<and>
     (case hm_get (rq_headers r) ''content-length'' of
        None \<Rightarrow> rq_body r = [] | Some text \<Rightarrow> parse_usize text = Some (length (rq_body r))) \<and>
     rq_method r \<in> {''GET'', ''POST'', ''DELETE''} \<and> hm_get (rq_headers r) ''transfer-encoding'' = None \<and>
     distinct (map fst (rq_headers r)) \<and>
     (\<forall>(k, v) \<in> set (rq_headers r). to_lower k = k \<and> carriage \<notin> set v \<and> newline \<notin> set v) \<and>
     (\<forall>b \<in> set (rq_path r). 0x20 \<le> ccode b \<and> ccode b \<noteq> 0x7F) \<and> utf8_valid (rq_path r)"
proof -
  obtain h mid where ph: "parse_head s = Inr (h, mid)" and own: "parse_own h mid = Inr (ParsedRequest r, rest)"
    using assms by (auto simp: parse_request_def parse_incoming_def split: sum.splits Parsed.splits)
  obtain path query body where
    st: "split_target (hd_target h) = Inr (path, query)" and
    rb: "read_body (hm_get (hd_headers h) ''content-length'') mid = Inr (body, rest)" and
    m: "hd_method h \<in> {''GET'', ''POST'', ''DELETE''}" "hm_get (hd_headers h) ''transfer-encoding'' = None" and
    r: "r = \<lparr>rq_method = hd_method h, rq_path = path, rq_query = query, rq_headers = hd_headers h, rq_body = body,
       rq_from_unix = False, rq_peer_ip = None\<rparr>"
    using own by (auto simp: parse_own_def split: if_splits sum.splits)
  obtain c where c: "s = c @ mid" "length c \<le> MAX_HEAD" and wf: "head_wf h" using parse_head_sound [OF ph] by blast
  have "mid = body @ rest \<and> length body \<le> MAX_REQUEST_BODY_BYTES \<and>
      (case hm_get (hd_headers h) ''content-length'' of None \<Rightarrow> body = [] | Some text \<Rightarrow> parse_usize text = Some (length body))"
    using rb by (auto simp: read_body_def split: option.splits if_splits)
  moreover have "(\<forall>b \<in> set path. 0x20 \<le> ccode b \<and> ccode b \<noteq> 0x7F) \<and> utf8_valid path"
    using st by (auto simp: split_target_def percent_decode_def Let_def list_ex_iff linorder_not_less
        split: prod.splits sum.splits if_splits option.splits)
  moreover have "\<forall>(k, v) \<in> set (hd_headers h). to_lower k = k \<and> carriage \<notin> set v \<and> newline \<notin> set v"
    using wf not_bad_value by (auto simp: head_wf_def list_all_iff good_header_def)
  moreover have "distinct (map fst (hd_headers h))" using wf by (simp add: head_wf_def)
  ultimately show ?thesis
    unfolding r Request.simps using c m by (intro exI [of _ c]) (simp add: MAX_HEAD_def MAX_REQUEST_BODY_BYTES_def)
qed

text \<open>C15. A response cannot be split.  Whatever the content type, the extra headers and the body hold,
  a client reads from the written bytes the status line, the fixed headers with the true body length, the
  extra headers that are well-formed, in order and no others, and then exactly the body; no line holds a
  carriage return or a newline.\<close>

theorem response_reads_back:
  "\<exists>ctype. read_response (write_response r) =
     Some ([''HTTP/1.1 '' @ show_word (rs_status r) @ '' '' @ reason_phrase (rs_status r), ''Content-Type: '' @ ctype,
            ''Content-Length: '' @ show_nat (length (rs_body r)), ''Connection: close'', ''X-Content-Type-Options: nosniff'',
            ''X-Frame-Options: DENY'', ''Referrer-Policy: no-referrer''] @
           map (\<lambda>(k, v). k @ '': '' @ v) (safe_extra (rs_extra_headers r)), rs_body r) \<and>
     list_all clean_line ([''HTTP/1.1 '' @ show_word (rs_status r) @ '' '' @ reason_phrase (rs_status r), ''Content-Type: '' @ ctype] @
       map (\<lambda>(k, v). k @ '': '' @ v) (safe_extra (rs_extra_headers r)))"
proof -
  define ctype where "ctype = (case safe_header_value (rs_content_type r) of Some v \<Rightarrow> v | None \<Rightarrow> ''application/octet-stream'')"
  define ls where "ls = [''HTTP/1.1 '' @ show_word (rs_status r) @ '' '' @ reason_phrase (rs_status r), ''Content-Type: '' @ ctype,
            ''Content-Length: '' @ show_nat (length (rs_body r)), ''Connection: close'', ''X-Content-Type-Options: nosniff'',
            ''X-Frame-Options: DENY'', ''Referrer-Policy: no-referrer''] @
           map (\<lambda>(k, v). k @ '': '' @ v) (safe_extra (rs_extra_headers r))"
  have "write_response r = concat (map (\<lambda>l. l @ crlf) ls) @ crlf @ rs_body r"
    by (simp add: write_response_def ls_def ctype_def head_line_def comp_def split_def)
  moreover have "carriage \<notin> set ctype \<and> newline \<notin> set ctype"
    using safe_value_clean [of "rs_content_type r"] by (auto simp: ctype_def split: option.splits)
  then have clean: "\<forall>l \<in> set ls. clean_line l"
    using safe_extra_clean [of _ _ "rs_extra_headers r"] show_nat_clean reason_clean [of "rs_status r"]
    by (auto simp: ls_def clean_line_def)
  then have "read_response (concat (map (\<lambda>l. l @ crlf) ls) @ crlf @ rs_body r) = Some (ls, rs_body r)"
    by (intro read_response_lines) (auto simp: clean_line_def)
  ultimately have "read_response (write_response r) = Some (ls, rs_body r)" by simp
  with clean show ?thesis by (intro exI [of _ ctype]) (auto simp: ls_def list_all_iff)
qed

text \<open>Percent decoding undoes encoding: an encoded text decodes to itself, unless it holds a null,
  a line break or a delete character or is not UTF-8, which are refused; and nothing the decoder accepts
  holds such a character.\<close>

lemma percent_round_trip:
  "percent_decode (percent_encode s) plus_as_space =
     (if list_ex (\<lambda>b. ccode b = 0 \<or> b = carriage \<or> b = newline \<or> ccode b = 0x7F) s \<or> \<not> utf8_valid s
      then Inl Malformed else Inr s) \<and>
   (case percent_decode t plus_as_space of
      Inr u \<Rightarrow> utf8_valid u \<and> list_all (\<lambda>b. ccode b \<noteq> 0 \<and> b \<noteq> carriage \<and> b \<noteq> newline \<and> ccode b \<noteq> 0x7F) u
    | Inl e \<Rightarrow> e = Malformed)"
  by (auto simp: percent_decode_def decode_encode list_ex_iff list_all_iff split: option.splits)

text \<open>C20. Connection limits hold at all times: at most 64 connections are open and at most 16 of any
  one remote address, the counters are the numbers of open connections (so closing one never
  underflows and no address is remembered without one), and a connection is refused only when a limit is
  reached.\<close>

theorem connection_limits:
  assumes "slots_reach st live"
  shows "sl_total st = length live \<and> length live \<le> 64 \<and>
    (\<forall>ip. count_list live (Some ip) \<le> 16 \<and>
          hm_get (sl_per_peer st) ip = (if count_list live (Some ip) = 0 then None else Some (count_list live (Some ip)))) \<and>
    (fst (slot_admit peer st) = None \<longleftrightarrow>
       length live = 64 \<or> (\<exists>ip. peer = Some ip \<and> \<not> ip_is_loopback ip \<and> count_list live (Some ip) = 16))"
proof -
  have inv: "slots_inv st live" using assms by (rule slots_reach_inv)
  have "count_list live (Some ip) \<le> 16 \<and>
      hm_get (sl_per_peer st) ip = (if count_list live (Some ip) = 0 then None else Some (count_list live (Some ip)))" for ip
  proof -
    have "peer_ok (sl_per_peer st) live ip" using inv by (simp add: slots_inv_def)
    then show ?thesis by (auto simp: peer_ok_def split: option.splits)
  qed
  moreover have "fst (slot_admit peer st) = None \<longleftrightarrow>
       length live = 64 \<or> (\<exists>ip. peer = Some ip \<and> \<not> ip_is_loopback ip \<and> count_list live (Some ip) = 16)"
    using slot_admit_inv [OF inv, of peer] by (auto split: prod.splits option.splits)
  ultimately show ?thesis using inv by (simp add: slots_inv_def)
qed

section \<open>Witnesses\<close>

definition example_head :: Head where
  "example_head = \<lparr>hd_method = ''GET'', hd_target = ''/field/a'', hd_version = ''HTTP/1.1'', hd_headers = [(''host'', ''h'')]\<rparr>"

definition example_post :: Head where
  "example_post = \<lparr>hd_method = ''POST'', hd_target = ''/a%20b'', hd_version = ''HTTP/1.1'',
     hd_headers = [(''host'', ''h''), (''content-length'', ''2'')]\<rparr>"

lemma example_heads_wf: "head_wf example_head" "head_wf example_post"
  by (simp_all add: example_head_def example_post_def head_wf_def header_names good_target_def target_char_def
      good_header_def bad_value_def trim_no_ws is_ws_def hm_get_def starts_with_def)

lemma example_heads_parse:
  "parse_head (head_text ''GET'' ''/field/a'' ''HTTP/1.1'' [(''host'', ''h'')] @ s) = Inr (example_head, s)"
  "parse_head (head_text ''POST'' ''/a%20b'' ''HTTP/1.1'' [(''host'', ''h''), (''content-length'', ''2'')] @ s) = Inr (example_post, s)"
  using parse_head_text [OF example_heads_wf(1) [unfolded example_head_def], of s]
    parse_head_text [OF example_heads_wf(2) [unfolded example_post_def], of s]
  unfolding example_head_def example_post_def by (simp_all add: head_text_def head_line_def MAX_HEAD_def)

lemma length_sorted_lines: "length (concat (map head_line (sort hs))) = sum_list (map (length \<circ> head_line) hs)"
proof -
  have "sum_list (map (length \<circ> head_line) (sort hs)) = sum_list (map (length \<circ> head_line) hs)"
    by (metis mset_map mset_sort sum_mset_sum_list)
  then show ?thesis by (simp add: length_concat)
qed

theorem field_head_reads_back_witness:
  "\<exists>h'. parse_head (field_request_head example_head ''/a'' (V4 127 0 0 1, 8080) False None) = Inr (h', []) \<and>
     hm_get (hd_headers h') ''x-forwarded-host'' = Some ''h'' \<and> hm_get (hd_headers h') ''x-forwarded-for'' = None"
proof -
  have r: "field_route (hd_target example_head) = Some (Forward ''/a'')"
    by (simp add: example_head_def field_route_def FIELD_PREFIX_def)
  have "length (field_request_head example_head ''/a'' (V4 127 0 0 1, 8080) False None) \<le> 32768"
    by (simp add: field_request_head_def head_text_def length_sorted_lines example_head_def field_headers_def Let_def
        hm_get_def hm_remove_def wants_upgrade_def head_line_def show_v4_def show_nat.simps)
  from field_head_reads_back [OF example_heads_parse(1) [of "[]"] r this]
  show ?thesis by (auto simp: example_head_def hm_get_def)
qed

theorem parsed_request_framed_witness:
  "\<exists>r. parse_request (head_text ''POST'' ''/a%20b'' ''HTTP/1.1'' [(''host'', ''h''), (''content-length'', ''2'')] @ ''hiX'') = Inr (r, ''X'')
     \<and> length (rq_body r) \<le> 1048576"
proof -
  have "split_target ''/a%20b'' = Inr (''/a b'', [])" by code_simp
  moreover have "parse_usize ''2'' = Some 2"
    by (simp add: parse_usize_def parse_nat_def is_digit_def)
  ultimately obtain r where r: "parse_request (head_text ''POST'' ''/a%20b'' ''HTTP/1.1'' [(''host'', ''h''), (''content-length'', ''2'')] @ ''hiX'') = Inr (r, ''X'')"
    using example_heads_parse(2) [of "''hiX''"]
    by (simp add: parse_request_def parse_incoming_def parse_own_def example_post_def hm_get_def read_body_def MAX_REQUEST_BODY_BYTES_def)
  from parsed_request_framed [OF r] r show ?thesis by blast
qed

theorem connection_limits_witness:
  "fst (slot_admit (Some (V4 10 0 0 1)) slots_default) \<noteq> None \<and> sl_total slots_default = 0"
  using connection_limits [OF slots_reach.start, of "Some (V4 10 0 0 1)"] by simp

end
