(* ===== verification/Admission.thy ===== *)
theory Admission
  imports RateLimit
begin

text \<open>
  \<open>cameod/src/supervisor/admission.rs\<close> and \<open>lease.rs\<close>: which resident models are evicted for a new one,
  and when a session's claim on an endpoint lapses.  The abstract policy \<open>lru_policy\<close> is stated on
  natural numbers; \<open>admit\<close>, which works with saturating 64-bit arithmetic, refines it.
\<close>

section \<open>Model\<close>

record ResidentVram =
  rv_id :: string
  rv_vram_bytes :: u64
  rv_last_used :: time

datatype Admission = Admit | Evict "string list" | Refuse

fun evict_loop :: "u64 \<Rightarrow> u64 \<Rightarrow> u64 \<Rightarrow> string list \<Rightarrow> ResidentVram list \<Rightarrow> Admission" where
  "evict_loop budget need remaining evict [] = Refuse"
| "evict_loop budget need remaining evict (r # rs) =
     (let remaining' = sat_sub remaining (rv_vram_bytes r);
          evict' = evict @ [rv_id r]
      in if sat_add remaining' need \<le> budget then Evict evict'
         else evict_loop budget need remaining' evict' rs)"

definition admit :: "u64 \<Rightarrow> u64 \<Rightarrow> ResidentVram list \<Rightarrow> Admission" where
  "admit budget need residents =
     (if budget < need then Refuse
      else let used = foldl sat_add 0 (map rv_vram_bytes residents)
      in if sat_add used need \<le> budget then Admit
         else evict_loop budget need used [] (sort_key rv_last_used residents))"

definition exclude_leased_residents :: "string list \<Rightarrow> ResidentVram list \<Rightarrow> ResidentVram list" where
  "exclude_leased_residents protected residents = filter (\<lambda>r. rv_id r \<notin> set protected) residents"

definition LEASE_TTL_SECS :: u64 where
  "LEASE_TTL_SECS = 90"

record Lease =
  le_session_id :: string
  le_model :: string
  le_endpoint_id :: string
  le_recovered :: bool
  le_expires_at :: u64
  le_renewed_at :: "time option"

text \<open>\<open>epoch\<close> is the wall clock in seconds, \<open>now\<close> the monotonic clock \<open>renewed_at\<close> is read from.\<close>

definition lease_expired :: "u64 \<Rightarrow> time \<Rightarrow> Lease \<Rightarrow> bool" where
  "lease_expired epoch now l =
     (le_expires_at l \<le> epoch \<or>
      (case le_renewed_at l of
         None \<Rightarrow> False
       | Some t \<Rightarrow> unat LEASE_TTL_SECS \<le> (now - t) div secs 1))"

section \<open>The policy, on natural numbers\<close>

definition vram_sum :: "ResidentVram list \<Rightarrow> nat" where
  "vram_sum rs = sum_list (map (unat \<circ> rv_vram_bytes) rs)"

text \<open>Evict nothing if everything fits; otherwise the shortest prefix, least recently used first, that
  makes room; refuse what is larger than the whole budget.\<close>

definition lru_policy :: "nat \<Rightarrow> nat \<Rightarrow> ResidentVram list \<Rightarrow> Admission" where
  "lru_policy budget need residents =
     (if budget < need then Refuse
      else if vram_sum residents + need \<le> budget then Admit
      else let queue = sort_key rv_last_used residents;
               k = (LEAST k. vram_sum (drop k queue) + need \<le> budget)
           in Evict (map rv_id (take k queue)))"

section \<open>Lemmas\<close>

lemma vram_sum_simps [simp]:
  "vram_sum [] = 0" "vram_sum (r # rs) = unat (rv_vram_bytes r) + vram_sum rs"
  "vram_sum (xs @ ys) = vram_sum xs + vram_sum ys"
  by (simp_all add: vram_sum_def)

lemma vram_sum_sort [simp]: "vram_sum (sort_key f rs) = vram_sum rs"
  unfolding vram_sum_def by (metis mset_map mset_sort sum_mset_sum_list)

lemma foldl_sat_add_unat:
  "unat acc + vram_sum rs < 2 ^ 64 \<Longrightarrow>
     unat (foldl sat_add acc (map rv_vram_bytes rs)) = unat acc + vram_sum rs"
  by (induction rs arbitrary: acc) (simp_all add: u_nat min_def)

lemma sat_fits: "unat a + unat n < 2 ^ 64 \<Longrightarrow> sat_add (a :: u64) n \<le> b \<longleftrightarrow> unat a + unat n \<le> unat b"
  by (simp add: word_le_nat_alt u_nat min_def)

text \<open>The loop stops at the first suffix that leaves room.\<close>

lemma evict_loop_first:
  assumes "unat remaining = vram_sum rs" and "vram_sum rs + unat need < 2 ^ 64" and "unat need \<le> unat budget"
    and "rs \<noteq> []"
  shows "\<exists>k. 0 < k \<and> k \<le> length rs \<and> evict_loop budget need remaining ev rs = Evict (ev @ map rv_id (take k rs)) \<and>
     vram_sum (drop k rs) + unat need \<le> unat budget \<and>
     (\<forall>j. 0 < j \<longrightarrow> j < k \<longrightarrow> unat budget < vram_sum (drop j rs) + unat need)"
  using assms
proof (induction rs arbitrary: remaining ev)
  case (Cons r rs)
  define rem' where "rem' = sat_sub remaining (rv_vram_bytes r)"
  have rem': "unat rem' = vram_sum rs" using Cons.prems(1) by (simp add: rem'_def u_nat)
  have small: "unat rem' + unat need < 2 ^ 64" using Cons.prems(2) rem' by simp
  show ?case
  proof (cases "vram_sum rs + unat need \<le> unat budget")
    case True
    then show ?thesis using small rem' by (intro exI [of _ 1]) (simp add: Let_def sat_fits flip: rem'_def)
  next
    case False
    then have ne: "rs \<noteq> []" using Cons.prems(3) by auto
    from Cons.IH [OF rem' _ Cons.prems(3) ne, of "ev @ [rv_id r]"] Cons.prems(2) obtain k where k: "0 < k" "k \<le> length rs"
      "evict_loop budget need rem' (ev @ [rv_id r]) rs = Evict ((ev @ [rv_id r]) @ map rv_id (take k rs))"
      "vram_sum (drop k rs) + unat need \<le> unat budget"
      "\<forall>j. 0 < j \<longrightarrow> j < k \<longrightarrow> unat budget < vram_sum (drop j rs) + unat need" by auto
    have "unat budget < vram_sum (drop j (r # rs)) + unat need" if "0 < j" "j < Suc k" for j
    proof -
      from that obtain i where i: "j = Suc i" "i < k" by (cases j) auto
      show ?thesis using False k(5) i by (cases "i = 0") (simp_all add: not_le)
    qed
    with False k small rem' show ?thesis
      by (intro exI [of _ "Suc k"]) (simp add: Let_def sat_fits flip: rem'_def)
  qed
qed simp

lemma evict_loop_least:
  assumes "unat remaining = vram_sum rs" and "vram_sum rs + unat need < 2 ^ 64" and "unat need \<le> unat budget"
    and "unat budget < vram_sum rs + unat need"
  shows "evict_loop budget need remaining [] rs
    = Evict (map rv_id (take (LEAST k. vram_sum (drop k rs) + unat need \<le> unat budget) rs))"
proof -
  have "rs \<noteq> []" using assms(3,4) by auto
  from evict_loop_first [OF assms(1-3) this, of "[]"] obtain k where k: "0 < k"
    "evict_loop budget need remaining [] rs = Evict (map rv_id (take k rs))"
    "vram_sum (drop k rs) + unat need \<le> unat budget"
    "\<forall>j. 0 < j \<longrightarrow> j < k \<longrightarrow> unat budget < vram_sum (drop j rs) + unat need" by auto
  have "(LEAST k. vram_sum (drop k rs) + unat need \<le> unat budget) = k"
  proof (rule Least_equality)
    fix j
    assume j: "vram_sum (drop j rs) + unat need \<le> unat budget"
    show "k \<le> j"
    proof (rule ccontr)
      assume "\<not> k \<le> j"
      with k(4) have "unat budget < vram_sum (drop j rs) + unat need"
        using assms(4) by (cases "j = 0") (simp_all add: not_le)
      with j show False by simp
    qed
  qed (rule k(3))
  with k(2) show ?thesis by simp
qed

lemma exclude_leased_mem: "r \<in> set (exclude_leased_residents protected rs) \<Longrightarrow> rv_id r \<notin> set protected"
  by (simp add: exclude_leased_residents_def)

section \<open>Properties\<close>

text \<open>C7. Admission implements the least-recently-used policy.  As long as the sizes add up below
  \<open>2^64\<close>, the saturating loop answers exactly what the policy on natural numbers asks for: it refuses
  only a model larger than the whole budget, evicts nothing when everything fits, and otherwise evicts
  the shortest prefix of the residents, least recently used first, that makes room.\<close>

theorem admit_refines_lru:
  assumes "vram_sum residents + unat need < 2 ^ 64"
  shows "admit budget need residents = lru_policy (unat budget) (unat need) residents"
proof (cases "budget < need")
  case True
  then show ?thesis by (simp add: admit_def lru_policy_def word_less_nat_alt)
next
  case False
  define used where "used = foldl sat_add 0 (map rv_vram_bytes residents)"
  have used: "unat used = vram_sum residents"
    using foldl_sat_add_unat [of 0 residents] assms by (simp add: used_def)
  have le: "unat need \<le> unat budget" using False by (simp add: word_less_nat_alt)
  have fits: "sat_add used need \<le> budget \<longleftrightarrow> vram_sum residents + unat need \<le> unat budget"
    using sat_fits [of used need budget] assms used by simp
  show ?thesis
    using evict_loop_least [of used "sort_key rv_last_used residents" need budget] used assms le fits False
    by (auto simp: admit_def lru_policy_def Let_def word_less_nat_alt simp flip: used_def)
qed

theorem admit_refines_lru_witness:
  "admit 10 6 [\<lparr>rv_id = ''a'', rv_vram_bytes = 4, rv_last_used = 2\<rparr>, \<lparr>rv_id = ''b'', rv_vram_bytes = 5, rv_last_used = 1\<rparr>]
     = Evict [''b'']"
proof -
  let ?rs = "[\<lparr>rv_id = ''a'', rv_vram_bytes = 4, rv_last_used = 2\<rparr>, \<lparr>rv_id = ''b'', rv_vram_bytes = 5, rv_last_used = 1\<rparr>] :: ResidentVram list"
  let ?q = "sort_key rv_last_used ?rs"
  have least: "(LEAST k. vram_sum (drop k ?q) + 6 \<le> 10) = 1"
  proof (rule Least_equality)
    show "1 \<le> k" if "vram_sum (drop k ?q) + 6 \<le> 10" for k using that by (cases k) simp_all
  qed simp
  have "admit 10 6 ?rs = lru_policy (unat (10 :: u64)) (unat (6 :: u64)) ?rs"
    by (rule admit_refines_lru) simp
  with least show ?thesis by (simp add: lru_policy_def Let_def)
qed

end
