(* ===== verification/Store.thy ===== *)
theory Store
  imports Pairing
begin

text \<open>
  \<open>cameod/src/endpoint_store.rs\<close>: the durable record of endpoint intents, leases and sessions.  The
  directory is an association list from file names to contents; JSON and SHA-256 are the parameters
  gathered in \<open>Serde\<close>, and what the operating system answered to each file operation of a commit is its
  argument.  The owner lock, permissions and the symbolic-link checks are not modelled.
\<close>

section \<open>Model\<close>

definition LIMIT :: nat where
  "LIMIT = 4 * 1024 * 1024"

record 'v IntentState =
  is_endpoints :: "(string, 'v) btree_map"
  is_leases :: "(string, 'v) btree_map"
  is_sessions :: "(string, 'v) btree_map"

definition intent_default :: "'v IntentState" where
  "intent_default = \<lparr>is_endpoints = [], is_leases = [], is_sessions = []\<rparr>"

record 'v Snapshot =
  sn_version :: u32
  sn_generation :: u64
  sn_sha256 :: string
  sn_state :: "'v IntentState"

type_synonym directory = "(string, string) hash_map"

record 'v EndpointStore =
  es_generation :: u64
  es_state :: "'v IntentState"

text \<open>The libraries: the digest of a state, writing and reading a snapshot as JSON, and the string
  field of a JSON object.\<close>

record 'v Serde =
  sd_digest :: "'v IntentState \<Rightarrow> string option"
  sd_write :: "'v Snapshot \<Rightarrow> string option"
  sd_read :: "string \<Rightarrow> 'v Snapshot option"
  sd_str :: "'v \<Rightarrow> string \<Rightarrow> string option"

datatype store_error =
    MissingFile | InvalidFile | Corrupt | Mismatch | TooManyEndpoints | BadLeaseCollection | BadLeaseIdentity
  | BadSessionCollection | BadSessionIdentity | BadGenerationName | SessionLimit | LeaseLimit | EndpointLimit
  | GenerationExhausted | SerialiseFailed | StateTooLarge | RandomFailed | CreateFailed | WriteFailed
  | GenerationExists | RenameFailed | SyncFailed
  | DestinationExists | StagingFailed | DestinationAppeared | DestinationRenameFailed | ParentSyncFailed

definition nonempty_str :: "string option \<Rightarrow> bool" where
  "nonempty_str s = (case s of None \<Rightarrow> False | Some t \<Rightarrow> t \<noteq> [])"

definition lease_identity_ok :: "'v Serde \<Rightarrow> string \<times> 'v \<Rightarrow> bool" where
  "lease_identity_ok sd = (\<lambda>(i, l).
     \<not> (i = [] \<or> sd_str sd l ''session_id'' \<noteq> Some i \<or> \<not> nonempty_str (sd_str sd l ''model'') \<or>
        \<not> nonempty_str (sd_str sd l ''endpoint_id'')))"

definition session_identity_ok :: "'v Serde \<Rightarrow> string \<times> 'v \<Rightarrow> bool" where
  "session_identity_ok sd = (\<lambda>(i, s). \<not> (i = [] \<or> sd_str sd s ''id'' \<noteq> Some i))"

definition read_snapshot :: "'v Serde \<Rightarrow> string option \<Rightarrow> store_error + 'v Snapshot" where
  "read_snapshot sd file =
     (case file of
        None \<Rightarrow> Inl MissingFile
      | Some bytes \<Rightarrow>
          if LIMIT < length bytes then Inl InvalidFile
          else case sd_read sd bytes of
            None \<Rightarrow> Inl Corrupt
          | Some sn \<Rightarrow>
              if \<not> (1 \<le> sn_version sn \<and> sn_version sn \<le> 3) \<or> Some (sn_sha256 sn) \<noteq> sd_digest sd (sn_state sn)
              then Inl Mismatch
              else if 256 < length (is_endpoints (sn_state sn)) then Inl TooManyEndpoints
              else if 4096 < length (is_leases (sn_state sn)) \<or>
                      (sn_version sn = 1 \<and> is_leases (sn_state sn) \<noteq> []) then Inl BadLeaseCollection
              else if \<not> list_all (lease_identity_ok sd) (is_leases (sn_state sn)) then Inl BadLeaseIdentity
              else if 4096 < length (is_sessions (sn_state sn)) \<or>
                      (sn_version sn < 3 \<and> is_sessions (sn_state sn) \<noteq> []) then Inl BadSessionCollection
              else if \<not> list_all (session_identity_ok sd) (is_sessions (sn_state sn)) then Inl BadSessionIdentity
              else Inr sn)"

definition pad20 :: "string \<Rightarrow> string" where
  "pad20 s = replicate (20 - length s) (CHR ''0'') @ s"

definition state_file :: "u64 \<Rightarrow> string" where
  "state_file g = ''state-'' @ pad20 (show_nat (unat g)) @ ''.json''"

text \<open>The number in a file name \<open>state-N.json\<close>: no such name, not a number, or the generation.\<close>

definition generation_of :: "string \<Rightarrow> u64 option option" where
  "generation_of name =
     (case strip_prefix ''state-'' name of
        None \<Rightarrow> None
      | Some rest \<Rightarrow>
          (case strip_suffix ''.json'' rest of
             None \<Rightarrow> None
           | Some number \<Rightarrow> Some (parse_word number)))"

fun list_generations :: "directory \<Rightarrow> store_error + (u64 \<times> string) list" where
  "list_generations [] = Inr []"
| "list_generations ((name, contents) # items) =
     (case generation_of name of
        None \<Rightarrow> list_generations items
      | Some None \<Rightarrow> Inl BadGenerationName
      | Some (Some g) \<Rightarrow>
          (case list_generations items of Inl e \<Rightarrow> Inl e | Inr gs \<Rightarrow> Inr ((g, name) # gs)))"

definition generations :: "directory \<Rightarrow> store_error + (u64 \<times> string) list" where
  "generations dir =
     (case list_generations dir of Inl e \<Rightarrow> Inl e | Inr gs \<Rightarrow> Inr (sort_key fst gs))"

definition store_open :: "'v Serde \<Rightarrow> directory \<Rightarrow> store_error + 'v EndpointStore" where
  "store_open sd dir =
     (case generations dir of
        Inl e \<Rightarrow> Inl e
      | Inr gs \<Rightarrow>
          if gs = [] then Inr \<lparr>es_generation = 0, es_state = intent_default\<rparr>
          else (case last gs of (g, name) \<Rightarrow>
            (case read_snapshot sd (hm_get dir name) of
               Inl e \<Rightarrow> Inl e
             | Inr sn \<Rightarrow>
                 if sn_generation sn \<noteq> g then Inl Mismatch
                 else if 256 < length (is_endpoints (sn_state sn)) then Inl TooManyEndpoints
                 else Inr \<lparr>es_generation = g, es_state = sn_state sn\<rparr>)))"

definition has_history :: "'v EndpointStore \<Rightarrow> bool" where
  "has_history st = (0 < es_generation st)"

record CommitIo =
  ci_suffix :: "u8 list option"
  ci_create :: bool
  ci_write :: bool
  ci_rename :: bool
  ci_sync :: bool
  ci_cleanup :: bool
  ci_prune :: "string \<Rightarrow> bool"

definition intent_limits :: "'v IntentState \<Rightarrow> store_error option" where
  "intent_limits s =
     (if 4096 < length (is_sessions s) then Some SessionLimit
      else if 4096 < length (is_leases s) then Some LeaseLimit
      else if 256 < length (is_endpoints s) then Some EndpointLimit
      else None)"

text \<open>Writing the file: the outcome and the directory left behind.\<close>

definition write_generation ::
    "CommitIo \<Rightarrow> string \<Rightarrow> string \<Rightarrow> string \<Rightarrow> directory \<Rightarrow> store_error option \<times> directory" where
  "write_generation io temp target bytes dir =
     (if \<not> ci_create io \<or> hm_get dir temp \<noteq> None then (Some CreateFailed, dir)
      else if \<not> ci_write io then (Some WriteFailed, hm_insert temp bytes dir)
      else if hm_get dir target \<noteq> None then (Some GenerationExists, hm_insert temp bytes dir)
      else if \<not> ci_rename io then (Some RenameFailed, hm_insert temp bytes dir)
      else (if ci_sync io then None else Some SyncFailed, hm_insert target bytes dir))"

definition prune :: "(string \<Rightarrow> bool) \<Rightarrow> directory \<Rightarrow> directory" where
  "prune removed dir =
     (case generations dir of
        Inl e \<Rightarrow> dir
      | Inr gs \<Rightarrow>
          (let old = map snd (take (length gs - 2) gs)
           in hm_retain (\<lambda>name contents. \<not> (name \<in> set old \<and> removed name)) dir))"

definition commit ::
    "'v Serde \<Rightarrow> CommitIo \<Rightarrow> 'v IntentState \<Rightarrow> 'v EndpointStore \<Rightarrow> directory
     \<Rightarrow> store_error option \<times> 'v EndpointStore \<times> directory" where
  "commit sd io state st dir =
     (case intent_limits state of
        Some e \<Rightarrow> (Some e, st, dir)
      | None \<Rightarrow>
          if es_generation st = - 1 then (Some GenerationExhausted, st, dir)
          else let g = es_generation st + 1 in
          (case sd_digest sd state of
             None \<Rightarrow> (Some SerialiseFailed, st, dir)
           | Some dg \<Rightarrow>
               (case sd_write sd \<lparr>sn_version = 3, sn_generation = g, sn_sha256 = dg, sn_state = state\<rparr> of
                  None \<Rightarrow> (Some SerialiseFailed, st, dir)
                | Some bytes \<Rightarrow>
                    if LIMIT < length bytes then (Some StateTooLarge, st, dir)
                    else (case ci_suffix io of
                      None \<Rightarrow> (Some RandomFailed, st, dir)
                    | Some suffix \<Rightarrow>
                        (let temp = ''.pending-'' @ concat (map hex_byte suffix)
                         in case write_generation io temp (state_file g) bytes dir of
                              (Some e, dir1) \<Rightarrow>
                                (Some e, st, if ci_cleanup io then hm_remove temp dir1 else dir1)
                            | (None, dir1) \<Rightarrow>
                                (None, \<lparr>es_generation = g, es_state = state\<rparr>, prune (ci_prune io) dir1))))))"

definition backup :: "'v Serde \<Rightarrow> directory \<Rightarrow> store_error + string" where
  "backup sd dir =
     (case store_open sd dir of
        Inl e \<Rightarrow> Inl e
      | Inr st \<Rightarrow>
          (case sd_digest sd (es_state st) of
             None \<Rightarrow> Inl SerialiseFailed
           | Some dg \<Rightarrow>
               (case sd_write sd \<lparr>sn_version = 3, sn_generation = es_generation st, sn_sha256 = dg, sn_state = es_state st\<rparr> of
                  None \<Rightarrow> Inl SerialiseFailed
                | Some bytes \<Rightarrow>
                    (case read_snapshot sd (Some bytes) of Inl e \<Rightarrow> Inl e | Inr _ \<Rightarrow> Inr bytes))))"

text \<open>What the file system answered to a restore: whether the destination exists, before and after the
  staging directory was filled, and the outcome of each operation; the result is the destination's
  contents.\<close>

record RestoreIo =
  ro_exists :: bool
  ro_suffix :: "u8 list option"
  ro_stage :: bool
  ro_commit :: CommitIo
  ro_appeared :: bool
  ro_rename :: bool
  ro_sync :: bool

definition restore :: "'v Serde \<Rightarrow> RestoreIo \<Rightarrow> string \<Rightarrow> store_error + directory" where
  "restore sd io source =
     (case read_snapshot sd (Some source) of
        Inl e \<Rightarrow> Inl e
      | Inr sn \<Rightarrow>
          if ro_exists io then Inl DestinationExists
          else if ro_suffix io = None then Inl RandomFailed
          else if \<not> ro_stage io then Inl StagingFailed
          else (case store_open sd [] of
            Inl e \<Rightarrow> Inl e
          | Inr st \<Rightarrow>
              (case commit sd (ro_commit io) (sn_state sn) st [] of
                 (Some e, _, _) \<Rightarrow> Inl e
               | (None, _, dir) \<Rightarrow>
                   (case store_open sd dir of
                      Inl e \<Rightarrow> Inl e
                    | Inr _ \<Rightarrow>
                        if ro_appeared io then Inl DestinationAppeared
                        else if \<not> ro_rename io then Inl DestinationRenameFailed
                        else if \<not> ro_sync io then Inl ParentSyncFailed
                        else (case store_open sd dir of Inl e \<Rightarrow> Inl e | Inr _ \<Rightarrow> Inr dir)))))"

section \<open>Names of generations\<close>

lemma dec_value_zeros: "dec_value 0 (replicate k (CHR ''0'') @ s) = dec_value 0 s"
  by (induction k) simp_all

lemma parse_pad20: "parse_word (pad20 (show_nat (unat (g :: u64)))) = Some g"
proof -
  let ?s = "pad20 (show_nat (unat g))"
  have digits: "list_all is_digit ?s"
    using show_nat_digits [of "unat g"] by (auto simp: pad20_def list_all_iff) (simp add: is_digit_def)
  have ne: "?s \<noteq> []" by (simp add: pad20_def)
  have "hd ?s \<noteq> CHR ''+''"
  proof -
    have "is_digit (hd ?s)" using digits ne by (cases ?s) simp_all
    then show ?thesis by (auto simp: is_digit_def)
  qed
  then have "parse_nat ?s = Some (dec_value 0 ?s)"
    using digits ne by (cases ?s) (simp_all add: parse_nat_def)
  moreover have "dec_value 0 ?s = unat g" by (simp add: pad20_def dec_value_zeros dec_value_show_nat)
  moreover have "unat g < 2 ^ 64" using unsigned_less [of g, where 'a = nat] by simp
  ultimately show ?thesis by (simp add: parse_word_def)
qed

lemma strip_suffix_append [simp]: "strip_suffix p (s @ p) = Some s"
proof -
  have "strip_prefix (rev p) (rev p @ rev s) = Some (rev s)" by (simp only: strip_prefix_Some_iff)
  then show ?thesis by (simp add: strip_suffix_def)
qed

lemma generation_of_state_file [simp]: "generation_of (state_file g) = Some (Some g)"
proof -
  have "strip_prefix ''state-'' (state_file g) = Some (pad20 (show_nat (unat g)) @ ''.json'')"
    by (simp add: strip_prefix_Some_iff state_file_def)
  then show ?thesis by (simp only: generation_of_def option.case strip_suffix_append parse_pad20)
qed

lemma generation_of_pending [simp]: "generation_of (CHR ''.'' # s) = None"
  by (simp add: generation_of_def)

section \<open>What a directory says\<close>

definition is_generation :: "string \<times> string \<Rightarrow> bool" where
  "is_generation = (\<lambda>(name, contents). generation_of name \<noteq> None)"

definition generation_files :: "directory \<Rightarrow> directory" where
  "generation_files dir = filter is_generation dir"

lemma list_generations_files: "list_generations (generation_files dir) = list_generations dir"
  by (induction dir rule: list_generations.induct)
    (auto simp: generation_files_def is_generation_def split: option.splits)

lemma list_generations_Inr:
  "list_generations dir = Inr gs \<Longrightarrow>
     (g, name) \<in> set gs \<longleftrightarrow> generation_of name = Some (Some g) \<and> name \<in> fst ` set dir"
proof (induction dir arbitrary: gs)
  case (Cons item items)
  obtain nm c where item: "item = (nm, c)" by (cases item)
  show ?case
  proof (cases "generation_of nm")
    case None
    with Cons.prems item have "list_generations items = Inr gs" by simp
    from Cons.IH [OF this] None item show ?thesis by auto
  next
    case (Some x)
    with Cons.prems item obtain h gs' where "x = Some h" "list_generations items = Inr gs'" "gs = (h, nm) # gs'"
      by (auto split: option.splits sum.splits)
    with Cons.IH [of gs'] Some item show ?thesis by (cases "name = nm") auto
  qed
qed simp

lemma list_generations_names: "list_generations dir = Inr gs \<Longrightarrow> distinct (map fst dir) \<Longrightarrow> distinct (map snd gs)"
proof (induction dir arbitrary: gs rule: list_generations.induct)
  case (2 name contents items)
  have "n \<in> fst ` set items" if "list_generations items = Inr gs'" "(g, n) \<in> set gs'" for gs' g n
    using list_generations_Inr [OF that(1)] that(2) by blast
  then show ?case using 2 by (fastforce split: option.splits sum.splits)
qed auto

lemma list_generations_ok_iff:
  "(\<exists>gs. list_generations dir = Inr gs) \<longleftrightarrow> (\<forall>name \<in> fst ` set dir. generation_of name \<noteq> Some None)"
  by (induction dir rule: list_generations.induct) (auto split: option.splits sum.splits)

lemma last_sort_key:
  assumes "x \<in> set l" and "\<And>y. y \<in> set l \<Longrightarrow> y \<noteq> x \<Longrightarrow> f y < (f x :: 'b::linorder)"
  shows "last (sort_key f l) = x"
proof -
  have ne: "sort_key f l \<noteq> []" using assms(1) by (metis set_sort empty_iff empty_set)
  have x: "x \<in> set (sort_key f l)" using assms(1) by simp
  have "f x \<le> f (last (sort_key f l))"
  proof -
    have "sorted (map f (butlast (sort_key f l) @ [last (sort_key f l)]))" using ne by simp
    moreover have "x \<in> set (butlast (sort_key f l) @ [last (sort_key f l)])" using ne x by simp
    ultimately show ?thesis by (auto simp: sorted_append)
  qed
  moreover have "last (sort_key f l) \<in> set l" using last_in_set [OF ne] by simp
  ultimately show ?thesis using assms(2) by (meson leD)
qed

text \<open>A directory whose newest generation is \<open>name\<close> opens to the snapshot in that file.\<close>

lemma store_open_newest:
  assumes "distinct (map fst dir)" and "\<forall>n \<in> fst ` set dir. generation_of n \<noteq> Some None"
    and "(name, bytes) \<in> set dir" and "generation_of name = Some (Some g)"
    and "\<And>n h. n \<in> fst ` set dir \<Longrightarrow> generation_of n = Some (Some h) \<Longrightarrow> n \<noteq> name \<Longrightarrow> h < g"
  shows "store_open sd dir =
    (case read_snapshot sd (Some bytes) of
       Inl e \<Rightarrow> Inl e
     | Inr sn \<Rightarrow> if sn_generation sn \<noteq> g then Inl Mismatch
         else if 256 < length (is_endpoints (sn_state sn)) then Inl TooManyEndpoints
         else Inr \<lparr>es_generation = g, es_state = sn_state sn\<rparr>)"
proof -
  obtain gs where gs: "list_generations dir = Inr gs" using list_generations_ok_iff assms(2) by blast
  note mem = list_generations_Inr [OF gs]
  have in_dir: "name \<in> fst ` set dir" using assms(3) by force
  then have in_gs: "(g, name) \<in> set gs" using mem assms(4) by blast
  moreover have "fst y < fst (g, name)" if "y \<in> set gs" "y \<noteq> (g, name)" for y
  proof -
    obtain h n where y: "y = (h, n)" by (cases y)
    then have n: "generation_of n = Some (Some h)" "n \<in> fst ` set dir" using mem that(1) by blast+
    have "n \<noteq> name" using n(1) assms(4) that(2) y by auto
    with assms(5) n y show ?thesis by simp
  qed
  ultimately have "last (sort_key fst gs) = (g, name)" by (rule last_sort_key)
  moreover have "sort_key fst gs \<noteq> []" using in_gs by (metis set_sort empty_iff empty_set)
  moreover have "hm_get dir name = Some bytes" using assms(1,3) by (simp add: hm_get_def)
  ultimately show ?thesis by (simp add: store_open_def generations_def gs)
qed

lemma hm_get_files: "is_generation (name, c) \<Longrightarrow> hm_get (generation_files dir) name = hm_get dir name"
  by (induction dir) (auto simp: generation_files_def hm_get_def is_generation_def)

text \<open>Opening looks at generation files only.\<close>

lemma store_open_files:
  assumes "generation_files dir = generation_files dir'"
  shows "store_open sd dir = store_open sd dir'"
proof -
  have g: "list_generations dir = list_generations dir'"
    using list_generations_files [of dir] list_generations_files [of dir'] assms by simp
  show ?thesis
  proof (cases "list_generations dir'")
    case (Inr gs)
    show ?thesis
    proof (cases "sort_key fst gs = []")
      case False
      obtain h name where l: "last (sort_key fst gs) = (h, name)" by (cases "last (sort_key fst gs)")
      then have "(h, name) \<in> set gs" using last_in_set [OF False] by simp
      then have "is_generation (name, [])" using list_generations_Inr [OF Inr] by (simp add: is_generation_def)
      then have "hm_get dir name = hm_get dir' name" using hm_get_files assms by metis
      with g Inr False l show ?thesis by (simp add: store_open_def generations_def)
    qed (simp add: store_open_def generations_def g Inr)
  qed (simp add: store_open_def generations_def g)
qed

text \<open>Every generation in an openable directory is at most the one opened.\<close>

lemma store_open_bound:
  assumes "store_open sd dir = Inr st"
  shows "\<forall>n \<in> fst ` set dir. generation_of n \<noteq> Some None"
    and "n \<in> fst ` set dir \<Longrightarrow> generation_of n = Some (Some h) \<Longrightarrow> h \<le> es_generation st"
proof -
  obtain gs where gs: "list_generations dir = Inr gs"
    using assms by (auto simp: store_open_def generations_def split: sum.splits)
  then show "\<forall>n \<in> fst ` set dir. generation_of n \<noteq> Some None" using list_generations_ok_iff by blast
  assume n: "n \<in> fst ` set dir" "generation_of n = Some (Some h)"
  then have mem: "(h, n) \<in> set (sort_key fst gs)" using list_generations_Inr [OF gs] by simp
  then have ne: "sort_key fst gs \<noteq> []" by (metis empty_iff empty_set)
  have "sorted (map fst (butlast (sort_key fst gs) @ [last (sort_key fst gs)]))" using ne by simp
  moreover have "(h, n) \<in> set (butlast (sort_key fst gs) @ [last (sort_key fst gs)])" using ne mem by simp
  ultimately have "h \<le> fst (last (sort_key fst gs))" by (auto simp: sorted_append dest!: sym [of "(h, n)"])
  moreover have "es_generation st = fst (last (sort_key fst gs))"
    using assms gs ne by (auto simp: store_open_def generations_def split: prod.splits sum.splits if_splits)
  ultimately show "h \<le> es_generation st" by simp
qed

section \<open>Commits\<close>

text \<open>What is relied on of the JSON library: a snapshot it wrote is read back as it was.\<close>

definition serde_ok :: "'v Serde \<Rightarrow> bool" where
  "serde_ok sd = (\<forall>sn bytes. sd_write sd sn = Some bytes \<longrightarrow> sd_read sd bytes = Some sn)"

definition identities_ok :: "'v Serde \<Rightarrow> 'v IntentState \<Rightarrow> bool" where
  "identities_ok sd s = (list_all (lease_identity_ok sd) (is_leases s) \<and> list_all (session_identity_ok sd) (is_sessions s))"

lemma generation_files_insert:
  "generation_of temp = None \<Longrightarrow> generation_files (hm_insert temp b dir) = generation_files dir"
  by (induction dir) (auto simp: generation_files_def is_generation_def)

lemma generation_files_remove:
  "generation_of temp = None \<Longrightarrow> generation_files (hm_remove temp dir) = generation_files dir"
  by (induction dir) (auto simp: generation_files_def is_generation_def hm_remove_def)

lemma write_generation_cases:
  assumes "write_generation io temp target bytes dir = (r, dir1)" and "generation_of temp = None"
  shows "hm_get dir target = None \<and> dir1 = hm_insert target bytes dir \<and> (r = None \<or> r = Some SyncFailed) \<or>
    (\<exists>e. r = Some e \<and> e \<noteq> SyncFailed \<and> generation_files dir1 = generation_files dir)"
  using assms by (auto simp: write_generation_def generation_files_insert split: if_splits)

definition committed_file :: "'v Serde \<Rightarrow> 'v IntentState \<Rightarrow> 'v EndpointStore \<Rightarrow> string \<Rightarrow> bool" where
  "committed_file sd s st bytes =
     (\<exists>dg. sd_digest sd s = Some dg \<and> length bytes \<le> LIMIT \<and> intent_limits s = None \<and> es_generation st \<noteq> - 1 \<and>
        sd_write sd \<lparr>sn_version = 3, sn_generation = es_generation st + 1, sn_sha256 = dg, sn_state = s\<rparr> = Some bytes)"

lemma commit_cases:
  assumes "commit sd io s st dir = (r, st', dir')"
  obtains
    (failed) e where "r = Some e" "e \<noteq> SyncFailed" "st' = st" "generation_files dir' = generation_files dir"
  | (unsynced) bytes where "r = Some SyncFailed" "st' = st" "committed_file sd s st bytes"
      "hm_get dir (state_file (es_generation st + 1)) = None"
      "generation_files dir' = generation_files (hm_insert (state_file (es_generation st + 1)) bytes dir)"
  | (written) bytes where "r = None" "st' = \<lparr>es_generation = es_generation st + 1, es_state = s\<rparr>" "committed_file sd s st bytes"
      "hm_get dir (state_file (es_generation st + 1)) = None"
      "dir' = prune (ci_prune io) (hm_insert (state_file (es_generation st + 1)) bytes dir)"
proof (cases "\<exists>bytes suffix. committed_file sd s st bytes \<and> ci_suffix io = Some suffix")
  case False
  then have "(\<exists>e. r = Some e \<and> e \<noteq> SyncFailed) \<and> st' = st \<and> dir' = dir"
    using assms by (auto simp: commit_def committed_file_def intent_limits_def Let_def linorder_not_less split: option.splits if_splits)
  with failed show ?thesis by auto
next
  case True
  then obtain bytes suffix where b: "committed_file sd s st bytes" and x: "ci_suffix io = Some suffix" by blast
  define temp where "temp = ''.pending-'' @ concat (map hex_byte suffix)"
  have temp: "generation_of temp = None" by (simp add: temp_def)
  let ?target = "state_file (es_generation st + 1)"
  obtain w dir1 where w: "write_generation io temp ?target bytes dir = (w, dir1)"
    by (cases "write_generation io temp ?target bytes dir")
  have c: "(r, st', dir') =
      (case w of Some e \<Rightarrow> (Some e, st, if ci_cleanup io then hm_remove temp dir1 else dir1)
       | None \<Rightarrow> (None, \<lparr>es_generation = es_generation st + 1, es_state = s\<rparr>, prune (ci_prune io) dir1))"
    using assms b x w by (auto simp: commit_def committed_file_def temp_def Let_def split: option.splits)
  have same: "generation_files (if ci_cleanup io then hm_remove temp dir1 else dir1) = generation_files dir1"
    using generation_files_remove [OF temp] by simp
  from write_generation_cases [OF w temp] show ?thesis
  proof (elim disjE conjE exE)
    assume d: "hm_get dir ?target = None" "dir1 = hm_insert ?target bytes dir" and "w = None"
    with written [OF _ _ b] c show ?thesis by simp
  next
    assume d: "hm_get dir ?target = None" "dir1 = hm_insert ?target bytes dir" and "w = Some SyncFailed"
    with unsynced [OF _ _ b] c same show ?thesis by (simp split: if_splits)
  next
    fix e
    assume "w = Some e" "e \<noteq> SyncFailed" "generation_files dir1 = generation_files dir"
    with failed c same show ?thesis by (simp split: if_splits)
  qed
qed

lemma read_committed:
  assumes "serde_ok sd" and "committed_file sd s st bytes" and "identities_ok sd s"
  shows "\<exists>dg. read_snapshot sd (Some bytes) =
    Inr \<lparr>sn_version = 3, sn_generation = es_generation st + 1, sn_sha256 = dg, sn_state = s\<rparr>"
proof -
  obtain dg where dg: "sd_digest sd s = Some dg" "length bytes \<le> LIMIT" "intent_limits s = None"
    and w: "sd_write sd \<lparr>sn_version = 3, sn_generation = es_generation st + 1, sn_sha256 = dg, sn_state = s\<rparr> = Some bytes"
    using assms(2) by (auto simp: committed_file_def)
  have "sd_read sd bytes = Some \<lparr>sn_version = 3, sn_generation = es_generation st + 1, sn_sha256 = dg, sn_state = s\<rparr>"
    using assms(1) w by (simp add: serde_ok_def)
  then show ?thesis using dg assms(3)
    by (auto simp: read_snapshot_def identities_ok_def intent_limits_def split: if_splits)
qed

text \<open>A directory in which the new file is the newest opens to the committed state.\<close>

lemma open_committed:
  assumes "serde_ok sd" and "committed_file sd s st bytes" and "identities_ok sd s" and "distinct (map fst dir)"
    and "store_open sd dir0 = Inr st" and "fst ` set dir \<subseteq> insert (state_file (es_generation st + 1)) (fst ` set dir0)"
    and "(state_file (es_generation st + 1), bytes) \<in> set dir"
  shows "store_open sd dir = Inr \<lparr>es_generation = es_generation st + 1, es_state = s\<rparr>"
proof -
  let ?target = "state_file (es_generation st + 1)"
  obtain dg where sn: "read_snapshot sd (Some bytes) =
      Inr \<lparr>sn_version = 3, sn_generation = es_generation st + 1, sn_sha256 = dg, sn_state = s\<rparr>"
    using read_committed [OF assms(1-3)] by blast
  have lim: "\<not> 256 < length (is_endpoints s)" and top: "es_generation st \<noteq> - 1"
    using assms(2) by (auto simp: committed_file_def intent_limits_def split: if_splits)
  have "store_open sd dir =
    (case read_snapshot sd (Some bytes) of
       Inl e \<Rightarrow> Inl e
     | Inr sn \<Rightarrow> if sn_generation sn \<noteq> es_generation st + 1 then Inl Mismatch
         else if 256 < length (is_endpoints (sn_state sn)) then Inl TooManyEndpoints
         else Inr \<lparr>es_generation = es_generation st + 1, es_state = sn_state sn\<rparr>)"
  proof (rule store_open_newest [OF assms(4) _ assms(7) generation_of_state_file])
    show "\<forall>n \<in> fst ` set dir. generation_of n \<noteq> Some None"
    proof
      fix n assume "n \<in> fst ` set dir"
      then have "n = ?target \<or> n \<in> fst ` set dir0" using assms(6) by (meson insertE subsetD)
      then show "generation_of n \<noteq> Some None"
      proof
        assume "n = ?target"
        then show ?thesis by simp
      next
        assume "n \<in> fst ` set dir0"
        with store_open_bound(1) [OF assms(5)] show ?thesis by (rule bspec)
      qed
    qed
    show "h < es_generation st + 1" if "n \<in> fst ` set dir" "generation_of n = Some (Some h)" "n \<noteq> ?target" for n h
    proof -
      have "n \<in> fst ` set dir0" using assms(6) that(1,3) by (meson insertE subsetD)
      then have "h \<le> es_generation st" using that(2) by (rule store_open_bound(2) [OF assms(5)])
      moreover have "es_generation st < es_generation st + 1" using sat_add_1(1,3) [of "es_generation st"] top by simp
      ultimately show ?thesis by (rule order_le_less_trans)
    qed
  qed
  then show ?thesis using sn lim by simp
qed

lemma last_not_pruned:
  assumes "distinct (map snd l)" and "l \<noteq> []" and "last l = (a, t)"
  shows "t \<notin> set (map snd (take (length l - 2) l))"
proof -
  have l: "l = butlast l @ [(a, t)]" using assms(2,3) by (metis append_butlast_last_id)
  then have "t \<notin> set (map snd (butlast l))" using assms(1) by (metis distinct_append disjoint_insert(1) list.set(2) list.simps(9) map_append snd_conv)
  moreover have "set (take (length l - 2) l) \<subseteq> set (butlast l)"
    by (metis butlast_conv_take diff_le_mono2 one_le_numeral set_take_subset_set_take)
  ultimately show ?thesis by auto
qed

lemma prune_keeps:
  assumes "distinct (map fst dir)" and "\<forall>n \<in> fst ` set dir. generation_of n \<noteq> Some None"
    and "(name, bytes) \<in> set dir" and "generation_of name = Some (Some g)"
    and "\<And>n h. n \<in> fst ` set dir \<Longrightarrow> generation_of n = Some (Some h) \<Longrightarrow> n \<noteq> name \<Longrightarrow> h < g"
  shows "(name, bytes) \<in> set (prune removed dir)"
proof -
  obtain gs where gs: "list_generations dir = Inr gs" using list_generations_ok_iff assms(2) by blast
  let ?l = "sort_key fst gs"
  have in_gs: "(g, name) \<in> set gs"
    using list_generations_Inr [OF gs] assms(3,4) by (metis fst_conv image_eqI)
  have "last ?l = (g, name)"
  proof (rule last_sort_key [OF in_gs])
    fix y assume y: "y \<in> set gs" "y \<noteq> (g, name)"
    obtain h n where hn: "y = (h, n)" by (cases y)
    then have n: "generation_of n = Some (Some h)" "n \<in> fst ` set dir" using list_generations_Inr [OF gs] y(1) by blast+
    have "n \<noteq> name" using n(1) assms(4) y(2) hn by auto
    with assms(5) n hn show "fst y < fst (g, name)" by simp
  qed
  moreover have "distinct (map snd ?l)"
  proof -
    have "mset (map snd ?l) = mset (map snd gs)" by simp
    then show ?thesis using list_generations_names [OF gs assms(1)] mset_eq_imp_distinct_iff by blast
  qed
  moreover have "?l \<noteq> []" using in_gs by (metis set_sort empty_iff empty_set)
  ultimately have "name \<notin> set (map snd (take (length ?l - 2) ?l))" by (intro last_not_pruned)
  then show ?thesis using assms(3) by (simp add: prune_def generations_def gs Let_def hm_retain_def)
qed

lemma prune_subset: "set (prune removed dir) \<subseteq> set dir" "distinct (map fst dir) \<Longrightarrow> distinct (map fst (prune removed dir))"
  by (auto simp: prune_def Let_def hm_retain_def distinct_map_filter split: sum.splits)

lemma inserted_dir:
  assumes "distinct (map fst dir)" and "hm_get dir t = None"
  shows "hm_insert t b dir = dir @ [(t, b)]" and "distinct (map fst (hm_insert t b dir))"
proof -
  show e: "hm_insert t b dir = dir @ [(t, b)]"
    using assms(2) by (induction dir) (auto simp: hm_get_def)
  show "distinct (map fst (hm_insert t b dir))" using assms by (auto simp: e hm_get_def map_of_eq_None_iff)
qed

lemma open_after_commit:
  assumes "serde_ok sd" and "hm_wf dir" and "store_open sd dir = Inr st" and "identities_ok sd s"
    and "committed_file sd s st bytes" and "hm_get dir (state_file (es_generation st + 1)) = None"
  shows "store_open sd (hm_insert (state_file (es_generation st + 1)) bytes dir)
      = Inr \<lparr>es_generation = es_generation st + 1, es_state = s\<rparr>" (is "?now")
    and "store_open sd (prune removed (hm_insert (state_file (es_generation st + 1)) bytes dir))
      = Inr \<lparr>es_generation = es_generation st + 1, es_state = s\<rparr>" (is "?pruned")
    and "hm_wf (prune removed (hm_insert (state_file (es_generation st + 1)) bytes dir))"
proof -
  let ?t = "state_file (es_generation st + 1)"
  let ?d = "hm_insert ?t bytes dir"
  have wf: "distinct (map fst dir)" using assms(2) by (simp add: hm_wf_def)
  note ins = inserted_dir [OF wf assms(6), of bytes]
  have names: "fst ` set ?d \<subseteq> insert ?t (fst ` set dir)" and mem: "(?t, bytes) \<in> set ?d" by (auto simp: ins(1))
  show ?now by (rule open_committed [OF assms(1,5,4) ins(2) assms(3) names mem])
  have top: "es_generation st < es_generation st + 1"
    using assms(5) sat_add_1(1,3) [of "es_generation st"] by (auto simp: committed_file_def)
  have "(?t, bytes) \<in> set (prune removed ?d)"
  proof (rule prune_keeps [OF ins(2) _ mem generation_of_state_file])
    show "\<forall>n \<in> fst ` set ?d. generation_of n \<noteq> Some None"
      using store_open_bound(1) [OF assms(3)] by (auto simp: ins(1))
    show "h < es_generation st + 1" if "n \<in> fst ` set ?d" "generation_of n = Some (Some h)" "n \<noteq> ?t" for n h
    proof -
      have "n \<in> fst ` set dir" using that(1,3) by (auto simp: ins(1))
      then have "h \<le> es_generation st" using that(2) by (rule store_open_bound(2) [OF assms(3)])
      then show ?thesis using top by (rule order_le_less_trans)
    qed
  qed
  moreover have "fst ` set (prune removed ?d) \<subseteq> insert ?t (fst ` set dir)"
    using image_mono [OF prune_subset(1)] names by (rule order_trans)
  ultimately show ?pruned using prune_subset(2) [OF ins(2)]
    by (intro open_committed [OF assms(1,5,4) _ assms(3)])
  show "hm_wf (prune removed ?d)" using prune_subset(2) [OF ins(2)] by (simp add: hm_wf_def)
qed

section \<open>Properties\<close>

text \<open>C10. Commits are durable and atomic.  After a successful commit, opening the directory gives
  exactly the committed state and generation, although older files were pruned; after a failed one
  (other than a failed directory sync) the store keeps its state and opening the directory still gives
  the previous commit.\<close>

theorem commit_durable:
  assumes "serde_ok sd" and "hm_wf dir" and "store_open sd dir = Inr st" and "identities_ok sd s"
    and "commit sd io s st dir = (r, st', dir')"
  shows "case r of
      None \<Rightarrow> es_state st' = s \<and> es_generation st' = es_generation st + 1 \<and> store_open sd dir' = Inr st' \<and> hm_wf dir'
    | Some e \<Rightarrow> st' = st \<and> (e \<noteq> SyncFailed \<longrightarrow> store_open sd dir' = Inr st)"
  using assms(5)
proof (cases rule: commit_cases)
  case (failed e)
  then show ?thesis using assms(3) store_open_files [of dir' dir sd] by simp
next
  case (unsynced bytes)
  then show ?thesis by simp
next
  case (written bytes)
  then show ?thesis using open_after_commit [OF assms(1-4) written(3,4)] by simp
qed

text \<open>A sequence of commits by one owner of the store, whatever the file system answers to each: their
  outcomes, the store and the directory.\<close>

fun commits ::
    "'v Serde \<Rightarrow> (CommitIo \<times> 'v IntentState) list \<Rightarrow> 'v EndpointStore \<Rightarrow> directory
     \<Rightarrow> store_error option list \<times> 'v EndpointStore \<times> directory" where
  "commits sd [] st dir = ([], st, dir)"
| "commits sd ((io, s) # cs) st dir =
     (case commit sd io s st dir of
        (r, st1, dir1) \<Rightarrow> (case commits sd cs st1 dir1 of (rs, st2, dir2) \<Rightarrow> (r # rs, st2, dir2)))"

lemma commits_wedged:
  assumes "hm_get dir (state_file (es_generation st + 1)) = Some bytes" and "commits sd cs st dir = (rs, st', dir')"
  shows "length rs = length cs \<and> (\<forall>r \<in> set rs. r \<noteq> None) \<and> st' = st \<and> generation_files dir' = generation_files dir"
  using assms
proof (induction cs arbitrary: dir rs)
  case (Cons c cs)
  obtain io s where c: "c = (io, s)" by (cases c)
  obtain r st1 dir1 where one: "commit sd io s st dir = (r, st1, dir1)" by (rule prod_cases3)
  obtain rs2 st2 dir2 where rest: "commits sd cs st1 dir1 = (rs2, st2, dir2)" by (rule prod_cases3)
  have out: "rs = r # rs2" "st' = st2" "dir' = dir2" using Cons.prems(2) c one rest by simp_all
  from one have f: "r \<noteq> None \<and> st1 = st \<and> generation_files dir1 = generation_files dir"
    by (cases rule: commit_cases) (use Cons.prems(1) in simp_all)
  let ?t = "state_file (es_generation st + 1)"
  have t: "is_generation (?t, [])" by (simp add: is_generation_def)
  have "hm_get dir1 ?t = hm_get (generation_files dir1) ?t" by (rule hm_get_files [OF t, symmetric])
  also have "\<dots> = hm_get dir ?t" unfolding f [THEN conjunct2, THEN conjunct2] by (rule hm_get_files [OF t])
  finally have "hm_get dir1 ?t = Some bytes" unfolding Cons.prems(1) .
  from Cons.IH [OF this] rest f out show ?case by auto
qed simp

text \<open>C34. A failed directory sync wedges the store.  The commit reports failure and the store keeps
  its old state, but the new file is in place: every commit after it by the same owner fails, however many
  there are, whatever state they carry and whatever the file system answers, and at any point of that a
  restart adopts the state that was refused.\<close>

theorem sync_failure_wedges:
  assumes "serde_ok sd" and "hm_wf dir" and "store_open sd dir = Inr st" and "identities_ok sd s"
    and "commit sd io s st dir = (Some SyncFailed, st', dir')" and "commits sd cs st' dir' = (rs, st'', dir'')"
  shows "st' = st \<and> length rs = length cs \<and> (\<forall>r \<in> set rs. r \<noteq> None) \<and> st'' = st \<and>
    store_open sd dir'' = Inr \<lparr>es_generation = es_generation st + 1, es_state = s\<rparr>"
  using assms(5)
proof (cases rule: commit_cases)
  case (unsynced bytes)
  let ?t = "state_file (es_generation st + 1)"
  have op: "store_open sd dir' = Inr \<lparr>es_generation = es_generation st + 1, es_state = s\<rparr>"
    using open_after_commit(1) [OF assms(1-4) unsynced(3,4)] store_open_files [OF unsynced(5), of sd] by simp
  have "hm_get dir' ?t = hm_get (hm_insert ?t bytes dir) ?t"
    using hm_get_files [of ?t _ dir'] hm_get_files [of ?t _ "hm_insert ?t bytes dir"] unsynced(5)
    by (simp add: is_generation_def)
  then have "hm_get dir' (state_file (es_generation st' + 1)) = Some bytes" using unsynced(2) by (simp add: map_laws)
  note w = commits_wedged [OF this assms(6)]
  then have "store_open sd dir'' = store_open sd dir'" by (intro store_open_files) simp
  with w op unsynced(2) show ?thesis by simp
qed simp_all

text \<open>C35. Restoring a backup gives back the state: a backup taken of an openable directory and
  restored elsewhere opens to the same endpoints, leases and sessions, as generation 1.\<close>

theorem backup_restore:
  assumes "serde_ok sd" and "backup sd dir = Inr bytes" and "restore sd io bytes = Inr dir'"
  shows "\<exists>st. store_open sd dir = Inr st \<and> store_open sd dir' = Inr \<lparr>es_generation = 1, es_state = es_state st\<rparr>"
proof -
  obtain st dg where st: "store_open sd dir = Inr st" and w: "sd_write sd \<lparr>sn_version = 3, sn_generation = es_generation st,
      sn_sha256 = dg, sn_state = es_state st\<rparr> = Some bytes"
    using assms(2) by (auto simp: backup_def split: sum.splits option.splits)
  have rd: "sd_read sd bytes = Some \<lparr>sn_version = 3, sn_generation = es_generation st, sn_sha256 = dg, sn_state = es_state st\<rparr>"
    using assms(1) w by (simp add: serde_ok_def)
  let ?new = "\<lparr>es_generation = 0, es_state = intent_default\<rparr>"
  have new: "store_open sd [] = Inr ?new" by (simp add: store_open_def generations_def)
  obtain sn st2 where sn: "read_snapshot sd (Some bytes) = Inr sn"
      and c: "commit sd (ro_commit io) (sn_state sn) ?new [] = (None, st2, dir')"
    using assms(3) new by (auto simp: restore_def split: sum.splits option.splits prod.splits if_splits)
  have "sn_state sn = es_state st" and ids: "identities_ok sd (sn_state sn)"
    using sn rd by (auto simp: read_snapshot_def identities_ok_def split: if_splits)
  note fresh = open_after_commit [OF assms(1) hm_wf_Nil new ids]
  from c have "store_open sd dir' = Inr st2" "es_state st2 = sn_state sn" "es_generation st2 = 1"
    by (cases rule: commit_cases; use fresh in simp)+
  then have "st2 = \<lparr>es_generation = 1, es_state = es_state st\<rparr>" using \<open>sn_state sn = es_state st\<close> by simp
  with st \<open>store_open sd dir' = Inr st2\<close> show ?thesis by blast
qed

section \<open>Witnesses\<close>

definition example_snapshot :: "unit Snapshot" where
  "example_snapshot = \<lparr>sn_version = 3, sn_generation = 1, sn_sha256 = ''d'', sn_state = intent_default\<rparr>"

definition example_serde :: "unit Serde" where
  "example_serde = \<lparr>sd_digest = (\<lambda>s. Some ''d''),
     sd_write = (\<lambda>sn. if sn = example_snapshot then Some ''x'' else None),
     sd_read = (\<lambda>b. if b = ''x'' then Some example_snapshot else None), sd_str = (\<lambda>v k. None)\<rparr>"

definition example_io :: "bool \<Rightarrow> CommitIo" where
  "example_io sync = \<lparr>ci_suffix = Some [], ci_create = True, ci_write = True, ci_rename = True, ci_sync = sync,
     ci_cleanup = True, ci_prune = (\<lambda>n. True)\<rparr>"

definition example_restore :: RestoreIo where
  "example_restore = \<lparr>ro_exists = False, ro_suffix = Some [], ro_stage = True, ro_commit = example_io True,
     ro_appeared = False, ro_rename = True, ro_sync = True\<rparr>"

abbreviation empty_store :: "unit EndpointStore" where
  "empty_store \<equiv> \<lparr>es_generation = 0, es_state = intent_default\<rparr>"

lemma example_serde_ok: "serde_ok example_serde" "identities_ok example_serde intent_default"
  "store_open example_serde [] = Inr empty_store"
  by (auto simp: serde_ok_def example_serde_def identities_ok_def intent_default_def store_open_def generations_def
      split: if_splits)

lemma example_commit:
  "fst (commit example_serde (example_io sync) intent_default empty_store []) = (if sync then None else Some SyncFailed)"
  by (simp add: commit_def example_serde_def example_io_def intent_limits_def intent_default_def example_snapshot_def Let_def
      write_generation_def LIMIT_def hm_get_def)

lemma example_commitE:
  obtains st' dir' where "commit example_serde (example_io sync) intent_default empty_store [] =
    ((if sync then None else Some SyncFailed), st', dir')"
proof -
  obtain r st' dir' where "commit example_serde (example_io sync) intent_default empty_store [] = (r, st', dir')"
    by (rule prod_cases3)
  with example_commit [of sync] that show ?thesis by simp
qed

theorem commit_durable_witness:
  "\<exists>st' dir'. commit example_serde (example_io True) intent_default empty_store [] = (None, st', dir') \<and>
     store_open example_serde dir' = Inr st' \<and> es_generation st' = 1"
proof (rule example_commitE [of True])
  fix st' dir'
  assume c: "commit example_serde (example_io True) intent_default empty_store [] = ((if True then None else Some SyncFailed), st', dir')"
  from commit_durable [OF example_serde_ok(1) _ example_serde_ok(3,2) c] c show ?thesis by simp
qed

theorem sync_failure_wedges_witness:
  "\<exists>st' dir'. commit example_serde (example_io False) intent_default empty_store [] = (Some SyncFailed, st', dir') \<and>
     (\<forall>r \<in> set (fst (commits example_serde (replicate 3 (example_io True, intent_default)) st' dir')). r \<noteq> None)"
proof (rule example_commitE [of False])
  fix st' dir'
  assume "commit example_serde (example_io False) intent_default empty_store [] = ((if False then None else Some SyncFailed), st', dir')"
  then have c: "commit example_serde (example_io False) intent_default empty_store [] = (Some SyncFailed, st', dir')" by simp
  obtain rs st'' dir'' where cs: "commits example_serde (replicate 3 (example_io True, intent_default)) st' dir' = (rs, st'', dir'')"
    by (rule prod_cases3)
  have "\<forall>r \<in> set rs. r \<noteq> None"
    using sync_failure_wedges [OF example_serde_ok(1) hm_wf_Nil example_serde_ok(3,2) c cs] by blast
  with c cs show ?thesis by (metis fst_conv)
qed

lemma example_backup: "backup example_serde [(state_file 1, ''x'')] = Inr ''x''"
  by (simp add: backup_def store_open_def generations_def read_snapshot_def hm_get_def example_serde_def LIMIT_def
      example_snapshot_def intent_default_def)

theorem backup_restore_witness:
  "\<exists>dir'. restore example_serde example_restore ''x'' = Inr dir' \<and>
     store_open example_serde dir' = Inr \<lparr>es_generation = 1, es_state = intent_default\<rparr>"
proof -
  have op: "store_open example_serde [(state_file 1, ''x'')] = Inr \<lparr>es_generation = 1, es_state = intent_default\<rparr>"
    by (simp add: store_open_def generations_def read_snapshot_def hm_get_def example_serde_def LIMIT_def
      example_snapshot_def intent_default_def)
  obtain dir' where r: "restore example_serde example_restore ''x'' = Inr dir'"
    by (simp add: restore_def example_restore_def commit_def read_snapshot_def example_serde_def example_io_def intent_limits_def LIMIT_def
        intent_default_def example_snapshot_def Let_def write_generation_def hm_get_def prune_def generations_def
        hm_retain_def store_open_def)
  from backup_restore [OF example_serde_ok(1) example_backup r] op r show ?thesis by auto
qed

end
