(* ===== verification/Endpoint.thy ===== *)
theory Endpoint
  imports RateLimit Command
begin

text \<open>
  \<open>cameod/src/supervisor.rs\<close>, part one: the life of one supervised model server.  The operating system
  is the parameter \<open>Os\<close>: what \<open>try_wait\<close>, \<open>spawn\<close> and \<open>kill\<close> answer, threading a state of its own.  The
  clock is the argument \<open>now\<close> of each operation; \<open>sleep\<close> in the termination loop advances the loop's
  own time by the 10 milliseconds it asks for.  Error texts are constructors carrying what is printed.
\<close>

section \<open>The operating system\<close>

datatype wait_result = WaitExited "int option" | WaitRunning | WaitError string

record 'w Os =
  os_try_wait :: "u32 \<Rightarrow> 'w \<Rightarrow> wait_result \<times> 'w"
  os_spawn :: "CommandSpec \<Rightarrow> 'w \<Rightarrow> (string + u32) \<times> 'w"
  os_kill :: "u32 \<Rightarrow> 'w \<Rightarrow> bool \<times> 'w"

section \<open>Model\<close>

definition MAX_RESTARTS :: u32 where
  "MAX_RESTARTS = 5"

definition RESTART_BACKOFF :: time where
  "RESTART_BACKOFF = secs 2"

definition STABLE_UPTIME_RESET :: time where
  "STABLE_UPTIME_RESET = secs 300"

abbreviation millis :: "nat \<Rightarrow> time" where
  "millis n \<equiv> n * 10 ^ 6"

definition HEALTH_PROBE_INTERVAL :: time where
  "HEALTH_PROBE_INTERVAL = millis 500"

datatype term_error = CannotObserve string | CannotTerminate | CannotConfirm string | NotExited

text \<open>The polling loop, from the time already spent in it.\<close>

function confirm_loop :: "'w Os \<Rightarrow> u32 \<Rightarrow> time \<Rightarrow> time \<Rightarrow> 'w \<Rightarrow> term_error option \<times> 'w" where
  "confirm_loop os pid timeout elapsed w =
     (case os_try_wait os pid w of
        (WaitError e, w1) \<Rightarrow> (Some (CannotConfirm e), w1)
      | (WaitExited _, w1) \<Rightarrow> (None, w1)
      | (WaitRunning, w1) \<Rightarrow>
          if timeout \<le> elapsed then (Some NotExited, w1)
          else confirm_loop os pid timeout (elapsed + millis 10) w1)"
  by pat_completeness auto

termination confirm_loop
  by (relation "measure (\<lambda>(os, pid, timeout, elapsed, w). timeout - elapsed)") auto

declare confirm_loop.simps [simp del]

definition confirm_termination :: "'w Os \<Rightarrow> u32 \<Rightarrow> time \<Rightarrow> 'w \<Rightarrow> term_error option \<times> 'w" where
  "confirm_termination os pid timeout w =
     (case os_try_wait os pid w of
        (WaitError e, w1) \<Rightarrow> (Some (CannotObserve e), w1)
      | (WaitExited _, w1) \<Rightarrow> (None, w1)
      | (WaitRunning, w1) \<Rightarrow>
          (case os_kill os pid w1 of
             (True, w2) \<Rightarrow> confirm_loop os pid timeout 0 w2
           | (False, w2) \<Rightarrow>
               (case os_try_wait os pid w2 of
                  (WaitExited _, w3) \<Rightarrow> (None, w3)
                | (_, w3) \<Rightarrow> (Some CannotTerminate, w3))))"

datatype Restart = NotApplicable | Backoff | Attempt | Exhausted

definition restarts_after_exit :: "u32 \<Rightarrow> time \<Rightarrow> u32" where
  "restarts_after_exit restarts uptime = (if STABLE_UPTIME_RESET \<le> uptime then 0 else restarts)"

definition restart_decision :: "bool \<Rightarrow> bool \<Rightarrow> time option \<Rightarrow> u32 \<Rightarrow> Restart" where
  "restart_decision running parked since_exit restarts =
     (if running \<or> parked then NotApplicable
      else case since_exit of
        None \<Rightarrow> NotApplicable
      | Some elapsed \<Rightarrow>
          if elapsed < RESTART_BACKOFF then Backoff
          else if MAX_RESTARTS \<le> restarts then Exhausted
          else Attempt)"

datatype endpoint_error =
    WaitFailed string | RestartFailed string | GivingUp u32 "int option" | StopRequested
  | StopFailed term_error | EvictionRequested | SpawnFailed string

record Endpoint =
  ep_restart_enabled :: bool
  ep_id :: string
  ep_model :: string
  ep_host :: string
  ep_port :: u16
  ep_backend :: string
  ep_fits_vram :: bool
  ep_notes :: "string list"
  ep_context_tokens :: u32
  ep_command :: CommandSpec
  ep_child :: "u32 option"
  ep_error :: "endpoint_error option"
  ep_exit_code :: "int option"
  ep_started_at :: time
  ep_restarts :: u32
  ep_last_exit_at :: "time option"
  ep_vram_bytes :: u64
  ep_last_used :: time
  ep_ready :: bool
  ep_last_health_probe :: "time option"
  ep_readiness_error :: "string option"

record HealthProbe =
  hp_endpoint_id :: string
  hp_host :: string
  hp_port :: u16
  hp_process_id :: u32
  hp_started_at :: time

text \<open>\<open>SystemTime::elapsed\<close> is an error for a time in the future.\<close>

definition elapsed :: "time \<Rightarrow> time \<Rightarrow> time option" where
  "elapsed now t = (if now < t then None else Some (now - t))"

definition maybe_restart :: "'w Os \<Rightarrow> time \<Rightarrow> Endpoint \<Rightarrow> 'w \<Rightarrow> Endpoint \<times> 'w" where
  "maybe_restart os now e w =
     (if \<not> ep_restart_enabled e then (e, w)
      else let since = Option.bind (ep_last_exit_at e) (elapsed now) in
      case restart_decision (ep_child e \<noteq> None) (ep_error e \<noteq> None) since (ep_restarts e) of
        Attempt \<Rightarrow>
          (case os_spawn os (ep_command e) w of
             (Inr pid, w1) \<Rightarrow>
               (e\<lparr>ep_child := Some pid, ep_restarts := ep_restarts e + 1, ep_exit_code := None,
                  ep_last_exit_at := None, ep_started_at := now, ep_ready := False,
                  ep_last_health_probe := None, ep_readiness_error := None\<rparr>, w1)
           | (Inl msg, w1) \<Rightarrow> (e\<lparr>ep_error := Some (RestartFailed msg)\<rparr>, w1))
      | Exhausted \<Rightarrow> (e\<lparr>ep_error := Some (GivingUp (ep_restarts e) (ep_exit_code e))\<rparr>, w)
      | _ \<Rightarrow> (e, w))"

definition reap :: "'w Os \<Rightarrow> time \<Rightarrow> Endpoint \<Rightarrow> 'w \<Rightarrow> Endpoint \<times> 'w" where
  "reap os now e w =
     (case ep_child e of
        None \<Rightarrow> (e, w)
      | Some pid \<Rightarrow>
          (case os_try_wait os pid w of
             (WaitExited code, w1) \<Rightarrow>
               (e\<lparr>ep_exit_code := code, ep_child := None, ep_last_exit_at := Some now,
                  ep_restarts := restarts_after_exit (ep_restarts e) (now - ep_started_at e)\<rparr>, w1)
           | (WaitRunning, w1) \<Rightarrow> (e, w1)
           | (WaitError msg, w1) \<Rightarrow> (e\<lparr>ep_error := Some (WaitFailed msg), ep_ready := False\<rparr>, w1)))"

definition refresh :: "'w Os \<Rightarrow> time \<Rightarrow> Endpoint \<Rightarrow> 'w \<Rightarrow> Endpoint \<times> 'w" where
  "refresh os now e w = (case reap os now e w of (e1, w1) \<Rightarrow> maybe_restart os now e1 w1)"

definition schedule_health_probe :: "time \<Rightarrow> Endpoint \<Rightarrow> HealthProbe option \<times> Endpoint" where
  "schedule_health_probe now e =
     (case ep_child e of
        None \<Rightarrow> (None, e)
      | Some pid \<Rightarrow>
          (let due = (case Option.bind (ep_last_health_probe e) (elapsed now) of
                        None \<Rightarrow> True | Some age \<Rightarrow> HEALTH_PROBE_INTERVAL \<le> age)
           in if \<not> due then (None, e)
              else (Some \<lparr>hp_endpoint_id = ep_id e, hp_host = ep_host e, hp_port = ep_port e,
                          hp_process_id = pid, hp_started_at = ep_started_at e\<rparr>,
                    e\<lparr>ep_last_health_probe := Some now\<rparr>)))"

definition apply_health_probe :: "HealthProbe \<Rightarrow> string option \<Rightarrow> Endpoint \<Rightarrow> Endpoint" where
  "apply_health_probe probe failure e =
     (if \<not> (ep_child e = Some (hp_process_id probe) \<and> ep_started_at e = hp_started_at probe) then e
      else case failure of
        None \<Rightarrow> e\<lparr>ep_ready := True, ep_readiness_error := None\<rparr>
      | Some msg \<Rightarrow> e\<lparr>ep_ready := False, ep_readiness_error := Some msg\<rparr>)"

definition stop_owned :: "'w Os \<Rightarrow> Endpoint \<Rightarrow> 'w \<Rightarrow> term_error option \<times> Endpoint \<times> 'w" where
  "stop_owned os e w =
     (let e1 = e\<lparr>ep_error := Some StopRequested, ep_ready := False\<rparr>
      in case ep_child e1 of
           None \<Rightarrow> (None, e1\<lparr>ep_last_exit_at := None\<rparr>, w)
         | Some pid \<Rightarrow>
             (case confirm_termination os pid (secs 1) w of
                (Some err, w1) \<Rightarrow> (Some err, e1\<lparr>ep_error := Some (StopFailed err)\<rparr>, w1)
              | (None, w1) \<Rightarrow> (None, e1\<lparr>ep_child := None, ep_last_exit_at := None\<rparr>, w1)))"

definition endpoint_state :: "Endpoint \<Rightarrow> string" where
  "endpoint_state e =
     (if ep_error e \<noteq> None then ''failed''
      else if ep_child e \<noteq> None \<and> ep_ready e then ''running''
      else if ep_child e \<noteq> None then ''starting''
      else ''exited'')"

definition process_running :: "Endpoint \<Rightarrow> bool" where
  "process_running e = (ep_child e \<noteq> None)"

definition is_ready :: "Endpoint \<Rightarrow> bool" where
  "is_ready e = (ep_child e \<noteq> None \<and> ep_ready e \<and> ep_error e = None)"

record EndpointView =
  vw_id :: string
  vw_model :: string
  vw_host :: string
  vw_port :: u16
  vw_endpoint :: string
  vw_backend :: string
  vw_state :: string
  vw_pid :: "u32 option"
  vw_exit_code :: "int option"
  vw_error :: "endpoint_error option"
  vw_readiness_error :: "string option"
  vw_restarts :: u32
  vw_fits_vram :: bool
  vw_vram_bytes :: u64
  vw_notes :: "string list"
  vw_context_tokens :: u32
  vw_command :: string
  vw_uptime_secs :: nat

definition endpoint_view :: "'w Os \<Rightarrow> time \<Rightarrow> Endpoint \<Rightarrow> 'w \<Rightarrow> EndpointView \<times> Endpoint \<times> 'w" where
  "endpoint_view os now e0 w0 =
     (case refresh os now e0 w0 of
        (e, w) \<Rightarrow>
          (\<lparr>vw_id = ep_id e, vw_model = ep_model e, vw_host = ep_host e, vw_port = ep_port e,
            vw_endpoint = ''http://'' @ ep_host e @ '':'' @ show_word (ep_port e), vw_backend = ep_backend e,
            vw_state = endpoint_state e, vw_pid = ep_child e, vw_exit_code = ep_exit_code e, vw_error = ep_error e,
            vw_readiness_error = ep_readiness_error e, vw_restarts = ep_restarts e, vw_fits_vram = ep_fits_vram e,
            vw_vram_bytes = ep_vram_bytes e, vw_notes = ep_notes e, vw_context_tokens = ep_context_tokens e,
            vw_command = command_display (ep_command e),
            vw_uptime_secs = (now - ep_started_at e) div secs 1\<rparr>, e, w))"

definition connect_host :: "string \<Rightarrow> string" where
  "connect_host host = (if host = ''0.0.0.0'' then ''127.0.0.1'' else if host = ''::'' then ''::1'' else host)"

datatype probe_failure = InvalidResponse string | HealthStatus u16

definition health_verdict :: "string \<Rightarrow> probe_failure option" where
  "health_verdict status =
     (case split_whitespace status of
        _ # code # _ \<Rightarrow>
          (case parse_word code of
             None \<Rightarrow> Some (InvalidResponse (trim status))
           | Some c \<Rightarrow> if 200 \<le> c \<and> c < 300 then None else Some (HealthStatus c))
      | _ \<Rightarrow> Some (InvalidResponse (trim status)))"

section \<open>Lemmas\<close>

definition reaped_exit :: "'w Os \<Rightarrow> Endpoint \<Rightarrow> 'w \<Rightarrow> bool" where
  "reaped_exit os e w = (\<exists>pid code w1. ep_child e = Some pid \<and> os_try_wait os pid w = (WaitExited code, w1))"

lemmas endpoint_defs = refresh_def reap_def maybe_restart_def restart_decision_def restarts_after_exit_def
  MAX_RESTARTS_def Let_def

lemma word_le_5: "(r :: u32) \<le> 5 \<Longrightarrow> \<not> 5 \<le> r \<Longrightarrow> r + 1 \<le> 5 \<and> unat (r + 1) = unat r + 1"
proof -
  assume "r \<le> 5" "\<not> 5 \<le> r"
  then have r: "unat r < 5" by (simp add: word_le_nat_alt not_le)
  then have "unat (r + 1) = unat r + 1" by (simp add: unat_word_ariths)
  with r show ?thesis by (simp add: word_le_nat_alt)
qed

lemma maybe_restart_cases:
  assumes "maybe_restart os now e w = (e', w')"
  obtains (idle) "e' = e"
  | (parked) "e' = e\<lparr>ep_error := Some (GivingUp (ep_restarts e) (ep_exit_code e))\<rparr>" "ep_child e = None" "5 \<le> ep_restarts e"
  | (broken) msg where "e' = e\<lparr>ep_error := Some (RestartFailed msg)\<rparr>" "ep_child e = None"
  | (respawned) pid where "ep_child e = None" "ep_error e = None" "ep_restart_enabled e" "\<not> 5 \<le> ep_restarts e"
      "\<exists>t. ep_last_exit_at e = Some t \<and> t + RESTART_BACKOFF \<le> now"
      "e' = e\<lparr>ep_child := Some pid, ep_restarts := ep_restarts e + 1, ep_exit_code := None,
         ep_last_exit_at := None, ep_started_at := now, ep_ready := False,
         ep_last_health_probe := None, ep_readiness_error := None\<rparr>"
proof (cases "restart_decision (ep_child e \<noteq> None) (ep_error e \<noteq> None) (Option.bind (ep_last_exit_at e) (elapsed now)) (ep_restarts e)")
  case Attempt
  then have a: "ep_child e = None" "ep_error e = None" "\<not> 5 \<le> ep_restarts e"
      "\<exists>t. ep_last_exit_at e = Some t \<and> t + RESTART_BACKOFF \<le> now"
    by (auto simp: restart_decision_def MAX_RESTARTS_def elapsed_def bind_eq_Some_conv split: if_splits option.splits)
  show ?thesis
  proof (cases "ep_restart_enabled e")
    case False
    with assms idle show ?thesis by (simp add: maybe_restart_def)
  next
    case True
    obtain sp w1 where s: "os_spawn os (ep_command e) w = (sp, w1)" by (cases "os_spawn os (ep_command e) w")
    show ?thesis
    proof (cases sp)
      case (Inl msg)
      with assms True Attempt s a have "e' = e\<lparr>ep_error := Some (RestartFailed msg)\<rparr>" by (simp add: maybe_restart_def)
      then show ?thesis using a(1) by (rule broken)
    next
      case (Inr pid)
      with assms True Attempt s a have "e' = e\<lparr>ep_child := Some pid, ep_restarts := ep_restarts e + 1, ep_exit_code := None,
         ep_last_exit_at := None, ep_started_at := now, ep_ready := False,
         ep_last_health_probe := None, ep_readiness_error := None\<rparr>" by (simp add: maybe_restart_def)
      with a True show ?thesis by (intro respawned)
    qed
  qed
next
  case Exhausted
  then have x: "ep_child e = None" "5 \<le> ep_restarts e"
    by (auto simp: restart_decision_def MAX_RESTARTS_def split: if_splits option.splits)
  show ?thesis
  proof (cases "ep_restart_enabled e")
    case False
    with assms idle show ?thesis by (simp add: maybe_restart_def)
  next
    case True
    with assms Exhausted have "e' = e\<lparr>ep_error := Some (GivingUp (ep_restarts e) (ep_exit_code e))\<rparr>"
      by (simp add: maybe_restart_def)
    then show ?thesis using x by (rule parked)
  qed
next
  case NotApplicable
  with assms have "e' = e" by (simp add: maybe_restart_def split: if_splits)
  then show ?thesis by (rule idle)
next
  case Backoff
  with assms have "e' = e" by (simp add: maybe_restart_def split: if_splits)
  then show ?thesis by (rule idle)
qed

lemma reap_fields:
  assumes "reap os now e w = (e1, w1)"
  shows "ep_id e1 = ep_id e" "ep_port e1 = ep_port e" "ep_model e1 = ep_model e" "ep_command e1 = ep_command e"
    "ep_restart_enabled e1 = ep_restart_enabled e" "ep_started_at e1 = ep_started_at e" "ep_vram_bytes e1 = ep_vram_bytes e"
    "ep_last_used e1 = ep_last_used e"
    "ep_child e1 = ep_child e \<or> ep_child e1 = None" "ep_restarts e1 = ep_restarts e \<or> ep_restarts e1 = 0"
    "ep_error e \<noteq> None \<Longrightarrow> ep_error e1 \<noteq> None" "ep_ready e1 \<Longrightarrow> ep_ready e"
    "ep_last_health_probe e1 = ep_last_health_probe e"
  using assms
  by (auto simp: reap_def restarts_after_exit_def split: option.splits prod.splits wait_result.splits if_splits)

lemma refresh_fields:
  assumes "refresh os now e w = (e', w')"
  shows "ep_id e' = ep_id e" "ep_port e' = ep_port e" "ep_model e' = ep_model e" "ep_command e' = ep_command e"
    "ep_restart_enabled e' = ep_restart_enabled e" "ep_vram_bytes e' = ep_vram_bytes e" "ep_last_used e' = ep_last_used e"
    "ep_error e \<noteq> None \<Longrightarrow> ep_error e' \<noteq> None"
proof -
  obtain e1 w1 where r: "reap os now e w = (e1, w1)" and m: "maybe_restart os now e1 w1 = (e', w')"
    using assms by (auto simp: refresh_def split: prod.splits)
  from m reap_fields [OF r] show "ep_id e' = ep_id e" "ep_port e' = ep_port e" "ep_model e' = ep_model e"
    "ep_command e' = ep_command e" "ep_restart_enabled e' = ep_restart_enabled e" "ep_vram_bytes e' = ep_vram_bytes e"
    "ep_last_used e' = ep_last_used e" "ep_error e \<noteq> None \<Longrightarrow> ep_error e' \<noteq> None"
    by (cases rule: maybe_restart_cases; simp)+
qed

section \<open>A run of one endpoint\<close>

text \<open>Everything that happens to an endpoint, with the log of the successful health probes (of which
  process, started when).  A probe may be answered late: any probe ever scheduled can be applied.\<close>

inductive endpoint_reach :: "'w Os \<Rightarrow> (u32 \<times> time) list \<Rightarrow> Endpoint \<Rightarrow> bool" for os :: "'w Os" where
  started: "\<not> ep_ready e \<Longrightarrow> ep_restarts e = 0 \<Longrightarrow> endpoint_reach os [] e"
| refreshed: "endpoint_reach os probed e \<Longrightarrow> refresh os now e w = (e', w') \<Longrightarrow> endpoint_reach os probed e'"
| scheduled: "endpoint_reach os probed e \<Longrightarrow> schedule_health_probe now e = (p, e') \<Longrightarrow> endpoint_reach os probed e'"
| healthy: "endpoint_reach os probed e \<Longrightarrow>
    endpoint_reach os ((hp_process_id p, hp_started_at p) # probed) (apply_health_probe p None e)"
| unhealthy: "endpoint_reach os probed e \<Longrightarrow> endpoint_reach os probed (apply_health_probe p (Some msg) e)"
| marked: "endpoint_reach os probed e \<Longrightarrow>
    endpoint_reach os probed (e\<lparr>ep_error := Some EvictionRequested, ep_ready := False\<rparr>)"
| stopped: "endpoint_reach os probed e \<Longrightarrow> stop_owned os e w = (r, e', w') \<Longrightarrow> endpoint_reach os probed e'"
| touched: "endpoint_reach os probed e \<Longrightarrow> endpoint_reach os probed (e\<lparr>ep_last_used := t\<rparr>)"
| frozen: "endpoint_reach os probed e \<Longrightarrow> endpoint_reach os probed (e\<lparr>ep_restart_enabled := False\<rparr>)"

definition endpoint_inv :: "(u32 \<times> time) list \<Rightarrow> Endpoint \<Rightarrow> bool" where
  "endpoint_inv probed e =
     (ep_restarts e \<le> 5 \<and>
      (\<forall>pid. ep_child e = Some pid \<longrightarrow> ep_ready e \<longrightarrow> (pid, ep_started_at e) \<in> set probed))"

lemma refresh_inv:
  assumes "endpoint_inv probed e" and "refresh os now e w = (e', w')"
  shows "endpoint_inv probed e'"
proof -
  obtain e1 w1 where r: "reap os now e w = (e1, w1)" and m: "maybe_restart os now e1 w1 = (e', w')"
    using assms(2) by (auto simp: refresh_def split: prod.splits)
  have "endpoint_inv probed e1"
    using assms(1) reap_fields [OF r] by (auto simp: endpoint_inv_def)
  with m show ?thesis
    by (cases rule: maybe_restart_cases) (auto simp: endpoint_inv_def word_le_5)
qed

lemma endpoint_reach_inv: "endpoint_reach os probed e \<Longrightarrow> endpoint_inv probed e"
proof (induction rule: endpoint_reach.induct)
  case (refreshed probed e now w e' w')
  then show ?case by (blast intro: refresh_inv)
next
  case (scheduled probed e now p e')
  then show ?case
    by (auto simp: schedule_health_probe_def endpoint_inv_def Let_def split: option.splits if_splits)
next
  case (stopped probed e w r e' w')
  then show ?case
    by (auto simp: stop_owned_def endpoint_inv_def Let_def split: option.splits prod.splits)
qed (auto simp: endpoint_inv_def apply_health_probe_def)

section \<open>Crash loops\<close>

fun refresh_at :: "'w Os \<Rightarrow> time list \<Rightarrow> Endpoint \<times> 'w \<Rightarrow> Endpoint \<times> 'w" where
  "refresh_at os [] ew = ew"
| "refresh_at os (t # ts) ew = refresh_at os ts (refresh os t (fst ew) (snd ew))"

text \<open>An operating system on which the server always crashes and can always be started again.\<close>

definition always_crashes :: "'w Os \<Rightarrow> bool" where
  "always_crashes os =
     ((\<forall>pid w. \<exists>code w1. os_try_wait os pid w = (WaitExited code, w1)) \<and>
      (\<forall>c w. \<exists>pid w1. os_spawn os c w = (Inr pid, w1)))"

definition crashing :: "u32 \<Rightarrow> time \<Rightarrow> Endpoint \<Rightarrow> bool" where
  "crashing r t e =
     (ep_child e \<noteq> None \<and> ep_error e = None \<and> ep_restart_enabled e \<and> ep_restarts e = r \<and> ep_started_at e = t)"

definition waiting :: "u32 \<Rightarrow> time \<Rightarrow> Endpoint \<Rightarrow> bool" where
  "waiting r x e =
     (ep_child e = None \<and> ep_error e = None \<and> ep_restart_enabled e \<and> ep_restarts e = r \<and> ep_last_exit_at e = Some x)"

definition parked :: "Endpoint \<Rightarrow> bool" where
  "parked e = (ep_child e = None \<and> ep_error e \<noteq> None \<and> ep_restarts e = 5)"

text \<open>A look at a process that has crashed finds it gone and leaves it for its back-off.\<close>

lemma look_crashing:
  assumes "always_crashes os" and "crashing r s e" and "s \<le> t" and "t - s < STABLE_UPTIME_RESET"
    and "refresh os t e w = (e', w')"
  shows "waiting r t e'"
proof -
  obtain pid where c: "ep_child e = Some pid" and e: "ep_error e = None" "ep_restart_enabled e" "ep_restarts e = r" "ep_started_at e = s"
    using assms(2) by (auto simp: crashing_def)
  obtain code w1 where wt: "os_try_wait os pid w = (WaitExited code, w1)" using assms(1) by (meson always_crashes_def)
  have "reap os t e w = (e\<lparr>ep_exit_code := code, ep_child := None, ep_last_exit_at := Some t\<rparr>, w1)"
    using c e wt assms(3,4) by (simp add: reap_def restarts_after_exit_def)
  with assms(5) e show ?thesis
    by (auto simp: refresh_def maybe_restart_def restart_decision_def elapsed_def RESTART_BACKOFF_def waiting_def Let_def)
qed

text \<open>A look during the back-off does nothing; one after it restarts the server, or parks the endpoint when the
  budget is spent.\<close>

lemma look_waiting:
  assumes "always_crashes os" and "waiting r x e" and "x \<le> t" and "r \<le> 5" and "refresh os t e w = (e', w')"
  shows "if t - x < RESTART_BACKOFF then e' = e else if r = 5 then parked e' else crashing (r + 1) t e'"
proof -
  have e: "ep_child e = None" "ep_error e = None" "ep_restart_enabled e" "ep_restarts e = r" "ep_last_exit_at e = Some x"
    using assms(2) by (auto simp: waiting_def)
  obtain pid w1 where sp: "os_spawn os (ep_command e) w = (Inr pid, w1)" using assms(1) by (meson always_crashes_def)
  have five: "5 \<le> r \<longleftrightarrow> r = 5" using assms(4) by auto
  have "maybe_restart os t e w = (e', w')" using assms(5) e(1) by (simp add: refresh_def reap_def)
  then show ?thesis
    using e sp assms(3) five
    by (auto simp: maybe_restart_def restart_decision_def elapsed_def MAX_RESTARTS_def parked_def crashing_def Let_def)
qed

text \<open>Looks at times that never go back, each at most \<open>gap\<close> after the one before.\<close>

fun paced :: "time \<Rightarrow> time \<Rightarrow> time list \<Rightarrow> bool" where
  "paced gap t [] = True"
| "paced gap t (u # us) = (t \<le> u \<and> u \<le> t + gap \<and> paced gap u us)"

text \<open>Where a crash loop that began at \<open>t0\<close> stands after the look at \<open>t\<close>: how soon and how late each restart
  can have come.\<close>

definition loop_state :: "time \<Rightarrow> time \<Rightarrow> time \<Rightarrow> Endpoint \<Rightarrow> bool" where
  "loop_state gap t0 t e =
     ((\<exists>r. crashing r t e \<and> r \<le> 5 \<and> t0 + unat r * RESTART_BACKOFF \<le> t \<and>
          t \<le> t0 + unat r * (RESTART_BACKOFF + 2 * gap)) \<or>
      (\<exists>r x. waiting r x e \<and> r \<le> 5 \<and> t0 + unat r * RESTART_BACKOFF \<le> x \<and> x \<le> t \<and> t < x + RESTART_BACKOFF \<and>
          x \<le> t0 + unat r * (RESTART_BACKOFF + 2 * gap) + gap) \<or>
      (parked e \<and> t0 + 5 * RESTART_BACKOFF \<le> t))"

lemma parked_look: "parked e \<Longrightarrow> refresh os t e w = (e, w)"
  by (simp add: parked_def refresh_def reap_def maybe_restart_def restart_decision_def Let_def)

lemma loop_state_step:
  assumes "always_crashes os" and "loop_state gap t0 t e" and "t \<le> u" and "u \<le> t + gap"
    and "gap < STABLE_UPTIME_RESET" and "refresh os u e w = (e', w')"
  shows "loop_state gap t0 u e'"
  using assms(2) unfolding loop_state_def [of gap t0 t]
proof (elim disjE exE conjE)
  fix r
  assume r: "crashing r t e" "r \<le> 5" "t0 + unat r * RESTART_BACKOFF \<le> t" "t \<le> t0 + unat r * (RESTART_BACKOFF + 2 * gap)"
  have "u - t < STABLE_UPTIME_RESET" using assms(4,5) by linarith
  from look_crashing [OF assms(1) r(1) assms(3) this assms(6)] have "waiting r u e'" .
  moreover have "t0 + unat r * RESTART_BACKOFF \<le> u" "u < u + RESTART_BACKOFF"
      "u \<le> t0 + unat r * (RESTART_BACKOFF + 2 * gap) + gap"
    using r(3,4) assms(3,4) by (simp_all add: RESTART_BACKOFF_def)
  ultimately show ?thesis unfolding loop_state_def using r(2) by blast
next
  fix r x
  assume r: "waiting r x e" "r \<le> 5" "t0 + unat r * RESTART_BACKOFF \<le> x" "x \<le> t" "t < x + RESTART_BACKOFF"
    "x \<le> t0 + unat r * (RESTART_BACKOFF + 2 * gap) + gap"
  have xu: "x \<le> u" using r(4) assms(3) by linarith
  note look = look_waiting [OF assms(1) r(1) xu r(2) assms(6)]
  show ?thesis
  proof (cases "u - x < RESTART_BACKOFF")
    case True
    then have "e' = e" "u < x + RESTART_BACKOFF" using look by auto
    then show ?thesis unfolding loop_state_def using r xu by blast
  next
    case False
    show ?thesis
    proof (cases "r = 5")
      case True
      then have "parked e'" "t0 + 5 * RESTART_BACKOFF \<le> u" using False look r(3) xu by auto
      then show ?thesis unfolding loop_state_def by blast
    next
      case no: False
      have n: "r + 1 \<le> 5" "unat (r + 1) = unat r + 1" using word_le_5 [OF r(2)] r(2) no by auto
      have "crashing (r + 1) u e'" using False look no by simp
      moreover have "t0 + unat (r + 1) * RESTART_BACKOFF \<le> u" using r(3) xu False n(2) by simp
      moreover have "u \<le> t0 + unat (r + 1) * (RESTART_BACKOFF + 2 * gap)" using r(5,6) assms(4) n(2) by simp
      ultimately show ?thesis unfolding loop_state_def using n(1) by blast
    qed
  qed
next
  assume p: "parked e" "t0 + 5 * RESTART_BACKOFF \<le> t"
  then have "e' = e" using assms(6) parked_look [of e os u w] by simp
  with p assms(3) show ?thesis unfolding loop_state_def by simp
qed

lemma loop_state_run:
  assumes "always_crashes os" and "loop_state gap t0 t e" and "paced gap t ts" and "gap < STABLE_UPTIME_RESET"
    and "refresh_at os ts (e, w) = (e', w')"
  shows "loop_state gap t0 (last (t # ts)) e'"
  using assms(2,3,5)
proof (induction ts arbitrary: t e w)
  case (Cons u us)
  obtain e1 w1 where one: "refresh os u e w = (e1, w1)" by (cases "refresh os u e w")
  have "loop_state gap t0 u e1" using loop_state_step [OF assms(1) Cons.prems(1) _ _ assms(4) one] Cons.prems(2) by simp
  with Cons.IH [of u e1 w1] Cons.prems one show ?case by simp
qed simp

lemma parked_stays: "parked e \<Longrightarrow> refresh_at os us (e, w) = (e, w)"
  by (induction us) (simp_all add: parked_look)

definition sample_command :: CommandSpec where
  "sample_command = \<lparr>cs_program = ''llama-server'', cs_args = [], cs_env = [], cs_secret_env = []\<rparr>"

definition sample_endpoint :: Endpoint where
  "sample_endpoint =
     \<lparr>ep_restart_enabled = True, ep_id = ''m-1'', ep_model = ''m'', ep_host = ''127.0.0.1'', ep_port = 8081,
      ep_backend = ''llama'', ep_fits_vram = True, ep_notes = [], ep_context_tokens = 4096,
      ep_command = sample_command, ep_child = Some 7, ep_error = None, ep_exit_code = None, ep_started_at = 0,
      ep_restarts = 0, ep_last_exit_at = None, ep_vram_bytes = 1000, ep_last_used = 0, ep_ready = False,
      ep_last_health_probe = None, ep_readiness_error = None\<rparr>"

definition sample_probe :: HealthProbe where
  "sample_probe = \<lparr>hp_endpoint_id = ''m-1'', hp_host = ''127.0.0.1'', hp_port = 8081, hp_process_id = 7, hp_started_at = 0\<rparr>"

text \<open>An operating system on which every process has exited and every start succeeds.\<close>

definition crashing_os :: "unit Os" where
  "crashing_os = \<lparr>os_try_wait = \<lambda>_ w. (WaitExited (Some 1), w), os_spawn = \<lambda>_ w. (Inr 8, w), os_kill = \<lambda>_ w. (True, w)\<rparr>"

lemma crashing_os_crashes: "always_crashes crashing_os"
  by (simp add: always_crashes_def crashing_os_def)

section \<open>Properties\<close>

text \<open>C37. Readiness belongs to the process.  In every run of an endpoint, however late health answers
  arrive, it is offered to clients only while its process is alive, no error is recorded, and a probe of
  that very process (same id, same start) succeeded; and it is never restarted more than five times on
  one budget.\<close>

theorem ready_only_when_probed:
  assumes "endpoint_reach os probed e"
  shows "ep_restarts e \<le> 5 \<and>
    (is_ready e \<longrightarrow> (\<exists>pid. ep_child e = Some pid \<and> ep_error e = None \<and> (pid, ep_started_at e) \<in> set probed))"
  using endpoint_reach_inv [OF assms] by (auto simp: endpoint_inv_def is_ready_def)

theorem ready_only_when_probed_witness:
  "is_ready (apply_health_probe sample_probe None sample_endpoint) \<and>
   (\<exists>pid. ep_child (apply_health_probe sample_probe None sample_endpoint) = Some pid \<and>
      (pid, ep_started_at (apply_health_probe sample_probe None sample_endpoint)) \<in> {(7, 0)})"
proof -
  have "endpoint_reach crashing_os [] sample_endpoint" by (rule started) (simp_all add: sample_endpoint_def)
  from healthy [OF this, of sample_probe]
  have "endpoint_reach crashing_os [(7, 0)] (apply_health_probe sample_probe None sample_endpoint)"
    by (simp add: sample_probe_def)
  moreover have "is_ready (apply_health_probe sample_probe None sample_endpoint)"
    by (simp add: is_ready_def apply_health_probe_def sample_probe_def sample_endpoint_def)
  ultimately show ?thesis using ready_only_when_probed by fastforce
qed

text \<open>C36. A crash loop is slowed down and ends.  Let the server exit every time it is looked at although it
  can be started, and let the endpoint be looked at on any schedule whose looks are at most \<open>gap\<close> apart,
  \<open>gap\<close> being less than five minutes (the daemon's maintenance looks twice a second).  Then at every moment
  its restarts were at least two seconds apart; and once six times (two seconds and two gaps) have passed
  since it was started (eighteen seconds for the daemon's own looks) the endpoint is parked as failed with
  its five restarts used up, no process is running, and no later look, at whatever time, starts one.\<close>

theorem crash_loop_parked:
  assumes "always_crashes os" and "crashing 0 t0 e" and "paced gap t0 ts" and "gap < secs 300"
    and "refresh_at os ts (e, w) = (e', w')"
  shows "unat (ep_restarts e') \<le> 5 \<and> t0 + unat (ep_restarts e') * secs 2 \<le> last (t0 # ts) \<and>
    (t0 + 6 * (secs 2 + 2 * gap) \<le> last (t0 # ts) \<longrightarrow>
       endpoint_state e' = ''failed'' \<and> ep_child e' = None \<and> ep_restarts e' = 5 \<and> refresh_at os us (e', w') = (e', w'))"
proof -
  let ?t = "last (t0 # ts)"
  have "loop_state gap t0 t0 e" using assms(2) by (auto simp: loop_state_def intro!: exI [of _ 0])
  from loop_state_run [OF assms(1) this assms(3) _ assms(5)] assms(4)
  have l: "loop_state gap t0 ?t e'" by (simp add: STABLE_UPTIME_RESET_def)
  have five: "unat r \<le> 5" if "r \<le> 5" for r :: u32 using that by (simp add: word_le_nat_alt)
  have b: "RESTART_BACKOFF = secs 2" by (simp add: RESTART_BACKOFF_def)
  have late: "t0 + unat r * (secs 2 + 2 * gap) + gap + secs 2 \<le> t0 + 6 * (secs 2 + 2 * gap)" if "r \<le> 5" for r :: u32
  proof -
    have "unat r * (secs 2 + 2 * gap) \<le> 5 * (secs 2 + 2 * gap)" using five [OF that] by (rule mult_right_mono) simp
    then show ?thesis by simp
  qed
  from l show ?thesis unfolding loop_state_def b
  proof (elim disjE exE conjE)
    fix r
    assume r: "crashing r ?t e'" "r \<le> 5" "t0 + unat r * secs 2 \<le> ?t" "?t \<le> t0 + unat r * (secs 2 + 2 * gap)"
    moreover have "\<not> t0 + 6 * (secs 2 + 2 * gap) \<le> ?t" using late [OF r(2)] r(4) by simp
    ultimately show ?thesis using five by (simp add: crashing_def)
  next
    fix r x
    assume r: "waiting r x e'" "r \<le> 5" "t0 + unat r * secs 2 \<le> x" "x \<le> ?t" "?t < x + secs 2"
      "x \<le> t0 + unat r * (secs 2 + 2 * gap) + gap"
    moreover have "\<not> t0 + 6 * (secs 2 + 2 * gap) \<le> ?t" using late [OF r(2)] r(5,6) by simp
    ultimately show ?thesis using five by (simp add: waiting_def)
  next
    assume p: "parked e'" "t0 + 5 * secs 2 \<le> ?t"
    from parked_stays [OF p(1)] p show ?thesis by (auto simp: parked_def endpoint_state_def)
  qed
qed

text \<open>The daemon's maintenance: a look every 500 milliseconds for eighteen seconds.\<close>

theorem crash_loop_parked_witness:
  "case refresh_at crashing_os (map (\<lambda>k. k * millis 500) [1..<37]) (sample_endpoint, ()) of (e', w') \<Rightarrow>
    endpoint_state e' = ''failed'' \<and> ep_child e' = None \<and> ep_restarts e' = 5 \<and>
    refresh_at crashing_os [secs 100] (e', w') = (e', w')"
proof -
  let ?ts = "map (\<lambda>k. k * millis 500) [1..<37]"
  obtain e' w' where r: "refresh_at crashing_os ?ts (sample_endpoint, ()) = (e', w')"
    by (cases "refresh_at crashing_os ?ts (sample_endpoint, ())")
  have "paced (millis 500) 0 ?ts" by (simp add: upt_rec)
  moreover have "crashing 0 0 sample_endpoint" by (simp add: crashing_def sample_endpoint_def)
  moreover have "millis 500 < secs 300" by simp
  moreover have "0 + 6 * (secs 2 + 2 * millis 500) \<le> last (0 # ?ts)" by (simp add: upt_rec)
  ultimately show ?thesis
    using crash_loop_parked [OF crashing_os_crashes _ _ _ r, of 0 "millis 500" "[secs 100]"] r by auto
qed

end
