(* ===== verification/Supervisor.thy ===== *)
theory Supervisor
  imports Endpoint Admission Store Sessions
begin

text \<open>
  \<open>cameod/src/supervisor.rs\<close>, part two: the supervisor, its tracked endpoints, leases and durable store.
  One operation runs under the locks from start to end, so it is one step; a maintenance pass, which gives
  the locks up in between, is four.  The wall clock (\<open>now\<close>, and \<open>epoch\<close> in seconds) is read once per
  operation, in \<open>start\<close> and \<open>maintain\<close> once per stage.  What the directory answered to a commit is the
  \<open>CommitIo\<close> argument; JSON values are abstract and reached through the parameter \<open>Codec\<close>.  Views are
  records instead of JSON objects.
\<close>

section \<open>Model\<close>

record 'v Codec = "'v Serde" +
  cd_lease_to :: "Lease \<Rightarrow> 'v option"
  cd_lease_from :: "'v \<Rightarrow> Lease option"
  cd_session :: "string \<times> string \<times> string \<times> string \<times> string \<times> string \<Rightarrow> 'v"
  cd_get :: "'v \<Rightarrow> string \<Rightarrow> 'v option"
  cd_set :: "'v \<Rightarrow> string \<Rightarrow> 'v \<Rightarrow> 'v"
  cd_as_u64 :: "'v \<Rightarrow> u64 option"
  cd_u64 :: "u64 \<Rightarrow> 'v"
  cd_observation :: "string \<times> u32 \<times> bool \<Rightarrow> 'v"

abbreviation serde_of :: "'v Codec \<Rightarrow> 'v Serde" where
  "serde_of cd \<equiv> \<lparr>sd_digest = sd_digest cd, sd_write = sd_write cd, sd_read = sd_read cd, sd_str = sd_str cd\<rparr>"

record 'v StartRequest =
  rq_intent :: 'v
  rq_model :: string
  rq_host :: string
  rq_port :: u16
  rq_backend :: string
  rq_fits_vram :: bool
  rq_notes :: "string list"
  rq_context_tokens :: u32
  rq_command :: CommandSpec
  rq_vram_need :: u64
  rq_vram_budget :: u64
  rq_allow_evict :: bool

datatype StartError =
    ShuttingDown | Termination term_error | Persistence store_error | PortInUse string
  | WontFit u64 u64 | LeasedCapacity u64 u64 | EvictionRequired "string list"

datatype LeaseError = LeasePersistence store_error | Unavailable string

type_synonym endpoints = "(string, Endpoint) hash_map"

record 'v Supervisor =
  sv_shutting_down :: bool
  sv_endpoints :: endpoints
  sv_leases :: "(string, Lease) hash_map"
  sv_store :: "('v EndpointStore \<times> directory) option"

definition supervisor_default :: "'v Supervisor" where
  "supervisor_default = \<lparr>sv_shutting_down = False, sv_endpoints = [], sv_leases = [], sv_store = None\<rparr>"

text \<open>Iterating over \<open>values_mut\<close>: every endpoint in turn (\<open>map\<close>, \<open>filter_map\<close>), or until one answers
  (\<open>find_map\<close>).\<close>

fun visit :: "(Endpoint \<Rightarrow> 'w \<Rightarrow> 'a \<times> Endpoint \<times> 'w) \<Rightarrow> endpoints \<Rightarrow> 'w \<Rightarrow> 'a list \<times> endpoints \<times> 'w" where
  "visit f [] w = ([], [], w)"
| "visit f ((k, e) # m) w =
     (let (a, e', w1) = f e w; (as, m', w2) = visit f m w1 in (a # as, (k, e') # m', w2))"

fun visit_find ::
    "(Endpoint \<Rightarrow> 'w \<Rightarrow> 'a option \<times> Endpoint \<times> 'w) \<Rightarrow> endpoints \<Rightarrow> 'w \<Rightarrow> 'a option \<times> endpoints \<times> 'w" where
  "visit_find f [] w = (None, [], w)"
| "visit_find f ((k, e) # m) w =
     (let (a, e', w1) = f e w
      in case a of
           Some x \<Rightarrow> (Some x, (k, e') # m, w1)
         | None \<Rightarrow> (let (r, m', w2) = visit_find f m w1 in (r, (k, e') # m', w2)))"

text \<open>Refresh the endpoint, then look at it.\<close>

definition looking :: "'w Os \<Rightarrow> time \<Rightarrow> (Endpoint \<Rightarrow> 'a) \<Rightarrow> Endpoint \<Rightarrow> 'w \<Rightarrow> 'a \<times> Endpoint \<times> 'w" where
  "looking os now g e w = (case refresh os now e w of (e', w') \<Rightarrow> (g e', e', w'))"

subsection \<open>Persistence\<close>

definition store_commit ::
    "'v Codec \<Rightarrow> CommitIo \<Rightarrow> ('v IntentState \<Rightarrow> 'v IntentState) \<Rightarrow> 'v Supervisor \<Rightarrow> store_error option \<times> 'v Supervisor" where
  "store_commit cd io change sv =
     (case sv_store sv of
        None \<Rightarrow> (None, sv)
      | Some (st, dir) \<Rightarrow>
          (case commit (serde_of cd) io (change (es_state st)) st dir of
             (r, st', dir') \<Rightarrow> (r, sv\<lparr>sv_store := Some (st', dir')\<rparr>)))"

fun leases_to_values :: "'v Codec \<Rightarrow> (string, Lease) hash_map \<Rightarrow> (string \<times> 'v) list option" where
  "leases_to_values cd [] = Some []"
| "leases_to_values cd ((i, l) # ls) =
     (case cd_lease_to cd l of
        None \<Rightarrow> None
      | Some v \<Rightarrow> map_option ((#) (i, v)) (leases_to_values cd ls))"

definition bt_collect :: "(string \<times> 'v) list \<Rightarrow> (string, 'v) btree_map" where
  "bt_collect = foldl (\<lambda>m (k, v). bt_insert k v m) []"

definition persist_leases ::
    "'v Codec \<Rightarrow> CommitIo \<Rightarrow> (string, Lease) hash_map \<Rightarrow> 'v Supervisor \<Rightarrow> store_error option \<times> 'v Supervisor" where
  "persist_leases cd io leases sv =
     (if sv_store sv = None then (None, sv)
      else case leases_to_values cd leases of
        None \<Rightarrow> (Some SerialiseFailed, sv)
      | Some vs \<Rightarrow> store_commit cd io (\<lambda>s. s\<lparr>is_leases := bt_collect vs\<rparr>) sv)"

definition recovery_intents :: "'v Supervisor \<Rightarrow> (string \<times> 'v) list" where
  "recovery_intents sv = (case sv_store sv of None \<Rightarrow> [] | Some (st, _) \<Rightarrow> is_endpoints (es_state st))"

definition recovery_sessions :: "'v Supervisor \<Rightarrow> 'v list" where
  "recovery_sessions sv = (case sv_store sv of None \<Rightarrow> [] | Some (st, _) \<Rightarrow> map snd (is_sessions (es_state st)))"

definition persist_session :: "'v Codec \<Rightarrow> CommitIo \<Rightarrow> Session \<Rightarrow> 'v Supervisor \<Rightarrow> store_error option \<times> 'v Supervisor" where
  "persist_session cd io se sv =
     store_commit cd io
       (\<lambda>s. s\<lparr>is_sessions := bt_insert (se_id se)
          (cd_session cd (se_id se, se_name se, se_role se, se_mode se, se_engine se, se_model se)) (is_sessions s)\<rparr>) sv"

definition remove_session :: "'v Codec \<Rightarrow> CommitIo \<Rightarrow> string \<Rightarrow> 'v Supervisor \<Rightarrow> store_error option \<times> 'v Supervisor" where
  "remove_session cd io i sv =
     (case store_commit cd io
         (\<lambda>s. s\<lparr>is_sessions := bt_remove i (is_sessions s), is_leases := bt_remove i (is_leases s)\<rparr>) sv of
        (Some e, sv1) \<Rightarrow> (Some e, sv1)
      | (None, sv1) \<Rightarrow> (None, sv1\<lparr>sv_leases := hm_remove i (sv_leases sv1)\<rparr>))"

definition sup_has_history :: "'v Supervisor \<Rightarrow> bool" where
  "sup_has_history sv = (case sv_store sv of None \<Rightarrow> False | Some (st, _) \<Rightarrow> has_history st)"

definition commit_intent ::
    "'v Codec \<Rightarrow> CommitIo \<Rightarrow> string list \<Rightarrow> (string \<times> 'v) option \<Rightarrow> 'v Supervisor \<Rightarrow> store_error option \<times> 'v Supervisor" where
  "commit_intent cd io removed added sv =
     store_commit cd io
       (\<lambda>s. let m = foldl (\<lambda>m i. bt_remove i m) (is_endpoints s) removed
            in s\<lparr>is_endpoints := (case added of None \<Rightarrow> m | Some (i, intent) \<Rightarrow> bt_insert i intent m)\<rparr>) sv"

datatype open_error = StoreError store_error | InvalidLease | InvalidLeaseIdentity | LeaseSerialise

text \<open>Restoring one lease: the lease as recovered, with its expiry bounded, and whether that changed it.\<close>

definition restore_lease :: "'v Codec \<Rightarrow> u64 \<Rightarrow> time \<Rightarrow> string \<Rightarrow> 'v \<Rightarrow> open_error + Lease \<times> bool" where
  "restore_lease cd epoch now i v =
     (case cd_lease_from cd v of
        None \<Rightarrow> Inl InvalidLease
      | Some l \<Rightarrow>
          if le_session_id l \<noteq> i \<or> i = [] \<or> le_endpoint_id l = [] \<or> le_model l = [] then Inl InvalidLeaseIdentity
          else let bounded = (if le_expires_at l = 0 then sat_add epoch LEASE_TTL_SECS
                              else min (le_expires_at l) (sat_add epoch LEASE_TTL_SECS))
               in Inr (l\<lparr>le_recovered := True, le_expires_at := bounded, le_renewed_at := Some now\<rparr>, le_expires_at l \<noteq> bounded))"

fun restore_leases ::
    "'v Codec \<Rightarrow> u64 \<Rightarrow> time \<Rightarrow> (string \<times> 'v) list \<Rightarrow> (string, Lease) hash_map \<Rightarrow> bool
     \<Rightarrow> open_error + (string, Lease) hash_map \<times> bool" where
  "restore_leases cd epoch now [] acc migrated = Inr (acc, migrated)"
| "restore_leases cd epoch now ((i, v) # vs) acc migrated =
     (case restore_lease cd epoch now i v of
        Inl e \<Rightarrow> Inl e
      | Inr (l, m) \<Rightarrow> restore_leases cd epoch now vs (hm_insert i l acc) (migrated \<or> m))"

definition sup_open :: "'v Codec \<Rightarrow> CommitIo \<Rightarrow> u64 \<Rightarrow> time \<Rightarrow> directory \<Rightarrow> open_error + 'v Supervisor" where
  "sup_open cd io epoch now dir =
     (case store_open (serde_of cd) dir of
        Inl e \<Rightarrow> Inl (StoreError e)
      | Inr st \<Rightarrow>
          (case restore_leases cd epoch now (is_leases (es_state st)) [] False of
             Inl e \<Rightarrow> Inl e
           | Inr (leases, migrated) \<Rightarrow>
               (let sv = supervisor_default\<lparr>sv_leases := leases, sv_store := Some (st, dir)\<rparr>
                in if \<not> migrated then Inr sv
                   else case leases_to_values cd leases of
                     None \<Rightarrow> Inl LeaseSerialise
                   | Some vs \<Rightarrow>
                       (case store_commit cd io
                           (\<lambda>s. s\<lparr>is_leases := foldl (\<lambda>m (k, v). bt_insert k v m) (is_leases s) vs\<rparr>) sv of
                          (Some e, _) \<Rightarrow> Inl (StoreError e)
                        | (None, sv1) \<Rightarrow> Inr sv1))))"

subsection \<open>Leases\<close>

record LeaseView =
  lw_session_id :: string
  lw_model :: string
  lw_endpoint_id :: string
  lw_state :: string
  lw_expires_at :: u64

definition lease_view :: "'w Os \<Rightarrow> u64 \<Rightarrow> time \<Rightarrow> Lease \<Rightarrow> endpoints \<Rightarrow> 'w \<Rightarrow> LeaseView \<times> endpoints \<times> 'w" where
  "lease_view os epoch now l m w =
     (let (state, m', w') =
        (if lease_expired epoch now l then (''expired'', m, w)
         else if le_recovered l then (''recovery_required'', m, w)
         else case hm_get m (le_endpoint_id l) of
           None \<Rightarrow> (''unavailable'', m, w)
         | Some e \<Rightarrow>
             (case refresh os now e w of
                (e', w1) \<Rightarrow> (if is_ready e' then ''active'' else ''unavailable'', hm_insert (le_endpoint_id l) e' m, w1)))
      in (\<lparr>lw_session_id = le_session_id l, lw_model = le_model l, lw_endpoint_id = le_endpoint_id l,
           lw_state = state, lw_expires_at = le_expires_at l\<rparr>, m', w'))"

definition serving :: "string \<Rightarrow> Endpoint \<Rightarrow> bool" where
  "serving model e = (ep_model e = model \<and> is_ready e)"

definition lease ::
    "'w Os \<Rightarrow> 'v Codec \<Rightarrow> CommitIo \<Rightarrow> u64 \<Rightarrow> time \<Rightarrow> string \<Rightarrow> string \<Rightarrow> 'v Supervisor \<Rightarrow> 'w
     \<Rightarrow> (LeaseError + LeaseView) \<times> 'v Supervisor \<times> 'w" where
  "lease os cd io epoch now session model sv w =
     (case visit_find (looking os now (\<lambda>e. if serving model e then Some (ep_id e) else None)) (sv_endpoints sv) w of
        (None, m, w1) \<Rightarrow> (Inl (Unavailable model), sv\<lparr>sv_endpoints := m\<rparr>, w1)
      | (Some eid, m, w1) \<Rightarrow>
          (let l = \<lparr>le_session_id = session, le_model = model, le_endpoint_id = eid, le_recovered = False,
                    le_expires_at = sat_add epoch LEASE_TTL_SECS, le_renewed_at = Some now\<rparr>
           in case persist_leases cd io (hm_insert session l (sv_leases sv)) (sv\<lparr>sv_endpoints := m\<rparr>) of
                (Some e, sv1) \<Rightarrow> (Inl (LeasePersistence e), sv1, w1)
              | (None, sv1) \<Rightarrow>
                  (case lease_view os epoch now l (sv_endpoints sv1) w1 of
                     (view, m', w2) \<Rightarrow>
                       (Inr view, sv1\<lparr>sv_endpoints := m', sv_leases := hm_insert session l (sv_leases sv1)\<rparr>, w2))))"

definition release :: "'v Codec \<Rightarrow> CommitIo \<Rightarrow> string \<Rightarrow> 'v Supervisor \<Rightarrow> (store_error + bool) \<times> 'v Supervisor" where
  "release cd io session sv =
     (if hm_get (sv_leases sv) session = None then (Inr False, sv)
      else let next = hm_remove session (sv_leases sv)
      in case persist_leases cd io next sv of
           (Some e, sv1) \<Rightarrow> (Inl e, sv1)
         | (None, sv1) \<Rightarrow> (Inr True, sv1\<lparr>sv_leases := next\<rparr>))"

definition swap_leases ::
    "'v Codec \<Rightarrow> CommitIo \<Rightarrow> (string, Lease) hash_map \<Rightarrow> 'v Supervisor \<Rightarrow> store_error option \<times> 'v Supervisor" where
  "swap_leases cd io next sv =
     (case persist_leases cd io next sv of
        (Some e, sv1) \<Rightarrow> (Some e, sv1)
      | (None, sv1) \<Rightarrow> (None, sv1\<lparr>sv_leases := next\<rparr>))"

definition renew_lease ::
    "'v Codec \<Rightarrow> CommitIo \<Rightarrow> u64 \<Rightarrow> time \<Rightarrow> string \<Rightarrow> 'v Supervisor \<Rightarrow> store_error option \<times> 'v Supervisor" where
  "renew_lease cd io epoch now session sv =
     (case hm_get (sv_leases sv) session of
        None \<Rightarrow> (None, sv)
      | Some l \<Rightarrow>
          if le_recovered l then (None, sv)
          else if lease_expired epoch now l then swap_leases cd io (hm_remove session (sv_leases sv)) sv
          else swap_leases cd io
            (hm_insert session (l\<lparr>le_expires_at := sat_add epoch LEASE_TTL_SECS, le_renewed_at := Some now\<rparr>) (sv_leases sv)) sv)"

definition expire_leases ::
    "'v Codec \<Rightarrow> CommitIo \<Rightarrow> u64 \<Rightarrow> time \<Rightarrow> 'v Supervisor \<Rightarrow> store_error option \<times> 'v Supervisor" where
  "expire_leases cd io epoch now sv =
     (let next = hm_retain (\<lambda>_ l. \<not> lease_expired epoch now l) (sv_leases sv)
      in if length next \<noteq> length (sv_leases sv) then swap_leases cd io next sv else (None, sv))"

definition lease_status ::
    "'w Os \<Rightarrow> u64 \<Rightarrow> time \<Rightarrow> string \<Rightarrow> 'v Supervisor \<Rightarrow> 'w \<Rightarrow> LeaseView option \<times> 'v Supervisor \<times> 'w" where
  "lease_status os epoch now session sv w =
     (case hm_get (sv_leases sv) session of
        None \<Rightarrow> (None, sv, w)
      | Some l \<Rightarrow>
          (case lease_view os epoch now l (sv_endpoints sv) w of
             (view, m, w') \<Rightarrow> (Some view, sv\<lparr>sv_endpoints := m\<rparr>, w')))"

subsection \<open>Starting an endpoint\<close>

definition slug_char :: "char \<Rightarrow> char" where
  "slug_char c = (if is_alnum c then lower_char c else CHR ''-'')"

definition endpoint_id :: "string \<Rightarrow> u16 \<Rightarrow> string" where
  "endpoint_id model port =
     (let slug = join ''-'' (filter (\<lambda>s. s \<noteq> []) (split_on (CHR ''-'') (map slug_char model)))
      in (if slug = [] then ''model'' else slug) @ ''-'' @ show_word port)"

text \<open>A crashed tenant of the same id does not block the port.\<close>

definition reap_tenant :: "'w Os \<Rightarrow> time \<Rightarrow> string \<Rightarrow> endpoints \<Rightarrow> 'w \<Rightarrow> bool \<times> endpoints \<times> 'w" where
  "reap_tenant os now i m w =
     (case hm_get m i of
        None \<Rightarrow> (False, m, w)
      | Some e \<Rightarrow> (case refresh os now e w of (e', w') \<Rightarrow> (process_running e', hm_insert i e' m, w')))"

definition port_holder :: "'w Os \<Rightarrow> time \<Rightarrow> string \<Rightarrow> u16 \<Rightarrow> endpoints \<Rightarrow> 'w \<Rightarrow> string option \<times> endpoints \<times> 'w" where
  "port_holder os now i port =
     visit_find (\<lambda>e w. if ep_id e \<noteq> i \<and> ep_port e = port
                       then looking os now (\<lambda>e. if process_running e then Some (ep_id e) else None) e w
                       else (None, e, w))"

definition resident :: "string \<Rightarrow> Endpoint \<Rightarrow> ResidentVram option" where
  "resident i e =
     (if ep_id e \<noteq> i \<and> process_running e \<and> 0 < ep_vram_bytes e
      then Some \<lparr>rv_id = ep_id e, rv_vram_bytes = ep_vram_bytes e, rv_last_used = ep_last_used e\<rparr> else None)"

definition leased_vram :: "'w Os \<Rightarrow> time \<Rightarrow> string list \<Rightarrow> endpoints \<Rightarrow> 'w \<Rightarrow> u64 \<times> endpoints \<times> 'w" where
  "leased_vram os now protected m w =
     (case visit (\<lambda>e w. if ep_id e \<in> set protected
                        then looking os now (\<lambda>e. if process_running e then ep_vram_bytes e else 0) e w
                        else (0, e, w)) m w of
        (vs, m', w') \<Rightarrow> (foldl (+) 0 vs, m', w'))"

definition residency ::
    "'w Os \<Rightarrow> time \<Rightarrow> string \<Rightarrow> (string, Lease) hash_map \<Rightarrow> 'v StartRequest \<Rightarrow> endpoints \<Rightarrow> 'w
     \<Rightarrow> (StartError + string list) \<times> endpoints \<times> 'w" where
  "residency os now i leases req m w =
     (if \<not> (0 < rq_vram_budget req \<and> 0 < rq_vram_need req) then (Inr [], m, w)
      else let protected = map (le_endpoint_id \<circ> snd) leases
      in case visit (looking os now (resident i)) m w of
           (rs, m1, w1) \<Rightarrow>
             (case admit (rq_vram_budget req) (rq_vram_need req)
                    (exclude_leased_residents protected (List.map_filter id rs)) of
                Admit \<Rightarrow> (Inr [], m1, w1)
              | Evict ids \<Rightarrow> (if rq_allow_evict req then Inr ids else Inl (EvictionRequired ids), m1, w1)
              | Refuse \<Rightarrow>
                  (case leased_vram os now protected m1 w1 of
                     (held, m2, w2) \<Rightarrow>
                       (Inl (if 0 < held then LeasedCapacity (rq_vram_need req) held
                             else WontFit (rq_vram_need req) (rq_vram_budget req)), m2, w2))))"

definition hm_update :: "('v \<Rightarrow> 'v) \<Rightarrow> string \<Rightarrow> (string, 'v) hash_map \<Rightarrow> (string, 'v) hash_map" where
  "hm_update f k m = map (\<lambda>(k', v). (k', if k' = k then f v else v)) m"

definition mark_evicted :: "Endpoint \<Rightarrow> Endpoint" where
  "mark_evicted e = e\<lparr>ep_error := Some EvictionRequested, ep_ready := False\<rparr>"

fun stop_victims :: "'w Os \<Rightarrow> string list \<Rightarrow> endpoints \<Rightarrow> 'w \<Rightarrow> term_error option \<times> endpoints \<times> 'w" where
  "stop_victims os [] m w = (None, m, w)"
| "stop_victims os (v # vs) m w =
     (case hm_get m v of
        None \<Rightarrow> stop_victims os vs (hm_remove v m) w
      | Some e \<Rightarrow>
          (case stop_owned os e w of
             (Some err, e', w1) \<Rightarrow> (Some err, hm_insert v e' m, w1)
           | (None, e', w1) \<Rightarrow> stop_victims os vs (hm_remove v (hm_insert v e' m)) w1))"

definition evict_victims ::
    "'w Os \<Rightarrow> 'v Codec \<Rightarrow> CommitIo \<Rightarrow> string list \<Rightarrow> 'v Supervisor \<Rightarrow> 'w
     \<Rightarrow> StartError option \<times> 'v Supervisor \<times> 'w" where
  "evict_victims os cd io ids sv w =
     (case (if ids = [] then (None, sv) else commit_intent cd io ids None sv) of
        (Some e, sv1) \<Rightarrow> (Some (Persistence e), sv1, w)
      | (None, sv1) \<Rightarrow>
          (case stop_victims os ids (foldl (\<lambda>m i. hm_update mark_evicted i m) (sv_endpoints sv1) ids) w of
             (r, m, w1) \<Rightarrow> (map_option Termination r, sv1\<lparr>sv_endpoints := m\<rparr>, w1)))"

definition new_endpoint :: "time \<Rightarrow> string \<Rightarrow> 'v StartRequest \<Rightarrow> string + u32 \<Rightarrow> Endpoint" where
  "new_endpoint now i req sp =
     \<lparr>ep_restart_enabled = True, ep_id = i, ep_model = rq_model req, ep_host = rq_host req, ep_port = rq_port req,
      ep_backend = rq_backend req, ep_fits_vram = rq_fits_vram req, ep_notes = rq_notes req,
      ep_context_tokens = rq_context_tokens req, ep_command = rq_command req,
      ep_child = (case sp of Inr pid \<Rightarrow> Some pid | Inl _ \<Rightarrow> None),
      ep_error = (case sp of Inr _ \<Rightarrow> None | Inl msg \<Rightarrow> Some (SpawnFailed msg)),
      ep_exit_code = None, ep_started_at = now, ep_restarts = 0, ep_last_exit_at = None,
      ep_vram_bytes = rq_vram_need req, ep_last_used = now, ep_ready = False, ep_last_health_probe = None,
      ep_readiness_error = None\<rparr>"

text \<open>The last part: record the intent, spawn, look once, track.\<close>

definition launch ::
    "'w Os \<Rightarrow> 'v Codec \<Rightarrow> CommitIo \<Rightarrow> time \<Rightarrow> string \<Rightarrow> 'v StartRequest \<Rightarrow> 'v Supervisor \<Rightarrow> 'w
     \<Rightarrow> (StartError + EndpointView) \<times> 'v Supervisor \<times> 'w" where
  "launch os cd io now i req sv w =
     (case commit_intent cd io [] (Some (i, rq_intent req)) sv of
        (Some e, sv1) \<Rightarrow> (Inl (Persistence e), sv1, w)
      | (None, sv1) \<Rightarrow>
          (case os_spawn os (rq_command req) w of
             (sp, w1) \<Rightarrow>
               (case endpoint_view os now (new_endpoint now i req sp) w1 of
                  (view, e, w2) \<Rightarrow> (Inr view, sv1\<lparr>sv_endpoints := hm_insert i e (sv_endpoints sv1)\<rparr>, w2))))"

text \<open>The whole operation; \<open>now\<close> lists the readings of the clock at its four stages.\<close>

definition start ::
    "'w Os \<Rightarrow> 'v Codec \<Rightarrow> CommitIo \<Rightarrow> CommitIo \<Rightarrow> (nat \<Rightarrow> time) \<Rightarrow> 'v StartRequest \<Rightarrow> 'v Supervisor \<Rightarrow> 'w
     \<Rightarrow> (StartError + EndpointView) \<times> 'v Supervisor \<times> 'w" where
  "start os cd io1 io2 now req sv w =
     (let i = endpoint_id (rq_model req) (rq_port req) in
      if sv_shutting_down sv then (Inl ShuttingDown, sv, w)
      else case reap_tenant os (now 0) i (sv_endpoints sv) w of
        (True, m1, w1) \<Rightarrow> (Inl (PortInUse i), sv\<lparr>sv_endpoints := m1\<rparr>, w1)
      | (False, m1, w1) \<Rightarrow>
          (case port_holder os (now 1) i (rq_port req) m1 w1 of
             (Some holder, m2, w2) \<Rightarrow> (Inl (PortInUse holder), sv\<lparr>sv_endpoints := m2\<rparr>, w2)
           | (None, m2, w2) \<Rightarrow>
               (case residency os (now 2) i (sv_leases sv) req m2 w2 of
                  (Inl e, m3, w3) \<Rightarrow> (Inl e, sv\<lparr>sv_endpoints := m3\<rparr>, w3)
                | (Inr ids, m3, w3) \<Rightarrow>
                    (case evict_victims os cd io1 ids (sv\<lparr>sv_endpoints := m3\<rparr>) w3 of
                       (Some e, sv4, w4) \<Rightarrow> (Inl e, sv4, w4)
                     | (None, sv4, w4) \<Rightarrow> launch os cd io2 (now 3) i req sv4 w4))))"

subsection \<open>Looking, stopping, maintaining\<close>

definition touch :: "time \<Rightarrow> string \<Rightarrow> 'v Supervisor \<Rightarrow> 'v Supervisor" where
  "touch now i sv = sv\<lparr>sv_endpoints := hm_update (\<lambda>e. e\<lparr>ep_last_used := now\<rparr>) i (sv_endpoints sv)\<rparr>"

definition with_endpoints :: "'v Supervisor \<Rightarrow> 'a \<times> endpoints \<times> 'w \<Rightarrow> 'a \<times> 'v Supervisor \<times> 'w" where
  "with_endpoints sv = (\<lambda>(a, m, w). (a, sv\<lparr>sv_endpoints := m\<rparr>, w))"

definition endpoint_for_model ::
    "'w Os \<Rightarrow> time \<Rightarrow> string \<Rightarrow> 'v Supervisor \<Rightarrow> 'w \<Rightarrow> (string \<times> u16 \<times> string) option \<times> 'v Supervisor \<times> 'w" where
  "endpoint_for_model os now model sv w =
     with_endpoints sv (visit_find
       (looking os now (\<lambda>e. if serving model e then Some (ep_host e, ep_port e, ep_id e) else None)) (sv_endpoints sv) w)"

definition served_models :: "'w Os \<Rightarrow> time \<Rightarrow> 'v Supervisor \<Rightarrow> 'w \<Rightarrow> string list \<times> 'v Supervisor \<times> 'w" where
  "served_models os now sv w =
     (case visit (looking os now (\<lambda>e. if is_ready e then Some (ep_model e) else None)) (sv_endpoints sv) w of
        (names, m, w') \<Rightarrow> (remdups_adj (sort (List.map_filter id names)), sv\<lparr>sv_endpoints := m\<rparr>, w'))"

definition lease_count :: "(string, Lease) hash_map \<Rightarrow> Endpoint \<Rightarrow> nat" where
  "lease_count leases e = length (filter (\<lambda>(_, l). le_endpoint_id l = ep_id e) leases)"

record EngineProfile =
  pf_id :: string
  pf_model :: string
  pf_state :: string
  pf_backend :: string
  pf_context_tokens :: u32
  pf_lease_count :: nat
  pf_vram_bytes :: "u64 option"

definition engine_profile :: "(string, Lease) hash_map \<Rightarrow> bool \<Rightarrow> Endpoint \<Rightarrow> EngineProfile option" where
  "engine_profile leases include_vram e =
     (if \<not> is_ready e then None
      else Some \<lparr>pf_id = ep_id e, pf_model = ep_model e, pf_state = endpoint_state e, pf_backend = ep_backend e,
                 pf_context_tokens = ep_context_tokens e, pf_lease_count = lease_count leases e,
                 pf_vram_bytes = (if include_vram then Some (ep_vram_bytes e) else None)\<rparr>)"

definition engine_profiles :: "'w Os \<Rightarrow> time \<Rightarrow> bool \<Rightarrow> 'v Supervisor \<Rightarrow> 'w \<Rightarrow> EngineProfile list \<times> 'v Supervisor \<times> 'w" where
  "engine_profiles os now include_vram sv w =
     (case visit (looking os now (engine_profile (sv_leases sv) include_vram)) (sv_endpoints sv) w of
        (ps, m, w') \<Rightarrow> (sort_key pf_model (List.map_filter id ps), sv\<lparr>sv_endpoints := m\<rparr>, w'))"

definition context_tokens_for_model :: "'w Os \<Rightarrow> time \<Rightarrow> string \<Rightarrow> 'v Supervisor \<Rightarrow> 'w \<Rightarrow> u32 option \<times> 'v Supervisor \<times> 'w" where
  "context_tokens_for_model os now model sv w =
     (case engine_profiles os now False sv w of
        (ps, sv', w') \<Rightarrow> (map_option pf_context_tokens (List.find (\<lambda>p. pf_model p = model) ps), sv', w'))"

datatype 'v Listed = Tracked EndpointView "nat option" | RecoveryRequired string "'v option"

definition endpoint_list :: "'w Os \<Rightarrow> 'v Codec \<Rightarrow> time \<Rightarrow> 'v Supervisor \<Rightarrow> 'w \<Rightarrow> 'v Listed list \<times> 'v Supervisor \<times> 'w" where
  "endpoint_list os cd now sv w =
     (case visit (\<lambda>e w. case endpoint_view os now e w of
          (view, e', w') \<Rightarrow> ((ep_started_at e', Tracked view (Some (lease_count (sv_leases sv) e'))), e', w')) (sv_endpoints sv) w of
        (views, m, w') \<Rightarrow>
          (map snd (rev (sort_key fst (rev views))) @
             map (\<lambda>(i, intent). RecoveryRequired i (cd_get cd intent ''model''))
               (filter (\<lambda>(i, _). hm_get m i = None) (recovery_intents sv)),
           sv\<lparr>sv_endpoints := m\<rparr>, w'))"

definition endpoint_get ::
    "'w Os \<Rightarrow> 'v Codec \<Rightarrow> time \<Rightarrow> string \<Rightarrow> 'v Supervisor \<Rightarrow> 'w \<Rightarrow> 'v Listed option \<times> 'v Supervisor \<times> 'w" where
  "endpoint_get os cd now i sv w =
     (case hm_get (sv_endpoints sv) i of
        Some e \<Rightarrow>
          (case endpoint_view os now e w of
             (view, e', w') \<Rightarrow> (Some (Tracked view None), sv\<lparr>sv_endpoints := hm_insert i e' (sv_endpoints sv)\<rparr>, w'))
      | None \<Rightarrow>
          (map_option (\<lambda>(_, intent). RecoveryRequired i (cd_get cd intent ''model''))
             (List.find (\<lambda>(k, _). k = i) (recovery_intents sv)), sv, w))"

datatype stop_error = StopPersistence store_error | StopTermination term_error

definition stop ::
    "'w Os \<Rightarrow> 'v Codec \<Rightarrow> CommitIo \<Rightarrow> string \<Rightarrow> 'v Supervisor \<Rightarrow> 'w \<Rightarrow> (stop_error + bool) \<times> 'v Supervisor \<times> 'w" where
  "stop os cd io i sv w =
     (if hm_get (sv_endpoints sv) i = None \<and> \<not> list_ex (\<lambda>(k, _). k = i) (recovery_intents sv) then (Inr False, sv, w)
      else case commit_intent cd io [i] None sv of
        (Some e, sv1) \<Rightarrow> (Inl (StopPersistence e), sv1, w)
      | (None, sv1) \<Rightarrow>
          (case stop_victims os [i] (sv_endpoints sv1) w of
             (Some err, m, w1) \<Rightarrow> (Inl (StopTermination err), sv1\<lparr>sv_endpoints := m\<rparr>, w1)
           | (None, m, w1) \<Rightarrow> (Inr True, sv1\<lparr>sv_endpoints := m\<rparr>, w1)))"

definition begin_shutdown :: "'v Supervisor \<Rightarrow> 'v Supervisor" where
  "begin_shutdown sv =
     sv\<lparr>sv_shutting_down := True,
        sv_endpoints := map (\<lambda>(k, e). (k, e\<lparr>ep_restart_enabled := False\<rparr>)) (sv_endpoints sv)\<rparr>"

text \<open>\<open>late e\<close> is whether the fifteen seconds had passed when the loop came to endpoint \<open>e\<close>.\<close>

definition shutdown_owned ::
    "'w Os \<Rightarrow> (Endpoint \<Rightarrow> bool) \<Rightarrow> 'v Supervisor \<Rightarrow> 'w \<Rightarrow> nat option \<times> 'v Supervisor \<times> 'w" where
  "shutdown_owned os late sv w =
     (let sv1 = begin_shutdown sv
      in case visit (\<lambda>e w. if late e then (True, e, w)
                           else case stop_owned os e w of (r, e', w') \<Rightarrow> (r \<noteq> None, e', w')) (sv_endpoints sv1) w of
           (fs, m, w') \<Rightarrow>
             (let failed = length (filter id fs)
              in (if failed = 0 then None else Some failed, sv1\<lparr>sv_endpoints := m\<rparr>, w')))"

definition observe_intent :: "'v Codec \<Rightarrow> 'v \<Rightarrow> bool \<Rightarrow> 'v \<Rightarrow> 'v \<times> bool" where
  "observe_intent cd observation reset intent =
     (let (i1, c1) = (if cd_get cd intent ''_last_observed'' \<noteq> Some observation
                      then (cd_set cd intent ''_last_observed'' observation, True) else (intent, False));
          attempts = (case Option.bind (cd_get cd i1 ''_recovery_attempts'') (cd_as_u64 cd) of None \<Rightarrow> 0 | Some n \<Rightarrow> n)
      in if reset \<and> 0 < attempts then (cd_set cd i1 ''_recovery_attempts'' (cd_u64 cd 0), True) else (i1, c1))"

fun observe_all :: "'v Codec \<Rightarrow> (string \<times> 'v \<times> bool) list \<Rightarrow> (string, 'v) btree_map \<Rightarrow> (string, 'v) btree_map \<times> bool" where
  "observe_all cd [] m = (m, False)"
| "observe_all cd ((i, observation, reset) # os) m =
     (case bt_get m i of
        None \<Rightarrow> observe_all cd os m
      | Some intent \<Rightarrow>
          (let (intent', c) = observe_intent cd observation reset intent;
               (m', c') = observe_all cd os (bt_insert i intent' m)
           in (m', c \<or> c')))"

definition observation_of :: "'v Codec \<Rightarrow> time \<Rightarrow> Endpoint \<Rightarrow> string \<times> 'v \<times> bool" where
  "observation_of cd now e =
     (ep_id e, cd_observation cd (endpoint_state e, ep_restarts e, is_ready e),
      is_ready e \<and> STABLE_UPTIME_RESET \<le> now - ep_started_at e)"

text \<open>One maintenance pass.  The locks are released between its four parts: expired leases go, the endpoints
  are refreshed and their probes scheduled, the answers of the probes are applied and the endpoints observed,
  the observations are recorded.  \<open>probe\<close> is what each health probe answered.\<close>

definition refresh_and_schedule :: "'w Os \<Rightarrow> time \<Rightarrow> Endpoint \<Rightarrow> 'w \<Rightarrow> HealthProbe option \<times> Endpoint \<times> 'w" where
  "refresh_and_schedule os now e w =
     (case refresh os now e w of (e1, w1) \<Rightarrow> (case schedule_health_probe now e1 of (p, e2) \<Rightarrow> (p, e2, w1)))"

definition apply_probes :: "(HealthProbe \<Rightarrow> string option) \<Rightarrow> HealthProbe list \<Rightarrow> endpoints \<Rightarrow> endpoints" where
  "apply_probes probe ps m = foldl (\<lambda>m p. hm_update (apply_health_probe p (probe p)) (hp_endpoint_id p) m) m ps"

definition maintain_scan :: "'w Os \<Rightarrow> time \<Rightarrow> 'v Supervisor \<Rightarrow> 'w \<Rightarrow> HealthProbe list \<times> 'v Supervisor \<times> 'w" where
  "maintain_scan os now sv w =
     (case visit (refresh_and_schedule os now) (sv_endpoints sv) w of
        (ps, m, w') \<Rightarrow> (List.map_filter id ps, sv\<lparr>sv_endpoints := m\<rparr>, w'))"

definition maintain_observe ::
    "'v Codec \<Rightarrow> (HealthProbe \<Rightarrow> string option) \<Rightarrow> HealthProbe list \<Rightarrow> time \<Rightarrow> 'v Supervisor
     \<Rightarrow> (string \<times> 'v \<times> bool) list \<times> 'v Supervisor" where
  "maintain_observe cd probe ps now sv =
     (let m = apply_probes probe ps (sv_endpoints sv)
      in (map (observation_of cd now \<circ> snd) m, sv\<lparr>sv_endpoints := m\<rparr>))"

definition maintain_record ::
    "'v Codec \<Rightarrow> CommitIo \<Rightarrow> (string \<times> 'v \<times> bool) list \<Rightarrow> 'v Supervisor \<Rightarrow> 'v Supervisor" where
  "maintain_record cd io observations sv =
     (let (intents, changed) = observe_all cd observations (recovery_intents sv)
      in if changed then snd (store_commit cd io (\<lambda>s. s\<lparr>is_endpoints := intents\<rparr>) sv) else sv)"

definition maintain ::
    "'w Os \<Rightarrow> 'v Codec \<Rightarrow> CommitIo \<Rightarrow> CommitIo \<Rightarrow> (HealthProbe \<Rightarrow> string option) \<Rightarrow> u64 \<Rightarrow> (nat \<Rightarrow> time)
     \<Rightarrow> 'v Supervisor \<Rightarrow> 'w \<Rightarrow> 'v Supervisor \<times> 'w" where
  "maintain os cd io1 io2 probe epoch now sv w =
     (let sv1 = snd (expire_leases cd io1 epoch (now 0) sv);
          (ps, sv2, w2) = maintain_scan os (now 1) sv1 w;
          (observations, sv3) = maintain_observe cd probe ps (now 2) sv2
      in (maintain_record cd io2 observations sv3, w2))"

subsection \<open>Metrics\<close>

definition esc_char :: "char \<Rightarrow> string" where
  "esc_char c =
     (if c = CHR 0x5C then [CHR 0x5C, CHR 0x5C]
      else if c = CHR 0x22 then [CHR 0x5C, CHR 0x22]
      else if c = newline then [CHR 0x5C, CHR ''n'']
      else if c = carriage then [CHR 0x5C, CHR ''r'']
      else [c])"

definition esc :: "string \<Rightarrow> string" where
  "esc s = concat (map esc_char s)"

definition quoted :: "string \<Rightarrow> string" where
  "quoted s = CHR 0x22 # s @ [CHR 0x22]"

definition id_label :: "Endpoint \<Rightarrow> string" where
  "id_label e = ''id='' @ quoted (esc (ep_id e))"

definition metric_labels :: "Endpoint \<Rightarrow> string" where
  "metric_labels e =
     id_label e @ '',model='' @ quoted (esc (ep_model e)) @ '',port='' @ quoted (show_word (ep_port e)) @
     '',backend='' @ quoted (esc (ep_backend e)) @ '',state='' @ quoted (endpoint_state e)"

definition sample :: "string \<Rightarrow> string \<Rightarrow> string \<Rightarrow> string" where
  "sample name labels value = name @ ''{'' @ labels @ ''} '' @ value @ [newline]"

definition up_samples :: "Endpoint \<Rightarrow> string" where
  "up_samples e =
     sample ''cameo_endpoint_up'' (metric_labels e) (if process_running e then ''1'' else ''0'') @
     sample ''cameo_endpoint_ready'' (metric_labels e) (if is_ready e then ''1'' else ''0'')"

definition heading :: "string \<Rightarrow> string \<Rightarrow> string \<Rightarrow> string" where
  "heading name help kind = ''# HELP '' @ name @ '' '' @ help @ [newline] @ ''# TYPE '' @ name @ '' '' @ kind @ [newline]"

definition metrics :: "'w Os \<Rightarrow> time \<Rightarrow> 'v Supervisor \<Rightarrow> 'w \<Rightarrow> string \<times> 'v Supervisor \<times> 'w" where
  "metrics os now sv w =
     (case visit (looking os now id) (sv_endpoints sv) w of
        (es, m, w') \<Rightarrow>
          (heading ''cameo_up'' ''1 if the control-plane daemon is serving.'' ''gauge'' @ ''cameo_up 1'' @ [newline] @
           heading ''cameo_endpoints'' ''Number of tracked model endpoints.'' ''gauge'' @
             ''cameo_endpoints '' @ show_nat (length m) @ [newline] @
           heading ''cameo_endpoint_up'' (''1 if the endpoint'' @ [CHR 0x27] @ ''s process is running.'') ''gauge'' @
           heading ''cameo_endpoint_ready'' ''1 if the endpoint passed its health probe.'' ''gauge'' @
           concat (map up_samples es) @
           heading ''cameo_endpoint_restarts_total'' ''Auto-restarts since creation.'' ''counter'' @
           concat (map (\<lambda>e. sample ''cameo_endpoint_restarts_total'' (id_label e) (show_word (ep_restarts e))) es) @
           heading ''cameo_endpoint_uptime_seconds'' ''Seconds since the current process started.'' ''gauge'' @
           concat (map (\<lambda>e. sample ''cameo_endpoint_uptime_seconds'' (id_label e) (show_nat ((now - ep_started_at e) div secs 1))) es) @
           heading ''cameo_endpoint_vram_bytes'' ''Estimated VRAM the endpoint holds.'' ''gauge'' @
           concat (map (\<lambda>e. sample ''cameo_endpoint_vram_bytes'' (id_label e) (show_word (ep_vram_bytes e))) es),
           sv\<lparr>sv_endpoints := m\<rparr>, w'))"

section \<open>Processes\<close>

text \<open>What is relied on of the operating system: \<open>alive p w\<close> says that process \<open>p\<close> of this daemon runs in
  \<open>w\<close>.  Only a successful spawn makes a process, and a process that was waited for is gone.\<close>

definition os_sound :: "'w Os \<Rightarrow> (u32 \<Rightarrow> 'w \<Rightarrow> bool) \<Rightarrow> bool" where
  "os_sound os alive =
     ((\<forall>pid w r w1. os_try_wait os pid w = (r, w1) \<longrightarrow>
         (\<forall>p. alive p w1 \<longrightarrow> alive p w) \<and> (\<forall>c. r = WaitExited c \<longrightarrow> \<not> alive pid w1)) \<and>
      (\<forall>pid w r w1. os_kill os pid w = (r, w1) \<longrightarrow> (\<forall>p. alive p w1 \<longrightarrow> alive p w)) \<and>
      (\<forall>c w r w1. os_spawn os c w = (r, w1) \<longrightarrow> (\<forall>p. alive p w1 \<longrightarrow> alive p w \<or> r = Inr p)))"

lemma os_soundD:
  assumes "os_sound os alive"
  shows "os_try_wait os pid w = (r, w1) \<Longrightarrow> alive p w1 \<Longrightarrow> alive p w"
    and "os_try_wait os pid w = (WaitExited c, w1) \<Longrightarrow> \<not> alive pid w1"
    and "os_kill os pid w = (k, w1) \<Longrightarrow> alive p w1 \<Longrightarrow> alive p w"
    and "os_spawn os cmd w = (s, w1) \<Longrightarrow> alive p w1 \<Longrightarrow> alive p w \<or> s = Inr p"
  using assms unfolding os_sound_def by blast+

lemma confirm_loop_sound:
  assumes "os_sound os alive" and "confirm_loop os pid timeout el w = (r, w')"
  shows "(alive p w' \<longrightarrow> alive p w) \<and> (r = None \<longrightarrow> \<not> alive pid w')"
  using assms
proof (induction os pid timeout el w rule: confirm_loop.induct)
  case (1 os pid timeout el w)
  obtain x w1 where x: "os_try_wait os pid w = (x, w1)" by (cases "os_try_wait os pid w")
  have older: "alive p w1 \<Longrightarrow> alive p w" for p using os_soundD(1) [OF "1.prems"(1) x] .
  have step: "(case x of WaitError e \<Rightarrow> (Some (CannotConfirm e), w1) | WaitExited _ \<Rightarrow> (None, w1)
      | WaitRunning \<Rightarrow> if timeout \<le> el then (Some NotExited, w1) else confirm_loop os pid timeout (el + millis 10) w1) = (r, w')"
    using "1.prems"(2) x by (simp add: confirm_loop.simps [of os pid timeout el w])
  show ?case
  proof (cases x)
    case (WaitExited c)
    with step older os_soundD(2) [OF "1.prems"(1)] x show ?thesis by auto
  next
    case (WaitError e)
    with step older show ?thesis by auto
  next
    case WaitRunning
    show ?thesis
    proof (cases "timeout \<le> el")
      case True
      with step older WaitRunning show ?thesis by auto
    next
      case False
      with step WaitRunning have "confirm_loop os pid timeout (el + millis 10) w1 = (r, w')" by simp
      from "1.IH" [OF x [symmetric] WaitRunning False "1.prems"(1) this] older [of p] show ?thesis by blast
    qed
  qed
qed

lemma confirm_termination_sound:
  assumes "os_sound os alive" and "confirm_termination os pid timeout w = (r, w')"
  shows "(alive p w' \<longrightarrow> alive p w) \<and> (r = None \<longrightarrow> \<not> alive pid w')"
proof -
  obtain x w1 where x: "os_try_wait os pid w = (x, w1)" by (cases "os_try_wait os pid w")
  obtain k w2 where k: "os_kill os pid w1 = (k, w2)" by (cases "os_kill os pid w1")
  obtain y w3 where y: "os_try_wait os pid w2 = (y, w3)" by (cases "os_try_wait os pid w2")
  note d = os_soundD [OF assms(1)]
  note b1 = d(1) [OF x] and b2 = d(3) [OF k] and b3 = d(1) [OF y]
  show ?thesis
  proof (cases x)
    case WaitRunning
    show ?thesis
    proof (cases k)
      case True
      with assms(2) x k WaitRunning have "confirm_loop os pid timeout 0 w2 = (r, w')"
        by (simp add: confirm_termination_def)
      from confirm_loop_sound [OF assms(1) this, of p] b1 [of p] b2 [of p] show ?thesis by blast
    next
      case False
      have "w' = w3 \<and> (r = None \<longrightarrow> (\<exists>c. y = WaitExited c))"
        using assms(2) x k y WaitRunning False by (cases y) (auto simp: confirm_termination_def)
      with b1 [of p] b2 [of p] b3 [of p] d(2) [of pid w2 _ w3] y show ?thesis by blast
    qed
  qed (use assms(2) x b1 d(2) in \<open>auto simp: confirm_termination_def\<close>)
qed

text \<open>One endpoint moved from \<open>(e, w)\<close> to \<open>(e', w')\<close>: whatever runs now is its own process, or ran before
  and was another's.\<close>

definition owns_step :: "(u32 \<Rightarrow> 'w \<Rightarrow> bool) \<Rightarrow> Endpoint \<Rightarrow> 'w \<Rightarrow> Endpoint \<Rightarrow> 'w \<Rightarrow> bool" where
  "owns_step alive e w e' w' =
     (\<forall>p. alive p w' \<longrightarrow> ep_child e' = Some p \<or> (alive p w \<and> ep_child e \<noteq> Some p))"

lemma owns_step_refl: "ep_child e' = ep_child e \<Longrightarrow> owns_step alive e w e' w"
  by (auto simp: owns_step_def)

lemma owns_step_trans:
  "owns_step alive e w e' w' \<Longrightarrow> owns_step alive e' w' e'' w'' \<Longrightarrow> owns_step alive e w e'' w''"
  unfolding owns_step_def by blast

lemma reap_owns:
  assumes "os_sound os alive" and "reap os now e w = (e', w')"
  shows "owns_step alive e w e' w'"
proof (cases "ep_child e")
  case None
  with assms(2) show ?thesis by (simp add: reap_def owns_step_refl)
next
  case (Some pid)
  obtain x w1 where x: "os_try_wait os pid w = (x, w1)" by (cases "os_try_wait os pid w")
  note d = os_soundD(1) [OF assms(1) x]
  have w: "w' = w1" using assms(2) Some x by (cases x) (simp_all add: reap_def)
  show ?thesis
  proof (cases x)
    case (WaitExited c)
    then have "\<not> alive pid w1" using os_soundD(2) [OF assms(1)] x by blast
    with d w Some show ?thesis unfolding owns_step_def by (metis option.inject)
  next
    case WaitRunning
    with assms(2) Some x have "ep_child e' = Some pid" by (simp add: reap_def)
    with d w Some show ?thesis unfolding owns_step_def by auto
  next
    case (WaitError m)
    with assms(2) Some x have "ep_child e' = Some pid" by (auto simp: reap_def)
    with d w Some show ?thesis unfolding owns_step_def by auto
  qed
qed

lemma maybe_restart_world:
  assumes "maybe_restart os now e w = (e', w')"
  shows "ep_child e' = ep_child e \<and> w' = w \<or>
    (\<exists>s. ep_child e = None \<and> os_spawn os (ep_command e) w = (s, w') \<and> (\<forall>pid. s = Inr pid \<longrightarrow> ep_child e' = Some pid))"
proof (cases "ep_restart_enabled e \<and>
    restart_decision (ep_child e \<noteq> None) (ep_error e \<noteq> None) (Option.bind (ep_last_exit_at e) (elapsed now)) (ep_restarts e) = Attempt")
  case True
  then have c: "ep_child e = None" by (auto simp: restart_decision_def split: if_splits option.splits)
  obtain s w1 where s: "os_spawn os (ep_command e) w = (s, w1)" by (cases "os_spawn os (ep_command e) w")
  from True assms s c show ?thesis by (cases s) (auto simp: maybe_restart_def Let_def)
next
  case False
  have "ep_child e' = ep_child e \<and> w' = w"
    using assms False
    by (cases "restart_decision (ep_child e \<noteq> None) (ep_error e \<noteq> None) (Option.bind (ep_last_exit_at e) (elapsed now)) (ep_restarts e)")
      (auto simp: maybe_restart_def Let_def split: if_splits)
  then show ?thesis ..
qed

lemma refresh_owns:
  assumes "os_sound os alive" and "refresh os now e w = (e', w')"
  shows "owns_step alive e w e' w'"
proof -
  obtain e1 w1 where r: "reap os now e w = (e1, w1)" and m: "maybe_restart os now e1 w1 = (e', w')"
    using assms(2) by (auto simp: refresh_def split: prod.splits)
  have "owns_step alive e1 w1 e' w'"
    using maybe_restart_world [OF m] os_soundD(4) [OF assms(1)] unfolding owns_step_def by fastforce
  with reap_owns [OF assms(1) r] show ?thesis by (rule owns_step_trans)
qed

lemma stop_owned_owns:
  assumes "os_sound os alive" and "stop_owned os e w = (r, e', w')"
  shows "owns_step alive e w e' w'" and "r = None \<Longrightarrow> ep_child e' = None" and "ep_id e' = ep_id e"
proof -
  show "r = None \<Longrightarrow> ep_child e' = None" "ep_id e' = ep_id e"
    using assms(2) by (auto simp: stop_owned_def Let_def split: option.splits prod.splits)
  show "owns_step alive e w e' w'"
  proof (cases "ep_child e")
    case None
    with assms(2) show ?thesis by (auto simp: stop_owned_def owns_step_def)
  next
    case (Some pid)
    obtain t w1 where t: "confirm_termination os pid (secs 1) w = (t, w1)" by (cases "confirm_termination os pid (secs 1) w")
    note s = confirm_termination_sound [OF assms(1) t]
    have "w' = w1" "t \<noteq> None \<Longrightarrow> ep_child e' = Some pid"
      using assms(2) Some t by (auto simp: stop_owned_def Let_def split: option.splits)
    with s Some show ?thesis unfolding owns_step_def by (cases t) auto
  qed
qed

section \<open>The tracked endpoints\<close>

definition children :: "endpoints \<Rightarrow> u32 set" where
  "children m = {p. \<exists>k e. (k, e) \<in> set m \<and> ep_child e = Some p}"

definition tracked_wf :: "endpoints \<Rightarrow> bool" where
  "tracked_wf m = (hm_wf m \<and> (\<forall>(k, e) \<in> set m. ep_id e = k))"

text \<open>The map moved: its form is kept, and whatever runs now is tracked, or ran before untracked.\<close>

definition map_step :: "(u32 \<Rightarrow> 'w \<Rightarrow> bool) \<Rightarrow> endpoints \<Rightarrow> 'w \<Rightarrow> endpoints \<Rightarrow> 'w \<Rightarrow> bool" where
  "map_step alive m w m' w' =
     ((\<forall>p. alive p w' \<longrightarrow> p \<in> children m' \<or> (alive p w \<and> p \<notin> children m)) \<and> (tracked_wf m \<longrightarrow> tracked_wf m'))"

lemma map_step_refl [simp]: "map_step alive m w m w"
  by (auto simp: map_step_def)

lemma map_step_trans [trans]:
  "map_step alive m w m' w' \<Longrightarrow> map_step alive m' w' m'' w'' \<Longrightarrow> map_step alive m w m'' w''"
  unfolding map_step_def by blast

lemma children_simps [simp]:
  "children [] = {}"
  "children ((k, e) # m) = (case ep_child e of None \<Rightarrow> children m | Some p \<Rightarrow> insert p (children m))"
  by (auto simp: children_def split: option.splits)

text \<open>The same keys in the same places, each endpoint related to its former self.\<close>

definition same_entries :: "(Endpoint \<Rightarrow> Endpoint \<Rightarrow> bool) \<Rightarrow> endpoints \<Rightarrow> endpoints \<Rightarrow> bool" where
  "same_entries Q m m' = list_all2 (\<lambda>x y. fst x = fst y \<and> Q (snd x) (snd y)) m m'"

lemma same_entries_Cons [simp]:
  "same_entries Q ((k, e) # m) ((k', e') # m') \<longleftrightarrow> k = k' \<and> Q e e' \<and> same_entries Q m m'"
  by (simp add: same_entries_def)

lemma same_entries_refl: "(\<And>e. Q e e) \<Longrightarrow> same_entries Q m m"
  by (simp add: same_entries_def list_all2_same)

lemma same_entries_keys: "same_entries Q m m' \<Longrightarrow> map fst m = map fst m'"
  unfolding same_entries_def by (induction rule: list_all2_induct) auto

lemma same_entries_get:
  "same_entries Q m m' \<Longrightarrow> rel_option Q (hm_get m k) (hm_get m' k)"
  unfolding same_entries_def by (induction rule: list_all2_induct) (auto simp: hm_get_def)

lemma same_entries_wf:
  assumes "same_entries Q m m'" and "\<And>e e'. Q e e' \<Longrightarrow> ep_id e' = ep_id e" and "tracked_wf m"
  shows "tracked_wf m'"
proof -
  have "\<forall>(k, e) \<in> set m'. ep_id e = k"
    using assms(1,3) unfolding same_entries_def tracked_wf_def hm_wf_def
  proof (induction rule: list_all2_induct)
    case (Cons x xs y ys)
    then show ?case using assms(2) [of "snd x" "snd y"] by (cases x; cases y) auto
  qed simp
  with assms(3) same_entries_keys [OF assms(1)] show ?thesis by (simp add: tracked_wf_def hm_wf_def)
qed

lemma visit_entries:
  assumes "visit f m w = (as, m', w')" and "\<And>e w a e' w'. f e w = (a, e', w') \<Longrightarrow> Q e e'"
  shows "same_entries Q m m'"
  using assms(1)
proof (induction m arbitrary: w as m' w')
  case Nil
  then show ?case by (simp add: same_entries_def)
next
  case (Cons x m)
  then show ?case using assms(2) by (cases x) (fastforce split: prod.splits)
qed

lemma visit_find_entries:
  assumes "visit_find f m w = (r, m', w')" and "\<And>e w a e' w'. f e w = (a, e', w') \<Longrightarrow> Q e e'" and "\<And>e. Q e e"
  shows "same_entries Q m m'"
  using assms(1)
proof (induction m arbitrary: w r m' w')
  case Nil
  then show ?case by (simp add: same_entries_def)
next
  case (Cons x m)
  then show ?case using assms(2) same_entries_refl [of Q, OF assms(3)]
    by (cases x) (fastforce split: prod.splits option.splits)
qed

lemma map_step_Cons:
  assumes "owns_step alive e w e' w1" and "map_step alive m w1 m' w2" and "ep_id e' = ep_id e"
    and "map fst m' = map fst m"
  shows "map_step alive ((k, e) # m) w ((k, e') # m') w2"
proof -
  have "p \<in> children ((k, e') # m') \<or> alive p w \<and> p \<notin> children ((k, e) # m)" if "alive p w2" for p
    using assms(1,2) that unfolding owns_step_def map_step_def by (cases "ep_child e"; cases "ep_child e'") auto
  moreover have "tracked_wf ((k, e) # m) \<longrightarrow> tracked_wf ((k, e') # m')"
  proof
    assume t: "tracked_wf ((k, e) # m)"
    then have "tracked_wf m'" using assms(2) by (simp add: tracked_wf_def map_step_def hm_wf_def)
    with t assms(3,4) show "tracked_wf ((k, e') # m')"
      by (simp add: tracked_wf_def hm_wf_def)
  qed
  ultimately show ?thesis unfolding map_step_def by blast
qed

text \<open>A walk over the endpoints whose visits only do what \<open>refresh\<close> and \<open>stop_owned\<close> do.\<close>

definition good_visit :: "(u32 \<Rightarrow> 'w \<Rightarrow> bool) \<Rightarrow> (Endpoint \<Rightarrow> 'w \<Rightarrow> 'a \<times> Endpoint \<times> 'w) \<Rightarrow> bool" where
  "good_visit alive f = (\<forall>e w a e' w'. f e w = (a, e', w') \<longrightarrow> owns_step alive e w e' w' \<and> ep_id e' = ep_id e)"

lemma visit_step:
  assumes "good_visit alive f" and "visit f m w = (as, m', w')"
  shows "map_step alive m w m' w'"
  using assms(2)
proof (induction m arbitrary: w as m' w')
  case (Cons x m)
  obtain k e where x: "x = (k, e)" by (cases x)
  obtain a e' w1 where f: "f e w = (a, e', w1)" by (cases "f e w") auto
  obtain bs m1 w2 where v: "visit f m w1 = (bs, m1, w2)" by (cases "visit f m w1") auto
  have "m' = (k, e') # m1" "w' = w2" using Cons.prems x f v by auto
  moreover have "map fst m1 = map fst m" using same_entries_keys [OF visit_entries [OF v, of "\<lambda>_ _. True"]] by simp
  moreover have "owns_step alive e w e' w1 \<and> ep_id e' = ep_id e" using assms(1) f unfolding good_visit_def by blast
  ultimately show ?case using Cons.IH [OF v] x by (auto intro: map_step_Cons)
qed simp

lemma visit_find_step:
  assumes "good_visit alive f" and "visit_find f m w = (r, m', w')"
  shows "map_step alive m w m' w'"
  using assms(2)
proof (induction m arbitrary: w r m' w')
  case (Cons x m)
  obtain k e where x: "x = (k, e)" by (cases x)
  obtain a e' w1 where f: "f e w = (a, e', w1)" by (cases "f e w") auto
  note g = assms(1) [unfolded good_visit_def, rule_format, OF f]
  show ?case
  proof (cases a)
    case None
    obtain r1 m1 w2 where v: "visit_find f m w1 = (r1, m1, w2)" by (cases "visit_find f m w1") auto
    have "m' = (k, e') # m1" "w' = w2" using Cons.prems x f v None by auto
    moreover have "map fst m1 = map fst m"
      using same_entries_keys [OF visit_find_entries [OF v, of "\<lambda>_ _. True"]] by simp
    ultimately show ?thesis using g Cons.IH [OF v] x by (auto intro: map_step_Cons)
  next
    case (Some y)
    then have "m' = (k, e') # m" "w' = w1" using Cons.prems x f by auto
    then show ?thesis using g x by (auto intro: map_step_Cons)
  qed
qed simp

lemma insert_step:
  assumes "hm_get m k = Some e" and "owns_step alive e w e' w'" and "ep_id e' = ep_id e"
  shows "map_step alive m w (hm_insert k e' m) w'"
  using assms(1)
proof (induction m)
  case (Cons x m)
  obtain k0 e0 where x: "x = (k0, e0)" by (cases x)
  show ?case
  proof (cases "k = k0")
    case True
    with Cons.prems x have "e0 = e" by (simp add: hm_get_def)
    with True x show ?thesis using assms(2,3) by (auto intro: map_step_Cons)
  next
    case False
    with Cons x have "map_step alive m w (hm_insert k e' m) w'" by (simp add: hm_get_def)
    moreover have "map fst (hm_insert k e' m) = map fst m"
    proof -
      have "hm_get m k \<noteq> None" using Cons.prems False x by (simp add: hm_get_def)
      then show ?thesis by (induction m) (auto simp: hm_get_def)
    qed
    ultimately show ?thesis using False x
      by (auto simp: map_step_def tracked_wf_def hm_wf_def split: option.splits)
  qed
qed (simp add: hm_get_def)

lemma looking_good: "os_sound os alive \<Longrightarrow> good_visit alive (looking os now g)"
  unfolding good_visit_def looking_def by (auto split: prod.splits dest: refresh_owns refresh_fields(1))

lemma good_visit_if: "good_visit alive f \<Longrightarrow> good_visit alive (\<lambda>e w. if P e then f e w else (c, e, w))"
  by (simp add: good_visit_def owns_step_refl)

lemma hm_update_get: "hm_get (hm_update f k m) k' = (if k' = k then map_option f (hm_get m k') else hm_get m k')"
  by (induction m) (auto simp: hm_update_def hm_get_def)

lemma update_step:
  assumes "\<And>e. ep_child (f e) = ep_child e" and "\<And>e. ep_id (f e) = ep_id e"
  shows "map_step alive m w (hm_update f k m) w"
proof (induction m)
  case (Cons x m)
  obtain k0 e where x: "x = (k0, e)" by (cases x)
  have "map fst (hm_update f k m) = map fst m" by (auto simp: hm_update_def)
  moreover have "owns_step alive e w (if k0 = k then f e else e) w" using assms(1) by (simp add: owns_step_refl)
  ultimately have "map_step alive ((k0, e) # m) w ((k0, if k0 = k then f e else e) # hm_update f k m) w"
    using Cons assms(2) by (intro map_step_Cons) auto
  then show ?case by (simp add: x hm_update_def)
qed (simp add: hm_update_def)

lemma updates_step:
  assumes "\<And>e. ep_child (f e) = ep_child e" and "\<And>e. ep_id (f e) = ep_id e"
  shows "map_step alive m w (foldl (\<lambda>m i. hm_update f i m) m ks) w"
proof (induction ks arbitrary: m)
  case (Cons k ks)
  have "map_step alive m w (hm_update f k m) w" by (rule update_step) (rule assms)+
  with Cons [of "hm_update f k m"] show ?case by (simp add: map_step_trans)
qed simp

lemma remove_step:
  assumes "tracked_wf m" and "\<And>e. hm_get m k = Some e \<Longrightarrow> ep_child e = None"
  shows "map_step alive m w (hm_remove k m) w"
proof -
  have "p \<in> children (hm_remove k m)" if "p \<in> children m" for p
  proof -
    obtain k' e where e: "(k', e) \<in> set m" "ep_child e = Some p" using \<open>p \<in> children m\<close> unfolding children_def by blast
    then have "hm_get m k' = Some e" using assms(1) by (simp add: tracked_wf_def hm_in_set_get)
    with assms(2) e(2) have "k' \<noteq> k" by force
    with e show ?thesis unfolding children_def hm_remove_def by auto
  qed
  moreover have "tracked_wf (hm_remove k m)"
    using assms(1) by (auto simp: tracked_wf_def hm_wf_def hm_remove_def distinct_map_filter)
  ultimately show ?thesis by (auto simp: map_step_def)
qed

lemma insert_fresh_step:
  assumes "\<And>e0 p. hm_get m k = Some e0 \<Longrightarrow> ep_child e0 = Some p \<Longrightarrow> \<not> alive p w'" and "ep_id e = k"
    and "\<And>p. alive p w' \<Longrightarrow> ep_child e = Some p \<or> alive p w" and "tracked_wf m"
  shows "map_step alive m w (hm_insert k e m) w'"
proof (cases "hm_get m k")
  case None
  then have ins: "hm_insert k e m = m @ [(k, e)]" by (induction m) (auto simp: hm_get_def split: if_splits)
  have "k \<notin> fst ` set m" using None by (simp add: hm_get_def map_of_eq_None_iff)
  then show ?thesis using assms(2,3) unfolding map_step_def ins
    by (auto simp: children_def tracked_wf_def hm_wf_def)
next
  case (Some e0)
  have "ep_id e0 = k" using hm_get_in_set [OF Some] assms(4) by (auto simp: tracked_wf_def)
  moreover have "owns_step alive e0 w e w'" using assms(1,3) Some unfolding owns_step_def by blast
  ultimately show ?thesis using assms(2) by (intro insert_step [OF Some]) simp_all
qed

section \<open>The operations, one by one\<close>

lemma store_commit_keeps:
  assumes "store_commit cd io change sv = (r, sv1)"
  shows "sv_endpoints sv1 = sv_endpoints sv" and "sv_leases sv1 = sv_leases sv" and "sv_shutting_down sv1 = sv_shutting_down sv"
  using assms by (auto simp: store_commit_def split: option.splits prod.splits)

lemma commit_intent_keeps:
  assumes "commit_intent cd io rm ad sv = (r, sv1)"
  shows "sv_endpoints sv1 = sv_endpoints sv" and "sv_leases sv1 = sv_leases sv"
  using store_commit_keeps [OF assms [unfolded commit_intent_def]] by simp_all

lemma persist_leases_keeps:
  assumes "persist_leases cd io ls sv = (r, sv1)"
  shows "sv_endpoints sv1 = sv_endpoints sv" and "sv_leases sv1 = sv_leases sv"
  using assms store_commit_keeps by (fastforce simp: persist_leases_def split: if_splits option.splits)+

lemma swap_leases_keeps:
  assumes "swap_leases cd io ls sv = (r, sv1)"
  shows "sv_endpoints sv1 = sv_endpoints sv"
  using assms persist_leases_keeps(1) by (fastforce simp: swap_leases_def split: prod.splits option.splits)

lemma expire_leases_keeps: "sv_endpoints (snd (expire_leases cd io epoch now sv)) = sv_endpoints sv"
  using swap_leases_keeps [of cd io "hm_retain (\<lambda>_ l. \<not> lease_expired epoch now l) (sv_leases sv)" sv]
  by (cases "swap_leases cd io (hm_retain (\<lambda>_ l. \<not> lease_expired epoch now l) (sv_leases sv)) sv")
    (simp add: expire_leases_def Let_def)

lemma stop_victims_step:
  assumes "os_sound os alive" and "stop_victims os vs m w = (r, m', w')" and "tracked_wf m"
  shows "map_step alive m w m' w'"
  using assms(2,3)
proof (induction vs arbitrary: m w)
  case (Cons v vs)
  show ?case
  proof (cases "hm_get m v")
    case None
    then have "map_step alive m w (hm_remove v m) w" using Cons.prems(2) by (intro remove_step) simp_all
    moreover have "map_step alive (hm_remove v m) w m' w'"
      using Cons.IH [of "hm_remove v m" w] Cons.prems None calculation by (simp add: map_step_def)
    ultimately show ?thesis by (rule map_step_trans)
  next
    case (Some e)
    obtain x e' w1 where s: "stop_owned os e w = (x, e', w1)" by (cases "stop_owned os e w")
    note so = stop_owned_owns [OF assms(1) s]
    have ins: "map_step alive m w (hm_insert v e' m) w1" by (rule insert_step [OF Some so(1,3)])
    show ?thesis
    proof (cases x)
      case None
      have wf: "tracked_wf (hm_insert v e' m)" using ins Cons.prems(2) by (simp add: map_step_def)
      have rm: "map_step alive (hm_insert v e' m) w1 (hm_remove v (hm_insert v e' m)) w1"
        using so(2) [OF None] by (intro remove_step [OF wf]) (simp add: hm_get_def hm_insert_get)
      then have "tracked_wf (hm_remove v (hm_insert v e' m))" using wf by (simp add: map_step_def)
      with Cons.IH [of "hm_remove v (hm_insert v e' m)" w1] Cons.prems(1) Some s None
      have "map_step alive (hm_remove v (hm_insert v e' m)) w1 m' w'" by simp
      with ins rm show ?thesis by (blast intro: map_step_trans)
    next
      case (Some err)
      with Cons.prems(1) \<open>hm_get m v = Some e\<close> s ins show ?thesis by simp
    qed
  qed
qed simp

lemma reap_tenant_step:
  assumes "os_sound os alive" and "reap_tenant os now i m w = (b, m', w')"
  shows "map_step alive m w m' w'"
proof (cases "hm_get m i")
  case None
  with assms(2) show ?thesis by (simp add: reap_tenant_def)
next
  case (Some e)
  obtain e' w1 where r: "refresh os now e w = (e', w1)" by (cases "refresh os now e w")
  from insert_step [OF Some refresh_owns [OF assms(1) r] refresh_fields(1) [OF r]] assms(2) Some r
  show ?thesis by (simp add: reap_tenant_def)
qed

lemma port_holder_step:
  assumes "os_sound os alive" and "port_holder os now i port m w = (b, m', w')"
  shows "map_step alive m w m' w'"
proof (rule visit_find_step [OF _ assms(2) [unfolded port_holder_def]])
  show "good_visit alive (\<lambda>e w. if ep_id e \<noteq> i \<and> ep_port e = port
      then looking os now (\<lambda>e. if process_running e then Some (ep_id e) else None) e w else (None, e, w))"
    by (intro good_visit_if looking_good assms)
qed

lemma leased_vram_step:
  assumes "os_sound os alive" and "leased_vram os now protected m w = (h, m', w')"
  shows "map_step alive m w m' w'"
proof -
  let ?f = "\<lambda>e w. if ep_id e \<in> set protected
      then looking os now (\<lambda>e. if process_running e then ep_vram_bytes e else 0) e w else (0, e, w)"
  obtain vs where "visit ?f m w = (vs, m', w')"
    using assms(2) by (auto simp: leased_vram_def split: prod.splits)
  moreover have "good_visit alive ?f"
    by (intro good_visit_if looking_good assms)
  ultimately show ?thesis by (rule visit_step [rotated])
qed

text \<open>The three outcomes of residency: skipped, decided after one walk, or refused after two.\<close>

lemma residency_cases:
  assumes "residency os now i leases req m w = (r, m', w')"
  obtains (skipped) "r = Inr []" "m' = m" "w' = w"
  | (decided) rs ids where "visit (looking os now (resident i)) m w = (rs, m', w')"
      "r = Inr ids \<or> r = Inl (EvictionRequired ids)"
      "ids = [] \<or> admit (rq_vram_budget req) (rq_vram_need req)
         (exclude_leased_residents (map (le_endpoint_id \<circ> snd) leases) (List.map_filter id rs)) = Evict ids"
      "0 < rq_vram_budget req \<and> 0 < rq_vram_need req"
  | (refused) rs m1 w1 held err where "visit (looking os now (resident i)) m w = (rs, m1, w1)"
      "leased_vram os now (map (le_endpoint_id \<circ> snd) leases) m1 w1 = (held, m', w')" "r = Inl err"
proof (cases "0 < rq_vram_budget req \<and> 0 < rq_vram_need req")
  case False
  with assms have "r = Inr [] \<and> m' = m \<and> w' = w" by (auto simp: residency_def)
  with skipped show ?thesis by blast
next
  case True
  obtain rs m1 w1 where v: "visit (looking os now (resident i)) m w = (rs, m1, w1)"
    by (cases "visit (looking os now (resident i)) m w") auto
  let ?p = "map (le_endpoint_id \<circ> snd) leases"
  show ?thesis
  proof (cases "admit (rq_vram_budget req) (rq_vram_need req) (exclude_leased_residents ?p (List.map_filter id rs))")
    case Admit
    with assms True v have "r = Inr []" "m' = m1" "w' = w1" by (auto simp: residency_def Let_def)
    with decided [of rs "[]"] v True show ?thesis by simp
  next
    case (Evict ids)
    with assms True v have "m' = m1" "w' = w1" "r = Inr ids \<or> r = Inl (EvictionRequired ids)"
      by (auto simp: residency_def Let_def split: if_splits)
    with decided [of rs ids] v Evict True show ?thesis by simp
  next
    case Refuse
    obtain h m2 w2 where l: "leased_vram os now ?p m1 w1 = (h, m2, w2)" by (cases "leased_vram os now ?p m1 w1") auto
    with assms True v Refuse have "m' = m2 \<and> w' = w2 \<and> (\<exists>err. r = Inl err)" by (auto simp: residency_def Let_def)
    with refused v l show ?thesis by blast
  qed
qed

lemma residency_step:
  assumes "os_sound os alive" and "residency os now i leases req m w = (r, m', w')"
  shows "map_step alive m w m' w'"
  using assms(2)
proof (cases rule: residency_cases)
  case (refused rs m1 w1 held err)
  from visit_step [OF looking_good [OF assms(1)] refused(1)] leased_vram_step [OF assms(1) refused(2)]
  show ?thesis by (rule map_step_trans)
qed (auto intro: visit_step [OF looking_good [OF assms(1)]])

lemma evict_victims_step:
  assumes "os_sound os alive" and "evict_victims os cd io ids sv w = (r, sv', w')" and "tracked_wf (sv_endpoints sv)"
  shows "map_step alive (sv_endpoints sv) w (sv_endpoints sv') w'"
proof -
  obtain c sv1 where c: "(if ids = [] then (None, sv) else commit_intent cd io ids None sv) = (c, sv1)"
    by (cases "if ids = [] then (None, sv) else commit_intent cd io ids None sv")
  then have e1: "sv_endpoints sv1 = sv_endpoints sv" by (auto split: if_splits dest: commit_intent_keeps)
  let ?m = "foldl (\<lambda>m i. hm_update mark_evicted i m) (sv_endpoints sv) ids"
  have mk: "map_step alive (sv_endpoints sv) w ?m w" by (rule updates_step) (simp_all add: mark_evicted_def)
  show ?thesis
  proof (cases c)
    case None
    obtain x m w1 where s: "stop_victims os ids ?m w = (x, m, w1)" by (cases "stop_victims os ids ?m w") auto
    have "tracked_wf ?m" using mk assms(3) by (simp add: map_step_def)
    from stop_victims_step [OF assms(1) s this] mk have "map_step alive (sv_endpoints sv) w m w1" by (blast intro: map_step_trans)
    with assms(2) c None e1 s show ?thesis by (auto simp: evict_victims_def)
  next
    case (Some e)
    with assms(2) c e1 show ?thesis by (auto simp: evict_victims_def)
  qed
qed

lemma launch_step:
  assumes "os_sound os alive" and "launch os cd io now i req sv w = (r, sv', w')" and "tracked_wf (sv_endpoints sv)"
    and "\<And>e p w. hm_get (sv_endpoints sv) i = Some e \<Longrightarrow> ep_child e = Some p \<Longrightarrow> \<not> alive p w"
  shows "map_step alive (sv_endpoints sv) w (sv_endpoints sv') w'"
proof -
  obtain c sv1 where c: "commit_intent cd io [] (Some (i, rq_intent req)) sv = (c, sv1)"
    by (cases "commit_intent cd io [] (Some (i, rq_intent req)) sv")
  obtain sp w1 where sp: "os_spawn os (rq_command req) w = (sp, w1)" by (cases "os_spawn os (rq_command req) w")
  let ?n = "new_endpoint now i req sp"
  obtain e w2 where rf: "refresh os now ?n w1 = (e, w2)" by (cases "refresh os now ?n w1")
  have "ep_child e = Some p \<or> alive p w" if "alive p w2" for p
  proof -
    have "ep_child e = Some p \<or> (alive p w1 \<and> ep_child ?n \<noteq> Some p)"
      using refresh_owns [OF assms(1) rf] \<open>alive p w2\<close> by (simp add: owns_step_def)
    moreover have "alive p w1 \<Longrightarrow> alive p w \<or> ep_child ?n = Some p"
      using os_soundD(4) [OF assms(1) sp, of p] by (cases sp) (auto simp: new_endpoint_def)
    ultimately show ?thesis by blast
  qed
  moreover have "ep_id e = i" using refresh_fields(1) [OF rf] by (simp add: new_endpoint_def)
  ultimately have "map_step alive (sv_endpoints sv) w (hm_insert i e (sv_endpoints sv)) w2"
    using assms(3,4) by (intro insert_fresh_step) auto
  with assms(2) c sp rf commit_intent_keeps(1) [OF c] show ?thesis
    by (cases c) (auto simp: launch_def endpoint_view_def)
qed

subsection \<open>The former tenant of an id\<close>

text \<open>The back-off of a crashed endpoint, which the first look (at \<open>t0\<close>) leaves down, runs out by \<open>t2\<close>.\<close>

definition backoff_ends :: "'w Os \<Rightarrow> time \<Rightarrow> time \<Rightarrow> Endpoint \<Rightarrow> 'w \<Rightarrow> bool" where
  "backoff_ends os t0 t2 e w =
     (case reap os t0 e w of (e1, _) \<Rightarrow>
        ep_child e1 = None \<and> ep_error e1 = None \<and> ep_restart_enabled e1 \<and> ep_restarts e1 < MAX_RESTARTS \<and>
        (case ep_last_exit_at e1 of None \<Rightarrow> False | Some x \<Rightarrow> t0 < x + RESTART_BACKOFF \<and> x + RESTART_BACKOFF \<le> t2))"

text \<open>The start \<open>req\<close> replaces such an endpoint and walks over the residents.\<close>

definition backoff_expires :: "'w Os \<Rightarrow> (nat \<Rightarrow> time) \<Rightarrow> 'v StartRequest \<Rightarrow> 'v Supervisor \<Rightarrow> 'w \<Rightarrow> bool" where
  "backoff_expires os now req sv w =
     (0 < rq_vram_budget req \<and> 0 < rq_vram_need req \<and>
      (case hm_get (sv_endpoints sv) (endpoint_id (rq_model req) (rq_port req)) of
         None \<Rightarrow> False
       | Some e \<Rightarrow> backoff_ends os (now 0) (now 2) e w))"

lemma restarted_when_due:
  assumes "maybe_restart os t e w = (e', w')" and "ep_child e = None" and "ep_child e' \<noteq> None"
  shows "ep_restart_enabled e \<and> ep_error e = None \<and> ep_restarts e < MAX_RESTARTS \<and>
    (\<exists>x. ep_last_exit_at e = Some x \<and> x + RESTART_BACKOFF \<le> t)"
proof -
  have "ep_restart_enabled e" using assms by (cases "ep_restart_enabled e") (simp_all add: maybe_restart_def)
  moreover have "restart_decision (ep_child e \<noteq> None) (ep_error e \<noteq> None) (Option.bind (ep_last_exit_at e) (elapsed t)) (ep_restarts e) = Attempt"
    using assms by (auto simp: maybe_restart_def Let_def split: if_splits Restart.splits)
  ultimately show ?thesis
    by (auto simp: restart_decision_def elapsed_def not_le split: if_splits option.splits bind_splits)
qed

lemma not_due_keeps:
  assumes "maybe_restart os t e w = (e', w')" and "ep_child e = None" and "ep_child e' = None" and "ep_error e' = None"
  shows "e' = e"
    and "ep_restart_enabled e \<Longrightarrow> ep_restarts e < MAX_RESTARTS \<Longrightarrow> ep_last_exit_at e = Some x \<Longrightarrow> t < x + RESTART_BACKOFF"
proof -
  show "e' = e" using assms
    by (auto simp: maybe_restart_def Let_def split: if_splits Restart.splits prod.splits sum.splits)
  show "ep_restart_enabled e \<Longrightarrow> ep_restarts e < MAX_RESTARTS \<Longrightarrow> ep_last_exit_at e = Some x \<Longrightarrow> t < x + RESTART_BACKOFF"
    using assms by (auto simp: maybe_restart_def restart_decision_def elapsed_def Let_def split: if_splits prod.splits sum.splits)
qed

lemma restarted_between:
  assumes "refresh os t0 e w = (e1, w1)" and "ep_child e1 = None" and "refresh os t2 e1 w2 = (e2, w3)" and "ep_child e2 \<noteq> None"
  shows "backoff_ends os t0 t2 e w"
proof -
  obtain e0 w0 where r: "reap os t0 e w = (e0, w0)" and m: "maybe_restart os t0 e0 w0 = (e1, w1)"
    using assms(1) by (auto simp: refresh_def split: prod.splits)
  have e0: "ep_child e0 = None" using maybe_restart_world [OF m] assms(2) by auto
  have "maybe_restart os t2 e1 w2 = (e2, w3)" using assms(2,3) by (simp add: refresh_def reap_def)
  from restarted_when_due [OF this assms(2,4)] not_due_keeps [OF m e0 assms(2)] e0 r
  show ?thesis by (auto simp: backoff_ends_def)
qed

text \<open>After the residency walk the id of a start has a running tenant only if the back-off ran out.\<close>

lemma tenant_idle:
  assumes "reap_tenant os (now 0) i (sv_endpoints sv) w = (False, m1, w1)" and "hm_get m2 i = hm_get m1 i"
    and "residency os (now 2) i (sv_leases sv) req m2 w2 = (Inr ids, m3, w3)" and "hm_get m3 i = Some e"
    and "i = endpoint_id (rq_model req) (rq_port req)" and "\<not> backoff_expires os now req sv w"
  shows "ep_child e = None"
proof -
  have tenant: "\<exists>e0 w'. hm_get (sv_endpoints sv) i = Some e0 \<and> refresh os (now 0) e0 w = (e1, w') \<and> ep_child e1 = None"
    if "hm_get m2 i = Some e1" for e1
    using that assms(1,2)
    by (auto simp: reap_tenant_def process_running_def hm_get_def hm_insert_get split: option.splits prod.splits)
  from assms(3) show ?thesis
  proof (cases rule: residency_cases)
    case skipped
    with tenant assms(4) show ?thesis by auto
  next
    case (decided rs ids')
    have "same_entries (\<lambda>e e'. \<exists>w w'. refresh os (now 2) e w = (e', w')) m2 m3"
      using decided(1) by (rule visit_entries) (auto simp: looking_def split: prod.splits)
    from same_entries_get [OF this, of i] assms(4) obtain e1 w4 w5
      where e1: "hm_get m2 i = Some e1" "refresh os (now 2) e1 w4 = (e, w5)" by (auto simp: option_rel_Some2)
    from tenant [OF e1(1)] obtain e0 w' where e0: "hm_get (sv_endpoints sv) i = Some e0"
      "refresh os (now 0) e0 w = (e1, w')" "ep_child e1 = None" by blast
    with assms(5,6) decided(4) have "\<not> backoff_ends os (now 0) (now 2) e0 w" by (simp add: backoff_expires_def)
    with restarted_between [OF e0(2,3) e1(2)] show ?thesis by blast
  qed simp
qed

lemma port_holder_keeps:
  assumes "port_holder os t i port m w = (r, m', w')" and "tracked_wf m"
  shows "hm_get m' i = hm_get m i"
proof -
  have "same_entries (\<lambda>e e'. ep_id e = i \<longrightarrow> e' = e) m m'"
    using assms(1) unfolding port_holder_def by (rule visit_find_entries) (auto split: if_splits)
  from same_entries_get [OF this, of i] show ?thesis
  proof (cases rule: option.rel_cases)
    case (Some e e')
    have "ep_id e = i" using hm_get_in_set [OF Some(1)] assms(2) by (auto simp: tracked_wf_def)
    with Some show ?thesis by simp
  qed simp
qed

subsection \<open>Victims\<close>

lemma evict_loop_ids: "evict_loop b n r ev rs = Evict ids \<Longrightarrow> set ids \<subseteq> set ev \<union> rv_id ` set rs"
proof (induction rs arbitrary: r ev)
  case (Cons x rs)
  then show ?case by (fastforce simp: Let_def split: if_splits)
qed simp

lemma admit_ids: "admit b n rs = Evict ids \<Longrightarrow> set ids \<subseteq> rv_id ` set rs"
  using evict_loop_ids [of b n _ "[]" "sort_key rv_last_used rs" ids]
  by (auto simp: admit_def Let_def split: if_splits)

lemma visit_results:
  "visit f m w = (as, m', w') \<Longrightarrow> a \<in> set as \<Longrightarrow> \<exists>e w e' w'. f e w = (a, e', w')"
proof (induction m arbitrary: w as m' w')
  case (Cons x m)
  then show ?case by (cases x) (auto split: prod.splits; blast)
qed simp

text \<open>Neither the new id nor a leased endpoint is ever a victim.\<close>

lemma residency_victims:
  assumes "residency os now i leases req m w = (Inr ids, m', w')" and "v \<in> set ids"
  shows "v \<noteq> i \<and> v \<notin> (le_endpoint_id \<circ> snd) ` set leases"
  using assms(1)
proof (cases rule: residency_cases)
  case (decided rs ids')
  then have ids: "ids' = ids" by simp
  then have "set ids \<subseteq> rv_id ` set (exclude_leased_residents (map (le_endpoint_id \<circ> snd) leases) (List.map_filter id rs))"
    using decided(3) assms(2) admit_ids by fastforce
  then obtain r where r: "v = rv_id r" "r \<in> set (exclude_leased_residents (map (le_endpoint_id \<circ> snd) leases) (List.map_filter id rs))"
    using assms(2) by blast
  then have "Some r \<in> set rs" by (auto simp: exclude_leased_residents_def List.map_filter_def)
  then obtain e w1 e' w2 where "looking os now (resident i) e w1 = (Some r, e', w2)" using visit_results [OF decided(1)] by blast
  then have "rv_id r \<noteq> i" by (auto simp: looking_def resident_def split: prod.splits if_splits)
  with r exclude_leased_mem [OF r(2)] show ?thesis by auto
qed (use assms(2) in auto)

lemma stop_victims_others: "stop_victims os vs m w = (r, m', w') \<Longrightarrow> k \<notin> set vs \<Longrightarrow> hm_get m' k = hm_get m k"
proof (induction os vs m w rule: stop_victims.induct)
  case (2 os v vs m w)
  have "hm_get (hm_remove v x) k = hm_get x k" "hm_get (hm_insert v e x) k = hm_get x k" for e x
    using "2.prems"(2) by (simp_all add: map_laws)
  with 2 show ?case by (auto split: option.splits prod.splits)
qed simp

lemma updates_others: "k \<notin> set ks \<Longrightarrow> hm_get (foldl (\<lambda>m i. hm_update f i m) m ks) k = hm_get m k"
  by (induction ks arbitrary: m) (auto simp: hm_update_get)

lemma evict_victims_others:
  assumes "evict_victims os cd io ids sv w = (r, sv', w')" and "k \<notin> set ids"
  shows "hm_get (sv_endpoints sv') k = hm_get (sv_endpoints sv) k"
proof -
  obtain c sv1 where c: "(if ids = [] then (None, sv) else commit_intent cd io ids None sv) = (c, sv1)"
    by (cases "if ids = [] then (None, sv) else commit_intent cd io ids None sv")
  then have e1: "sv_endpoints sv1 = sv_endpoints sv" by (auto split: if_splits dest: commit_intent_keeps)
  show ?thesis
  proof (cases c)
    case None
    let ?m = "foldl (\<lambda>m i. hm_update mark_evicted i m) (sv_endpoints sv) ids"
    obtain x m w1 where s: "stop_victims os ids ?m w = (x, m, w1)" by (cases "stop_victims os ids ?m w") auto
    with assms(1) c None e1 have "sv_endpoints sv' = m" by (auto simp: evict_victims_def)
    with stop_victims_others [OF s assms(2)] updates_others [OF assms(2)] show ?thesis by simp
  next
    case (Some e)
    with assms(1) c e1 show ?thesis by (auto simp: evict_victims_def)
  qed
qed

subsection \<open>The stages of a start\<close>

lemma start_cases:
  assumes "start os cd io1 io2 now req sv w = (r, sv', w')"
  obtains (refused) "r = Inl ShuttingDown" "sv' = sv" "w' = w"
  | (tenant) m1 where "reap_tenant os (now 0) (endpoint_id (rq_model req) (rq_port req)) (sv_endpoints sv) w = (True, m1, w')"
      "sv' = sv\<lparr>sv_endpoints := m1\<rparr>"
  | (holder) m1 w1 h m2 where "reap_tenant os (now 0) (endpoint_id (rq_model req) (rq_port req)) (sv_endpoints sv) w = (False, m1, w1)"
      "port_holder os (now 1) (endpoint_id (rq_model req) (rq_port req)) (rq_port req) m1 w1 = (Some h, m2, w')"
      "sv' = sv\<lparr>sv_endpoints := m2\<rparr>"
  | (full) m1 w1 m2 w2 e m3 where "reap_tenant os (now 0) (endpoint_id (rq_model req) (rq_port req)) (sv_endpoints sv) w = (False, m1, w1)"
      "port_holder os (now 1) (endpoint_id (rq_model req) (rq_port req)) (rq_port req) m1 w1 = (None, m2, w2)"
      "residency os (now 2) (endpoint_id (rq_model req) (rq_port req)) (sv_leases sv) req m2 w2 = (Inl e, m3, w')"
      "sv' = sv\<lparr>sv_endpoints := m3\<rparr>"
  | (evicting) m1 w1 m2 w2 ids m3 w3 x sv4 w4 where "reap_tenant os (now 0) (endpoint_id (rq_model req) (rq_port req)) (sv_endpoints sv) w = (False, m1, w1)"
      "port_holder os (now 1) (endpoint_id (rq_model req) (rq_port req)) (rq_port req) m1 w1 = (None, m2, w2)"
      "residency os (now 2) (endpoint_id (rq_model req) (rq_port req)) (sv_leases sv) req m2 w2 = (Inr ids, m3, w3)"
      "evict_victims os cd io1 ids (sv\<lparr>sv_endpoints := m3\<rparr>) w3 = (x, sv4, w4)"
      "(\<exists>e. x = Some e \<and> r = Inl e \<and> sv' = sv4 \<and> w' = w4) \<or>
       launch os cd io2 (now 3) (endpoint_id (rq_model req) (rq_port req)) req sv4 w4 = (r, sv', w')"
proof -
  let ?i = "endpoint_id (rq_model req) (rq_port req)"
  obtain b m1 w1 where t: "reap_tenant os (now 0) ?i (sv_endpoints sv) w = (b, m1, w1)"
    by (cases "reap_tenant os (now 0) ?i (sv_endpoints sv) w") auto
  obtain h m2 w2 where p: "port_holder os (now 1) ?i (rq_port req) m1 w1 = (h, m2, w2)"
    by (cases "port_holder os (now 1) ?i (rq_port req) m1 w1") auto
  obtain q m3 w3 where q: "residency os (now 2) ?i (sv_leases sv) req m2 w2 = (q, m3, w3)"
    by (cases "residency os (now 2) ?i (sv_leases sv) req m2 w2") auto
  consider "sv_shutting_down sv" | "\<not> sv_shutting_down sv" "b" | "\<not> sv_shutting_down sv" "\<not> b" "h \<noteq> None"
    | e where "\<not> sv_shutting_down sv" "\<not> b" "h = None" "q = Inl e"
    | ids where "\<not> sv_shutting_down sv" "\<not> b" "h = None" "q = Inr ids"
    by (cases q) auto
  then show ?thesis
  proof cases
    case 1
    with assms refused show ?thesis by (simp add: start_def Let_def)
  next
    case 2
    with assms t tenant show ?thesis by (simp add: start_def Let_def)
  next
    case 3
    with assms t p holder show ?thesis by (auto simp: start_def Let_def)
  next
    case 4
    with assms t p q full show ?thesis by (simp add: start_def Let_def)
  next
    case 5
    obtain x sv4 w4 where x: "evict_victims os cd io1 ids (sv\<lparr>sv_endpoints := m3\<rparr>) w3 = (x, sv4, w4)"
      by (cases "evict_victims os cd io1 ids (sv\<lparr>sv_endpoints := m3\<rparr>) w3") auto
    have "(\<exists>e. x = Some e \<and> r = Inl e \<and> sv' = sv4 \<and> w' = w4) \<or> launch os cd io2 (now 3) ?i req sv4 w4 = (r, sv', w')"
      using assms t p q x 5 by (cases x) (simp_all add: start_def Let_def)
    with evicting t p q x 5 show ?thesis by simp
  qed
qed

text \<open>Leaving the processes \<open>Q\<close> out of account.\<close>

abbreviation except :: "(u32 \<Rightarrow> 'w \<Rightarrow> bool) \<Rightarrow> u32 set \<Rightarrow> u32 \<Rightarrow> 'w \<Rightarrow> bool" where
  "except alive Q \<equiv> \<lambda>p w. alive p w \<and> p \<notin> Q"

lemma os_sound_except: "os_sound os alive \<Longrightarrow> os_sound os (except alive Q)"
  unfolding os_sound_def by blast

text \<open>The endpoints after the residency walk of a start.\<close>

definition walked :: "'w Os \<Rightarrow> (nat \<Rightarrow> time) \<Rightarrow> 'v StartRequest \<Rightarrow> 'v Supervisor \<Rightarrow> 'w \<Rightarrow> endpoints" where
  "walked os now req sv w =
     (let i = endpoint_id (rq_model req) (rq_port req);
          (_, m1, w1) = reap_tenant os (now 0) i (sv_endpoints sv) w;
          (_, m2, w2) = port_holder os (now 1) i (rq_port req) m1 w1
      in fst (snd (residency os (now 2) i (sv_leases sv) req m2 w2)))"

lemma start_keeps:
  assumes "os_sound os alive" and "start os cd io1 io2 now req sv w = (r, sv', w')" and "tracked_wf (sv_endpoints sv)"
    and tenant: "\<And>e p w'. \<not> backoff_expires os now req sv w \<longrightarrow> ep_child e = None \<Longrightarrow>
      hm_get (walked os now req sv w) (endpoint_id (rq_model req) (rq_port req)) = Some e \<Longrightarrow>
      ep_child e = Some p \<Longrightarrow> \<not> alive p w'"
  shows "map_step alive (sv_endpoints sv) w (sv_endpoints sv') w'"
  using assms(2)
proof (cases rule: start_cases)
  case (tenant m1)
  with reap_tenant_step [OF assms(1)] show ?thesis by fastforce
next
  case (holder m1 w1 h m2)
  from reap_tenant_step [OF assms(1) holder(1)] port_holder_step [OF assms(1) holder(2)] holder(3)
  show ?thesis by (auto intro: map_step_trans)
next
  case (full m1 w1 m2 w2 e m3)
  from reap_tenant_step [OF assms(1) full(1)] port_holder_step [OF assms(1) full(2)] residency_step [OF assms(1) full(3)] full(4)
  show ?thesis by (auto intro: map_step_trans)
next
  case (evicting m1 w1 m2 w2 ids m3 w3 x sv4 w4)
  let ?i = "endpoint_id (rq_model req) (rq_port req)"
  have s1: "map_step alive (sv_endpoints sv) w m1 w1" by (rule reap_tenant_step [OF assms(1) evicting(1)])
  have s3: "map_step alive (sv_endpoints sv) w m3 w3"
    using s1 port_holder_step [OF assms(1) evicting(2)] residency_step [OF assms(1) evicting(3)] by (blast intro: map_step_trans)
  then have wf3: "tracked_wf m3" and wf1: "tracked_wf m1" using s1 assms(3) by (simp_all add: map_step_def)
  have s4: "map_step alive (sv_endpoints sv) w (sv_endpoints sv4) w4"
    using s3 evict_victims_step [OF assms(1) evicting(4)] wf3 by (auto intro: map_step_trans)
  then have wf4: "tracked_wf (sv_endpoints sv4)" using assms(3) by (simp add: map_step_def)
  have m4: "hm_get (sv_endpoints sv4) ?i = hm_get m3 ?i"
    using evict_victims_others [OF evicting(4), of ?i] residency_victims [OF evicting(3), of ?i] by auto
  have m3: "walked os now req sv w = m3" using evicting(1-3) by (simp add: walked_def Let_def)
  have gone: "\<not> alive p w'" if "hm_get (sv_endpoints sv4) ?i = Some e" "ep_child e = Some p" for e p w'
    using tenant [of e p w'] that m3 m4 tenant_idle [OF evicting(1) port_holder_keeps [OF evicting(2) wf1] evicting(3)]
    by auto
  from evicting(5) show ?thesis
  proof
    assume "\<exists>e. x = Some e \<and> r = Inl e \<and> sv' = sv4 \<and> w' = w4"
    with s4 show ?thesis by auto
  next
    assume "launch os cd io2 (now 3) ?i req sv4 w4 = (r, sv', w')"
    then have "map_step alive (sv_endpoints sv4) w4 (sv_endpoints sv') w'"
      by (rule launch_step [OF assms(1) _ wf4]) (rule gone)
    with s4 show ?thesis by (rule map_step_trans)
  qed
qed simp

text \<open>A start loses sight of at most one process, the one its id's former tenant has after the residency
  walk.\<close>

lemma start_step:
  assumes "os_sound os alive" and "start os cd io1 io2 now req sv w = (r, sv', w')" and "tracked_wf (sv_endpoints sv)"
  shows "\<exists>Q. finite Q \<and> card Q \<le> of_bool (backoff_expires os now req sv w) \<and>
    map_step (except alive Q) (sv_endpoints sv) w (sv_endpoints sv') w'"
proof -
  let ?t = "Option.bind (hm_get (walked os now req sv w) (endpoint_id (rq_model req) (rq_port req))) ep_child"
  let ?Q = "if backoff_expires os now req sv w then set_option ?t else {}"
  have "map_step (except alive ?Q) (sv_endpoints sv) w (sv_endpoints sv') w'"
    by (rule start_keeps [OF os_sound_except [OF assms(1)] assms(2,3)]) (auto split: if_splits)
  moreover have "finite ?Q \<and> card ?Q \<le> of_bool (backoff_expires os now req sv w)" by (cases ?t) auto
  ultimately show ?thesis by blast
qed

subsection \<open>What a start does to the others\<close>

definition only_refreshed :: "'w Os \<Rightarrow> Endpoint \<Rightarrow> Endpoint \<Rightarrow> bool" where
  "only_refreshed os = (\<lambda>e e'. \<exists>now w w'. refresh os now e w = (e', w'))\<^sup>*\<^sup>*"

lemma only_refreshed_refl [simp]: "only_refreshed os e e"
  by (simp add: only_refreshed_def)

lemma only_refreshed_trans: "only_refreshed os e e' \<Longrightarrow> only_refreshed os e' e'' \<Longrightarrow> only_refreshed os e e''"
  unfolding only_refreshed_def by simp

lemma refresh_only: "refresh os now e w = (e', w') \<Longrightarrow> only_refreshed os e e'"
  unfolding only_refreshed_def by blast

lemma looking_only: "looking os now g e w = (a, e', w') \<Longrightarrow> only_refreshed os e e'"
  by (auto simp: looking_def intro: refresh_only split: prod.splits)

abbreviation refreshed_at :: "'w Os \<Rightarrow> endpoints \<Rightarrow> endpoints \<Rightarrow> string \<Rightarrow> bool" where
  "refreshed_at os m m' k \<equiv> rel_option (only_refreshed os) (hm_get m k) (hm_get m' k)"

lemma refreshed_at_trans: "refreshed_at os m m' k \<Longrightarrow> refreshed_at os m' m'' k \<Longrightarrow> refreshed_at os m m'' k"
  by (auto simp: option_rel_Some1 option_rel_Some2 intro: only_refreshed_trans elim!: option.rel_cases)

lemma stages_refresh:
  "reap_tenant os now i m w = (b, m', w') \<Longrightarrow> refreshed_at os m m' k"
  "port_holder os now i port m w = (h, m', w') \<Longrightarrow> refreshed_at os m m' k"
  "leased_vram os now ps m w = (v, m', w') \<Longrightarrow> refreshed_at os m m' k"
  "residency os now i leases req m w = (q, m', w') \<Longrightarrow> refreshed_at os m m' k"
proof -
  show "refreshed_at os m m' k" if "reap_tenant os now i m w = (b, m', w')" for b m' w'
    using that by (auto simp: reap_tenant_def option.rel_refl hm_get_def hm_insert_get intro: refresh_only split: option.splits prod.splits)
  show "refreshed_at os m m' k" if "port_holder os now i port m w = (h, m', w')" for h m' w'
    using that unfolding port_holder_def
    by (intro same_entries_get visit_find_entries) (auto intro: looking_only split: if_splits)
  have l: "refreshed_at os m m' k" if lv: "leased_vram os now ps m w = (v, m', w')" for ps m w v m' w'
  proof -
    let ?f = "\<lambda>e w. if ep_id e \<in> set ps
        then looking os now (\<lambda>e. if process_running e then ep_vram_bytes e else 0) e w else (0, e, w)"
    obtain vs where "visit ?f m w = (vs, m', w')" using lv by (auto simp: leased_vram_def split: prod.splits)
    then show ?thesis by (intro same_entries_get visit_entries) (auto intro: looking_only split: if_splits)
  qed
  then show "leased_vram os now ps m w = (v, m', w') \<Longrightarrow> refreshed_at os m m' k" .
  have v: "refreshed_at os m m' k" if "visit (looking os now (resident i)) m w = (rs, m', w')" for rs m' w'
    using that by (intro same_entries_get visit_entries) (auto intro: looking_only)
  show "refreshed_at os m m' k" if "residency os now i leases req m w = (q, m', w')" for q m' w'
    using that
  proof (cases rule: residency_cases)
    case (refused rs m1 w1 held err)
    with v l show ?thesis by (blast intro: refreshed_at_trans)
  qed (auto intro: v simp: option.rel_refl)
qed

lemma launch_others:
  assumes "launch os cd io now i req sv w = (r, sv', w')" and "k \<noteq> i"
  shows "hm_get (sv_endpoints sv') k = hm_get (sv_endpoints sv) k"
proof -
  obtain c sv1 where c: "commit_intent cd io [] (Some (i, rq_intent req)) sv = (c, sv1)"
    by (cases "commit_intent cd io [] (Some (i, rq_intent req)) sv")
  from assms c commit_intent_keeps(1) [OF c] show ?thesis
    by (cases c) (auto simp: launch_def map_laws split: prod.splits)
qed

section \<open>Every operation keeps track of the processes\<close>

lemma map_all_step:
  assumes "\<And>e. ep_child (f e) = ep_child e" and "\<And>e. ep_id (f e) = ep_id e"
  shows "map_step alive m w (map (\<lambda>(k, e). (k, f e)) m) w"
proof (induction m)
  case (Cons x m)
  have "map fst (map (\<lambda>(k, e). (k, f e)) m) = map fst m" by auto
  then show ?case using Cons assms by (cases x) (auto intro!: map_step_Cons owns_step_refl simp del: map_map)
qed simp

lemma lease_view_step:
  assumes "os_sound os alive" and "lease_view os epoch now l m w = (v, m', w')"
  shows "map_step alive m w m' w'"
proof (cases "lease_expired epoch now l \<or> le_recovered l \<or> hm_get m (le_endpoint_id l) = None")
  case True
  with assms(2) show ?thesis by (auto simp: lease_view_def split: if_splits)
next
  case False
  then obtain e where e: "hm_get m (le_endpoint_id l) = Some e" by blast
  obtain e' w1 where r: "refresh os now e w = (e', w1)" by (cases "refresh os now e w")
  from insert_step [OF e refresh_owns [OF assms(1) r] refresh_fields(1) [OF r]] assms(2) False e r
  show ?thesis by (auto simp: lease_view_def)
qed

lemma lease_step:
  assumes "os_sound os alive" and "lease os cd io epoch now s model sv w = (r, sv', w')"
  shows "map_step alive (sv_endpoints sv) w (sv_endpoints sv') w'"
proof -
  let ?f = "looking os now (\<lambda>e. if serving model e then Some (ep_id e) else None)"
  obtain x m w1 where v: "visit_find ?f (sv_endpoints sv) w = (x, m, w1)" by (cases "visit_find ?f (sv_endpoints sv) w") auto
  have s1: "map_step alive (sv_endpoints sv) w m w1" by (rule visit_find_step [OF looking_good [OF assms(1)] v])
  show ?thesis
  proof (cases x)
    case None
    with assms(2) v s1 show ?thesis by (auto simp: lease_def)
  next
    case (Some eid)
    let ?l = "\<lparr>le_session_id = s, le_model = model, le_endpoint_id = eid, le_recovered = False,
      le_expires_at = sat_add epoch LEASE_TTL_SECS, le_renewed_at = Some now\<rparr> :: Lease"
    obtain p sv1 where p: "persist_leases cd io (hm_insert s ?l (sv_leases sv)) (sv\<lparr>sv_endpoints := m\<rparr>) = (p, sv1)"
      by (cases "persist_leases cd io (hm_insert s ?l (sv_leases sv)) (sv\<lparr>sv_endpoints := m\<rparr>)")
    have e1: "sv_endpoints sv1 = m" using persist_leases_keeps(1) [OF p] by simp
    obtain lv m' w2 where lv: "lease_view os epoch now ?l m w1 = (lv, m', w2)" by (cases "lease_view os epoch now ?l m w1") auto
    show ?thesis
    proof (cases p)
      case None
      with assms(2) v Some p e1 lv have "sv_endpoints sv' = m' \<and> w' = w2" by (auto simp: lease_def)
      with s1 lease_view_step [OF assms(1) lv] show ?thesis by (auto intro: map_step_trans)
    next
      case (Some err)
      with assms(2) v \<open>x = Some eid\<close> p e1 s1 show ?thesis by (auto simp: lease_def)
    qed
  qed
qed

lemma stop_step:
  assumes "os_sound os alive" and "stop os cd io i sv w = (r, sv', w')" and "tracked_wf (sv_endpoints sv)"
  shows "map_step alive (sv_endpoints sv) w (sv_endpoints sv') w'"
proof -
  obtain c sv1 where c: "commit_intent cd io [i] None sv = (c, sv1)" by (cases "commit_intent cd io [i] None sv")
  obtain x m w1 where s: "stop_victims os [i] (sv_endpoints sv) w = (x, m, w1)" by (cases "stop_victims os [i] (sv_endpoints sv) w") auto
  note s1 = stop_victims_step [OF assms(1) s assms(3)]
  have "(sv_endpoints sv' = sv_endpoints sv \<and> w' = w) \<or> (sv_endpoints sv' = m \<and> w' = w1)"
    using assms(2) c s commit_intent_keeps(1) [OF c]
    by (cases c; cases x) (auto simp: stop_def simp del: stop_victims.simps split: if_splits)
  with s1 show ?thesis by auto
qed

lemma probe_keeps: "ep_child (apply_health_probe p x e) = ep_child e" "ep_id (apply_health_probe p x e) = ep_id e"
  by (simp_all add: apply_health_probe_def split: option.splits)

lemma apply_probes_step: "map_step alive m w (apply_probes probe ps m) w"
proof (induction ps arbitrary: m)
  case (Cons p ps)
  have "map_step alive m w (hm_update (apply_health_probe p (probe p)) (hp_endpoint_id p) m) w"
    by (rule update_step) (simp_all add: probe_keeps)
  with Cons [of "hm_update (apply_health_probe p (probe p)) (hp_endpoint_id p) m"] show ?case
    by (simp add: apply_probes_def map_step_trans)
qed (simp add: apply_probes_def)

lemma refresh_and_schedule_good: "os_sound os alive \<Longrightarrow> good_visit alive (refresh_and_schedule os now)"
  unfolding good_visit_def
proof (intro allI impI)
  fix e w a e' w'
  assume os: "os_sound os alive" and r: "refresh_and_schedule os now e w = (a, e', w')"
  obtain e1 w1 where f: "refresh os now e w = (e1, w1)" by (cases "refresh os now e w")
  have "w' = w1" "ep_child e' = ep_child e1" "ep_id e' = ep_id e1"
    using r f by (auto simp: refresh_and_schedule_def schedule_health_probe_def Let_def split: prod.splits option.splits if_splits)
  with refresh_owns [OF os f] refresh_fields(1) [OF f] show "owns_step alive e w e' w' \<and> ep_id e' = ep_id e"
    by (simp add: owns_step_def)
qed

lemma maintain_scan_step:
  assumes "os_sound os alive" and "maintain_scan os now sv w = (ps, sv', w')"
  shows "map_step alive (sv_endpoints sv) w (sv_endpoints sv') w'"
  using assms(2) visit_step [OF refresh_and_schedule_good [OF assms(1)]] by (auto simp: maintain_scan_def split: prod.splits)

lemma maintain_observe_step:
  "maintain_observe cd probe ps now sv = (obs, sv') \<Longrightarrow> map_step alive (sv_endpoints sv) w (sv_endpoints sv') w"
  using apply_probes_step by (auto simp: maintain_observe_def Let_def)

lemma maintain_record_keeps: "sv_endpoints (maintain_record cd io obs sv) = sv_endpoints sv"
proof -
  have "sv_endpoints (snd (store_commit cd io change sv)) = sv_endpoints sv" for change
    using store_commit_keeps(1) [of cd io change sv] by (cases "store_commit cd io change sv") simp
  then show ?thesis by (auto simp: maintain_record_def split: prod.splits)
qed

lemma shutdown_step:
  assumes "os_sound os alive" and "shutdown_owned os late sv w = (r, sv', w')"
  shows "map_step alive (sv_endpoints sv) w (sv_endpoints sv') w'"
proof -
  let ?f = "\<lambda>e w. if late e then (True, e, w) else case stop_owned os e w of (r, e', w') \<Rightarrow> (r \<noteq> None, e', w')"
  have b: "map_step alive (sv_endpoints sv) w (sv_endpoints (begin_shutdown sv)) w"
    unfolding begin_shutdown_def by (simp add: map_all_step)
  have g: "good_visit alive ?f"
    unfolding good_visit_def by (auto simp: owns_step_refl split: prod.splits if_splits dest: stop_owned_owns(1,3) [OF assms(1)])
  obtain fs m w1 where v: "visit ?f (sv_endpoints (begin_shutdown sv)) w = (fs, m, w1)"
    by (cases "visit ?f (sv_endpoints (begin_shutdown sv)) w") auto
  then have "sv_endpoints sv' = m \<and> w' = w1" using assms(2) by (auto simp: shutdown_owned_def Let_def)
  with b visit_step [OF g v] show ?thesis by (auto intro: map_step_trans)
qed

lemma view_good: "os_sound os alive \<Longrightarrow> good_visit alive (endpoint_view os now)"
  unfolding good_visit_def endpoint_view_def by (auto split: prod.splits dest: refresh_owns refresh_fields(1))

lemma good_visit_map:
  assumes "good_visit alive f" and "\<And>e w a e' w'. g e w = (a, e', w') \<Longrightarrow> \<exists>b. f e w = (b, e', w')"
  shows "good_visit alive g"
  using assms unfolding good_visit_def by blast

lemma looks_step:
  assumes "os_sound os alive"
  shows "lease_status os epoch now s sv w = (v1, sv', w') \<Longrightarrow> map_step alive (sv_endpoints sv) w (sv_endpoints sv') w'"
    and "endpoint_for_model os now model sv w = (v2, sv', w') \<Longrightarrow> map_step alive (sv_endpoints sv) w (sv_endpoints sv') w'"
    and "served_models os now sv w = (v3, sv', w') \<Longrightarrow> map_step alive (sv_endpoints sv) w (sv_endpoints sv') w'"
    and "engine_profiles os now b sv w = (v4, sv', w') \<Longrightarrow> map_step alive (sv_endpoints sv) w (sv_endpoints sv') w'"
    and "metrics os now sv w = (v5, sv', w') \<Longrightarrow> map_step alive (sv_endpoints sv) w (sv_endpoints sv') w'"
    and "endpoint_list os cd now sv w = (v6, sv', w') \<Longrightarrow> map_step alive (sv_endpoints sv) w (sv_endpoints sv') w'"
    and "endpoint_get os cd now i sv w = (v7, sv', w') \<Longrightarrow> map_step alive (sv_endpoints sv) w (sv_endpoints sv') w'"
proof -
  note vs = visit_step [OF looking_good [OF assms]] and vf = visit_find_step [OF looking_good [OF assms]]
  show "lease_status os epoch now s sv w = (v1, sv', w') \<Longrightarrow> map_step alive (sv_endpoints sv) w (sv_endpoints sv') w'"
    by (auto simp: lease_status_def split: option.splits prod.splits dest: lease_view_step [OF assms])
  show "endpoint_for_model os now model sv w = (v2, sv', w') \<Longrightarrow> map_step alive (sv_endpoints sv) w (sv_endpoints sv') w'"
    by (auto simp: endpoint_for_model_def with_endpoints_def split: prod.splits dest: vf)
  show "served_models os now sv w = (v3, sv', w') \<Longrightarrow> map_step alive (sv_endpoints sv) w (sv_endpoints sv') w'"
    by (auto simp: served_models_def split: prod.splits dest: vs)
  show "engine_profiles os now b sv w = (v4, sv', w') \<Longrightarrow> map_step alive (sv_endpoints sv) w (sv_endpoints sv') w'"
    by (auto simp: engine_profiles_def split: prod.splits dest: vs)
  show "metrics os now sv w = (v5, sv', w') \<Longrightarrow> map_step alive (sv_endpoints sv) w (sv_endpoints sv') w'"
    by (auto simp: metrics_def split: prod.splits dest: vs)
  let ?f = "\<lambda>e w. case endpoint_view os now e w of
      (view, e', w') \<Rightarrow> ((ep_started_at e', Tracked view (Some (lease_count (sv_leases sv) e'))), e', w')"
  have "good_visit alive ?f" by (rule good_visit_map [OF view_good [OF assms]]) (auto split: prod.splits)
  note vl = visit_step [OF this]
  show "endpoint_list os cd now sv w = (v6, sv', w') \<Longrightarrow> map_step alive (sv_endpoints sv) w (sv_endpoints sv') w'"
    by (auto simp: endpoint_list_def split: prod.splits dest: vl)
  have "map_step alive m w (hm_insert i e' m) w'" if "hm_get m i = Some e" "endpoint_view os now e w = (v, e', w')" for m e v e'
  proof -
    have "owns_step alive e w e' w' \<and> ep_id e' = ep_id e"
      using view_good [OF assms, of now, unfolded good_visit_def] that(2) by blast
    then show ?thesis by (auto intro: insert_step [OF that(1)])
  qed
  then show "endpoint_get os cd now i sv w = (v7, sv', w') \<Longrightarrow> map_step alive (sv_endpoints sv) w (sv_endpoints sv') w'"
    by (auto simp: endpoint_get_def split: option.splits prod.splits)
qed

text \<open>Everything that can happen, at any reading of the clock: the requests of the daemon, each part of its
  maintenance on its own, and processes ending.  The label says whether the step is a start that replaces an
  endpoint whose back-off runs out meanwhile; \<open>sup_run\<close> counts those.\<close>

inductive sup_step ::
    "'w Os \<Rightarrow> 'v Codec \<Rightarrow> (u32 \<Rightarrow> 'w \<Rightarrow> bool) \<Rightarrow> bool \<Rightarrow> 'v Supervisor \<times> 'w \<Rightarrow> 'v Supervisor \<times> 'w \<Rightarrow> bool"
  for os :: "'w Os" and cd :: "'v Codec" and alive :: "u32 \<Rightarrow> 'w \<Rightarrow> bool" where
  started: "start os cd io1 io2 now req sv w = (r1, sv', w') \<Longrightarrow>
    sup_step os cd alive (backoff_expires os now req sv w) (sv, w) (sv', w')"
| stopped: "stop os cd io i sv w = (r2, sv', w') \<Longrightarrow> sup_step os cd alive False (sv, w) (sv', w')"
| leased: "lease os cd io epoch t s model sv w = (r3, sv', w') \<Longrightarrow> sup_step os cd alive False (sv, w) (sv', w')"
| status: "lease_status os epoch t s sv w = (r4, sv', w') \<Longrightarrow> sup_step os cd alive False (sv, w) (sv', w')"
| routed: "endpoint_for_model os t model sv w = (r5, sv', w') \<Longrightarrow> sup_step os cd alive False (sv, w) (sv', w')"
| served: "served_models os t sv w = (r6, sv', w') \<Longrightarrow> sup_step os cd alive False (sv, w) (sv', w')"
| profiled: "engine_profiles os t b sv w = (r7, sv', w') \<Longrightarrow> sup_step os cd alive False (sv, w) (sv', w')"
| measured: "metrics os t sv w = (r8, sv', w') \<Longrightarrow> sup_step os cd alive False (sv, w) (sv', w')"
| listed: "endpoint_list os cd t sv w = (r9, sv', w') \<Longrightarrow> sup_step os cd alive False (sv, w) (sv', w')"
| got: "endpoint_get os cd t i sv w = (r10, sv', w') \<Longrightarrow> sup_step os cd alive False (sv, w) (sv', w')"
| expired: "expire_leases cd io epoch t sv = (r16, sv') \<Longrightarrow> sup_step os cd alive False (sv, w) (sv', w)"
| scanned: "maintain_scan os t sv w = (ps, sv', w') \<Longrightarrow> sup_step os cd alive False (sv, w) (sv', w')"
| observed: "maintain_observe cd probe ps t sv = (obs, sv') \<Longrightarrow> sup_step os cd alive False (sv, w) (sv', w)"
| recorded: "sup_step os cd alive False (sv, w) (maintain_record cd io obs sv, w)"
| touched: "sup_step os cd alive False (sv, w) (touch t i sv, w)"
| begun: "sup_step os cd alive False (sv, w) (begin_shutdown sv, w)"
| shut: "shutdown_owned os late sv w = (r11, sv', w') \<Longrightarrow> sup_step os cd alive False (sv, w) (sv', w')"
| released: "release cd io s sv = (r12, sv') \<Longrightarrow> sup_step os cd alive False (sv, w) (sv', w)"
| renewed: "renew_lease cd io epoch t s sv = (r13, sv') \<Longrightarrow> sup_step os cd alive False (sv, w) (sv', w)"
| removed: "remove_session cd io s sv = (r14, sv') \<Longrightarrow> sup_step os cd alive False (sv, w) (sv', w)"
| persisted: "persist_session cd io se sv = (r15, sv') \<Longrightarrow> sup_step os cd alive False (sv, w) (sv', w)"
| exited: "(\<And>p. alive p w' \<Longrightarrow> alive p w) \<Longrightarrow> sup_step os cd alive False (sv, w) (sv, w')"

inductive sup_run ::
    "'w Os \<Rightarrow> 'v Codec \<Rightarrow> (u32 \<Rightarrow> 'w \<Rightarrow> bool) \<Rightarrow> nat \<Rightarrow> 'v Supervisor \<times> 'w \<Rightarrow> 'v Supervisor \<times> 'w \<Rightarrow> bool"
  for os :: "'w Os" and cd :: "'v Codec" and alive :: "u32 \<Rightarrow> 'w \<Rightarrow> bool" where
  none: "sup_run os cd alive 0 x x"
| more: "sup_run os cd alive n x y \<Longrightarrow> sup_step os cd alive b y z \<Longrightarrow> sup_run os cd alive (n + of_bool b) x z"

lemma session_ops_keep:
  "release cd io s sv = (x1, sv') \<Longrightarrow> sv_endpoints sv' = sv_endpoints sv"
  "renew_lease cd io epoch t s sv = (x2, sv') \<Longrightarrow> sv_endpoints sv' = sv_endpoints sv"
  "remove_session cd io s sv = (x3, sv') \<Longrightarrow> sv_endpoints sv' = sv_endpoints sv"
  "persist_session cd io se sv = (x4, sv') \<Longrightarrow> sv_endpoints sv' = sv_endpoints sv"
  "expire_leases cd io epoch t sv = (x5, sv') \<Longrightarrow> sv_endpoints sv' = sv_endpoints sv"
proof -
  show "release cd io s sv = (x1, sv') \<Longrightarrow> sv_endpoints sv' = sv_endpoints sv"
    by (auto simp: release_def Let_def split: if_splits prod.splits option.splits dest: persist_leases_keeps)
  show "renew_lease cd io epoch t s sv = (x2, sv') \<Longrightarrow> sv_endpoints sv' = sv_endpoints sv"
    by (auto simp: renew_lease_def split: if_splits option.splits dest: swap_leases_keeps)
  show "remove_session cd io s sv = (x3, sv') \<Longrightarrow> sv_endpoints sv' = sv_endpoints sv"
    by (auto simp: remove_session_def split: prod.splits option.splits dest: store_commit_keeps)
  show "persist_session cd io se sv = (x4, sv') \<Longrightarrow> sv_endpoints sv' = sv_endpoints sv"
    by (auto simp: persist_session_def dest: store_commit_keeps)
  show "expire_leases cd io epoch t sv = (x5, sv') \<Longrightarrow> sv_endpoints sv' = sv_endpoints sv"
    using expire_leases_keeps [of cd io epoch t sv] by simp
qed

lemma sup_step_others:
  assumes "os_sound os alive" and "sup_step os cd alive b x y" and "tracked_wf (sv_endpoints (fst x))"
  shows "(\<exists>io1 io2 now req r. start os cd io1 io2 now req (fst x) (snd x) = (r, y) \<and> b = backoff_expires os now req (fst x) (snd x)) \<or>
    map_step alive (sv_endpoints (fst x)) (snd x) (sv_endpoints (fst y)) (snd y)"
  using assms(2,3)
proof (cases rule: sup_step.cases)
  case (started io1 io2 now req sv w r1 sv' w')
  then show ?thesis by fastforce
next
  case (stopped io i sv w r2 sv' w')
  with assms(3) stop_step [OF assms(1) stopped(4)] show ?thesis by simp
next
  case (touched sv w t i)
  then show ?thesis by (simp add: touch_def update_step)
next
  case (begun sv w)
  then show ?thesis by (simp add: begin_shutdown_def map_all_step)
next
  case (exited w' w sv)
  then show ?thesis by (auto simp: map_step_def)
qed (auto simp: maintain_record_keeps dest: lease_step [OF assms(1)] looks_step [OF assms(1)] maintain_scan_step [OF assms(1)]
    maintain_observe_step shutdown_step [OF assms(1)] session_ops_keep)

text \<open>The processes that run and that nothing tracks.\<close>

definition orphans :: "(u32 \<Rightarrow> 'w \<Rightarrow> bool) \<Rightarrow> endpoints \<Rightarrow> 'w \<Rightarrow> u32 set" where
  "orphans alive m w = {p. alive p w} - children m"

lemma sup_step_orphans:
  assumes "os_sound os alive" and "sup_step os cd alive b x y" and "tracked_wf (sv_endpoints (fst x))"
  shows "\<exists>Q. finite Q \<and> card Q \<le> of_bool b \<and> tracked_wf (sv_endpoints (fst y)) \<and>
    orphans alive (sv_endpoints (fst y)) (snd y) \<subseteq> orphans alive (sv_endpoints (fst x)) (snd x) \<union> Q"
proof -
  have "\<exists>Q. finite Q \<and> card Q \<le> of_bool b \<and>
      map_step (except alive Q) (sv_endpoints (fst x)) (snd x) (sv_endpoints (fst y)) (snd y)"
    using sup_step_others [OF assms]
  proof
    assume "map_step alive (sv_endpoints (fst x)) (snd x) (sv_endpoints (fst y)) (snd y)"
    then show ?thesis by (intro exI [of _ "{}"]) simp
  next
    assume "\<exists>io1 io2 now req r. start os cd io1 io2 now req (fst x) (snd x) = (r, y) \<and> b = backoff_expires os now req (fst x) (snd x)"
    with start_step [OF assms(1) _ assms(3)] show ?thesis by (cases y) fastforce
  qed
  then show ?thesis using assms(3) by (fastforce simp: map_step_def orphans_def)
qed

lemma sup_run_orphans:
  assumes "sup_run os cd alive n x y" and "os_sound os alive" and "tracked_wf (sv_endpoints (fst x))"
    and "orphans alive (sv_endpoints (fst x)) (snd x) = {}"
  shows "tracked_wf (sv_endpoints (fst y)) \<and> finite (orphans alive (sv_endpoints (fst y)) (snd y)) \<and>
    card (orphans alive (sv_endpoints (fst y)) (snd y)) \<le> n"
  using assms
proof (induction rule: sup_run.induct)
  case (more n x y b z)
  let ?o = "\<lambda>x. orphans alive (sv_endpoints (fst x)) (snd x)"
  have IH: "tracked_wf (sv_endpoints (fst y))" "finite (?o y)" "card (?o y) \<le> n" using more by blast+
  from sup_step_orphans [OF more.prems(1) more.hyps(2) IH(1)] obtain Q
    where Q: "finite Q" "card Q \<le> of_bool b" "tracked_wf (sv_endpoints (fst z))" "?o z \<subseteq> ?o y \<union> Q" by blast
  have "card (?o z) \<le> card (?o y \<union> Q)" using Q(1,4) IH(2) by (intro card_mono) simp_all
  also have "\<dots> \<le> n + of_bool b" using card_Un_le [of "?o y" Q] IH(3) Q(2) by linarith
  finally show ?case using Q IH(2) by (auto intro: finite_subset)
qed simp

section \<open>Samples\<close>

text \<open>Operating systems whose state is the list of running processes; \<open>spawned\<close> numbers them.\<close>

definition listed_os :: "u32 list Os" where
  "listed_os =
     \<lparr>os_try_wait = \<lambda>pid w. (if pid \<in> set w then WaitRunning else WaitExited None, w),
      os_spawn = \<lambda>_ w. (Inr (of_nat (length w) + 20), (of_nat (length w) + 20) # w),
      os_kill = \<lambda>pid w. (True, removeAll pid w)\<rparr>"

abbreviation listed_alive :: "u32 \<Rightarrow> u32 list \<Rightarrow> bool" where
  "listed_alive p w \<equiv> p \<in> set w"

lemma listed_os_sound: "os_sound listed_os listed_alive"
  by (auto simp: os_sound_def listed_os_def split: if_splits)

definition null_codec :: "unit Codec" where
  "null_codec =
     \<lparr>sd_digest = \<lambda>_. None, sd_write = \<lambda>_. None, sd_read = \<lambda>_. None, sd_str = \<lambda>_ _. None, cd_lease_to = \<lambda>_. None,
      cd_lease_from = \<lambda>_. None, cd_session = \<lambda>_. (), cd_get = \<lambda>_ _. None, cd_set = \<lambda>_ _ _. (), cd_as_u64 = \<lambda>_. None,
      cd_u64 = \<lambda>_. (), cd_observation = \<lambda>_. ()\<rparr>"

definition all_ok :: CommitIo where
  "all_ok = \<lparr>ci_suffix = Some [0], ci_create = True, ci_write = True, ci_rename = True, ci_sync = True,
     ci_cleanup = True, ci_prune = \<lambda>_. True\<rparr>"

definition sample_request :: "unit StartRequest" where
  "sample_request =
     \<lparr>rq_intent = (), rq_model = ''n'', rq_host = ''127.0.0.1'', rq_port = 8082, rq_backend = ''llama'', rq_fits_vram = True,
      rq_notes = [], rq_context_tokens = 4096, rq_command = sample_command, rq_vram_need = 800, rq_vram_budget = 1500,
      rq_allow_evict = True\<rparr>"

definition sample_lease :: Lease where
  "sample_lease = \<lparr>le_session_id = ''s'', le_model = ''m'', le_endpoint_id = ''m-1'', le_recovered = False,
     le_expires_at = 90, le_renewed_at = Some 0\<rparr>"

definition leased_supervisor :: "unit Supervisor" where
  "leased_supervisor = \<lparr>sv_shutting_down = False, sv_endpoints = [(''m-1'', sample_endpoint)],
     sv_leases = [(''s'', sample_lease)], sv_store = None\<rparr>"

definition crashed_supervisor :: "unit Supervisor" where
  "crashed_supervisor = \<lparr>sv_shutting_down = False,
     sv_endpoints = [(''n-8082'', sample_endpoint\<lparr>ep_id := ''n-8082'', ep_child := None, ep_last_exit_at := Some 0\<rparr>)],
     sv_leases = [], sv_store = None\<rparr>"

lemma sample_id: "endpoint_id ''n'' 8082 = ''n-8082''"
  by (simp add: endpoint_id_def slug_char_def is_alnum_def is_lower_def is_upper_def is_digit_def lower_char_def Let_def show_nat.simps char_of_def bit_0)

lemmas start_eval = start_def sample_id reap_tenant_def port_holder_def residency_def looking_def refresh_def reap_def
  maybe_restart_def sample_request_def sample_lease_def sample_endpoint_def Let_def
  listed_os_def restart_decision_def resident_def process_running_def exclude_leased_residents_def List.map_filter_def
  admit_def evict_victims_def launch_def commit_intent_def store_commit_def endpoint_view_def new_endpoint_def
  hm_get_def sat_add_def elapsed_def RESTART_BACKOFF_def MAX_RESTARTS_def

text \<open>Memory held by leased endpoints is not counted: with a budget of 1500, a leased endpoint of 1000
  running, a request for 800 is admitted and both run.\<close>

lemma leased_vram_not_counted:
  "case start listed_os null_codec all_ok all_ok (\<lambda>_. 0) sample_request leased_supervisor [7] of (r, sv', w') \<Rightarrow>
     (\<exists>view. r = Inr view) \<and> rq_vram_budget sample_request = 1500 \<and>
     sum_list (map (unat \<circ> ep_vram_bytes \<circ> snd) (filter (process_running \<circ> snd) (sv_endpoints sv'))) = 1800"
  by (simp add: start_eval leased_supervisor_def)

text \<open>A start that takes over the id of a crashed endpoint while the back-off of its restart runs out: the
  old endpoint is restarted by the residency walk, then overwritten, and its process (20) is no longer
  tracked by anything.\<close>

lemma restart_race_orphans:
  "backoff_expires listed_os (\<lambda>k. if k = 0 then secs 1 else secs 2) sample_request crashed_supervisor []"
  "case start listed_os null_codec all_ok all_ok (\<lambda>k. if k = 0 then secs 1 else secs 2) sample_request crashed_supervisor [] of
     (r, sv', w') \<Rightarrow> (\<exists>view. r = Inr view) \<and> listed_alive 20 w' \<and> 20 \<notin> children (sv_endpoints sv')"
  by (simp_all add: start_eval crashed_supervisor_def backoff_expires_def backoff_ends_def)

section \<open>Properties\<close>

text \<open>C11. A lease protects its endpoint from eviction.  Whatever a start request asks for and however it
  ends, an endpoint that some session has leased (and that is not itself the one being started) is still
  tracked afterwards and has only been looked at: no stop was ever asked of it.\<close>

theorem leased_never_evicted:
  assumes "start os cd io1 io2 now req sv w = (r, sv', w')" and "(s, l) \<in> set (sv_leases sv)"
    and "le_endpoint_id l \<noteq> endpoint_id (rq_model req) (rq_port req)"
    and "hm_get (sv_endpoints sv) (le_endpoint_id l) = Some e"
  shows "\<exists>e'. hm_get (sv_endpoints sv') (le_endpoint_id l) = Some e' \<and> only_refreshed os e e'"
proof -
  let ?k = "le_endpoint_id l"
  have "refreshed_at os (sv_endpoints sv) (sv_endpoints sv') ?k"
    using assms(1)
  proof (cases rule: start_cases)
    case (tenant m1)
    with stages_refresh(1) show ?thesis by fastforce
  next
    case (holder m1 w1 h m2)
    with stages_refresh(1) [OF holder(1)] stages_refresh(2) [OF holder(2)] show ?thesis
      by (auto intro: refreshed_at_trans)
  next
    case (full m1 w1 m2 w2 e m3)
    have "refreshed_at os (sv_endpoints sv) m3 ?k"
      using stages_refresh(1) [OF full(1)] stages_refresh(2) [OF full(2)] stages_refresh(4) [OF full(3)]
      by (blast intro: refreshed_at_trans)
    with full(4) show ?thesis by simp
  next
    case (evicting m1 w1 m2 w2 ids m3 w3 x sv4 w4)
    have "refreshed_at os (sv_endpoints sv) m3 ?k"
      using stages_refresh(1) [OF evicting(1)] stages_refresh(2) [OF evicting(2)] stages_refresh(4) [OF evicting(3)]
      by (blast intro: refreshed_at_trans)
    moreover have "?k \<notin> set ids" using residency_victims [OF evicting(3)] assms(2) by force
    then have "hm_get (sv_endpoints sv4) ?k = hm_get m3 ?k" using evict_victims_others [OF evicting(4)] by simp
    moreover have "hm_get (sv_endpoints sv') ?k = hm_get (sv_endpoints sv4) ?k"
      using evicting(5) launch_others [OF _ assms(3), of os cd io2 "now 3" req sv4 w4 r sv' w'] by auto
    ultimately show ?thesis by simp
  qed (simp add: option.rel_refl)
  with assms(4) show ?thesis by (simp add: option_rel_Some1)
qed

theorem leased_never_evicted_witness:
  "\<exists>e'. hm_get (sv_endpoints (fst (snd (start listed_os null_codec all_ok all_ok (\<lambda>_. 0) sample_request leased_supervisor [7])))) ''m-1''
      = Some e' \<and> only_refreshed listed_os sample_endpoint e'"
proof -
  obtain r sv' w' where s: "start listed_os null_codec all_ok all_ok (\<lambda>_. 0) sample_request leased_supervisor [7] = (r, sv', w')"
    by (cases "start listed_os null_codec all_ok all_ok (\<lambda>_. 0) sample_request leased_supervisor [7]") auto
  have "(''s'', sample_lease) \<in> set (sv_leases leased_supervisor)" by (simp add: leased_supervisor_def)
  moreover have "le_endpoint_id sample_lease \<noteq> endpoint_id (rq_model sample_request) (rq_port sample_request)"
    by (simp add: sample_lease_def sample_request_def sample_id)
  moreover have "hm_get (sv_endpoints leased_supervisor) (le_endpoint_id sample_lease) = Some sample_endpoint"
    by (simp add: leased_supervisor_def sample_lease_def hm_get_def)
  ultimately have "\<exists>e'. hm_get (sv_endpoints sv') (le_endpoint_id sample_lease) = Some e' \<and> only_refreshed listed_os sample_endpoint e'"
    by (rule leased_never_evicted [OF s])
  with s show ?thesis by (simp add: sample_lease_def)
qed

text \<open>C3. No orphaned model server.  However the daemon's operations and the parts of its maintenance
  interleave, whatever the clock shows at each of them, whichever commits fail and whenever processes exit,
  every endpoint is tracked under its own id, once, and the running model servers that no tracked endpoint
  owns are at most as many as there were starts of one kind: a start that replaces a crashed endpoint of its
  own id, while the back-off of that endpoint's restart runs out between the first look at it and the walk
  over the residents.  So without such a start every model server that is still running is the child of a
  tracked endpoint and can be listed and stopped.  (\<open>restart_race_orphans\<close> shows that such a start does
  lose a server.)\<close>

theorem no_orphan_servers:
  assumes "os_sound os alive" and "sup_run os cd alive n (sv0, w0) (sv, w)"
    and "sv_endpoints sv0 = []" and "\<And>p. \<not> alive p w0"
  shows "tracked_wf (sv_endpoints sv) \<and>
    finite {p. alive p w \<and> (\<forall>k e. hm_get (sv_endpoints sv) k = Some e \<longrightarrow> ep_child e \<noteq> Some p)} \<and>
    card {p. alive p w \<and> (\<forall>k e. hm_get (sv_endpoints sv) k = Some e \<longrightarrow> ep_child e \<noteq> Some p)} \<le> n \<and>
    (n = 0 \<longrightarrow> (\<forall>p. alive p w \<longrightarrow> (\<exists>k e. hm_get (sv_endpoints sv) k = Some e \<and> ep_child e = Some p)))"
proof -
  have o: "tracked_wf (sv_endpoints sv) \<and> finite (orphans alive (sv_endpoints sv) w) \<and>
      card (orphans alive (sv_endpoints sv) w) \<le> n"
    using sup_run_orphans [OF assms(2,1)] assms(3,4) by (simp add: orphans_def tracked_wf_def)
  then have "orphans alive (sv_endpoints sv) w =
      {p. alive p w \<and> (\<forall>k e. hm_get (sv_endpoints sv) k = Some e \<longrightarrow> ep_child e \<noteq> Some p)}"
    unfolding orphans_def children_def tracked_wf_def by (blast intro: hm_in_set_get hm_get_in_set)
  with o show ?thesis by auto
qed

theorem no_orphan_servers_witness:
  "\<exists>k e. hm_get (sv_endpoints (fst (snd (start listed_os null_codec all_ok all_ok (\<lambda>_. 0) sample_request supervisor_default [])))) k
      = Some e \<and> ep_child e = Some 20"
proof -
  let ?s = "start listed_os null_codec all_ok all_ok (\<lambda>_. 0) sample_request supervisor_default []"
  have w: "snd (snd ?s) = [20]" by (simp add: start_eval supervisor_default_def)
  obtain r sv' w' where s: "?s = (r, sv', w')" by (cases ?s) auto
  have "\<not> backoff_expires listed_os (\<lambda>_. 0) sample_request supervisor_default []"
    by (simp add: backoff_expires_def supervisor_default_def hm_get_def)
  with sup_step.started [OF s, of listed_alive] sup_run.more [OF sup_run.none]
  have "sup_run listed_os null_codec listed_alive 0 (supervisor_default, []) (sv', w')" by fastforce
  from no_orphan_servers [OF listed_os_sound this] w s show ?thesis by (simp add: supervisor_default_def)
qed

end
