(* ===== verification/Access.thy ===== *)
theory Access
  imports Http Auth Drain
begin

text \<open>
  The front door of \<open>cameod/src/app.rs\<close>: the browser-origin defence, the request rate, the credential checks
  and the dispatch tables of \<open>route\<close>, \<open>route_v1\<close>, \<open>route_hub\<close> and \<open>route_api\<close>.  A handler that is reached is
  the constructor \<open>Handle\<close> with the arguments the code passes on; what the handlers then do is modelled with
  their components.  The release of stale session leases at the head of \<open>route\<close> is \<open>Supervisor.release\<close> of what \<open>Sessions\<close> reports stale and is not repeated here.
\<close>

section \<open>Model\<close>

record App =
  ap_keyring :: KeyRing
  ap_posture :: Posture
  ap_hub_enabled :: bool
  ap_farm_token :: "string option"
  ap_open_inference :: bool
  ap_limits :: RateLimiter
  ap_drain :: DrainState

datatype handler =
    Dashboard | Healthz | Readyz | Metrics | Version
  | ListModels | Proxy "string list" u64
  | BeginPairing | Pair | RegisterNode | Heartbeat bool | ListNodes | RemoveNode string | PushServer string
  | StopNodeServer string string | DispatchTask
  | DrainStatus | DrainResume | DrainBegin | ListGpus | NodeFacts | Engines | Capabilities | CachedModels | CleanModels
  | RemoveModel string | PlanModel | ListSessions | UpsertSession | GetSession string | RemoveSession string
  | LeaseSession string | LeaseStatus string | ReleaseLease string | EnsureVram string | SessionVram string
  | ReleaseVram string | ListServers | StartServer | GetServer string | StopServer string

datatype verdict = Denied u16 string | Handle handler

definition bearer :: "Request \<Rightarrow> string option" where
  "bearer req = map_option trim (Option.bind (header req ''authorization'') (strip_prefix ''Bearer ''))"

definition key_matches :: "string option \<Rightarrow> string \<Rightarrow> bool" where
  "key_matches presented key =
     (case presented of
        None \<Rightarrow> False
      | Some p \<Rightarrow>
          length p = length key \<and>
          foldl (\<lambda>acc (a, b). acc OR (a XOR b)) 0 (zip (map byte_of p) (map byte_of key)) = 0)"

definition inference_is_open :: "App \<Rightarrow> bool" where
  "inference_is_open app =
     (ap_open_inference app \<or> (\<not> requires_operator (ap_keyring app) \<and> \<not> requires_consumer (ap_keyring app)))"

definition check_serve_auth :: "App \<Rightarrow> Request \<Rightarrow> verdict option" where
  "check_serve_auth app req =
     (if rq_from_unix req \<and> allows_local_harness (ap_posture app) then None
      else if inference_is_open app then None
      else if is_consumer_or_better (ap_keyring app) (bearer req) then None
      else Some (Denied 401 ''missing or invalid api key''))"

fun split_at_sub :: "string \<Rightarrow> string \<Rightarrow> (string \<times> string) option" where
  "split_at_sub p [] = (if p = [] then Some ([], []) else None)"
| "split_at_sub p (c # s) =
     (case strip_prefix p (c # s) of
        Some rest \<Rightarrow> Some ([], rest)
      | None \<Rightarrow> map_option (\<lambda>(a, b). (c # a, b)) (split_at_sub p s))"

definition host_is_loopback :: "string \<Rightarrow> bool" where
  "host_is_loopback host =
     (let name = (case strip_prefix ''['' host of
                    Some rest \<Rightarrow> hd (split_on (CHR '']'') rest)
                  | None \<Rightarrow> (case rsplit_once (CHR '':'') host of Some (name, _) \<Rightarrow> name | None \<Rightarrow> host))
      in eq_ignore_case name ''localhost'' \<or> name = ''::1'' \<or>
         (case read_ipv4 name of Some (a # _, []) \<Rightarrow> a = 127 | _ \<Rightarrow> False))"

definition origin_host :: "string \<Rightarrow> string" where
  "origin_host origin =
     trim_end_matches ''/'' (case split_at_sub ''://'' origin of Some (_, rest) \<Rightarrow> rest | None \<Rightarrow> origin)"

definition check_origin :: "App \<Rightarrow> Request \<Rightarrow> verdict option" where
  "check_origin app req =
     (if rq_from_unix req then None
      else let host = (case header req ''host'' of None \<Rightarrow> [] | Some h \<Rightarrow> h);
               foreign = (case header req ''origin'' of
                            None \<Rightarrow> False
                          | Some origin \<Rightarrow> origin = ''null'' \<or> host = [] \<or> \<not> eq_ignore_case (origin_host origin) host);
               keyless = (\<not> requires_operator (ap_keyring app) \<and> \<not> requires_consumer (ap_keyring app))
      in if foreign then Some (Denied 403 ''cross-origin request refused'')
         else if keyless \<and> host \<noteq> [] \<and> \<not> host_is_loopback host
         then Some (Denied 403 ''a keyless daemon answers only to a loopback Host; configure a console key'')
         else None)"

definition check_engines_auth :: "App \<Rightarrow> Request \<Rightarrow> verdict option" where
  "check_engines_auth app req =
     (if rq_from_unix req \<and> allows_local_harness (ap_posture app) then None
      else if \<not> requires_operator (ap_keyring app) \<and> \<not> requires_consumer (ap_keyring app) then None
      else if is_consumer_or_better (ap_keyring app) (bearer req) then None
      else Some (Denied 401 ''missing or invalid api key''))"

definition check_auth :: "App \<Rightarrow> Request \<Rightarrow> verdict option" where
  "check_auth app req =
     (if rq_from_unix req \<and> allows_local_harness (ap_posture app) then None
      else if \<not> requires_operator (ap_keyring app) then None
      else if is_operator (ap_keyring app) (bearer req) then None
      else Some (Denied 401 ''operator credential required''))"

definition check_farm_auth :: "App \<Rightarrow> Request \<Rightarrow> verdict option" where
  "check_farm_auth app req =
     (case ap_farm_token app of
        None \<Rightarrow> Some (Denied 403 ''hub is not accepting registrations (no farm token configured)'')
      | Some key \<Rightarrow>
          if key_matches (bearer req) key then None else Some (Denied 401 ''missing or invalid farm token''))"

definition WINDOW_SECONDS :: nat where "WINDOW_SECONDS = 60"
definition PAIRING_REQUESTS_PER_WINDOW :: u32 where "PAIRING_REQUESTS_PER_WINDOW = 10"
definition INVALID_AUTH_REQUESTS_PER_WINDOW :: u32 where "INVALID_AUTH_REQUESTS_PER_WINDOW = 30"
definition INFERENCE_REQUESTS_PER_WINDOW :: u32 where "INFERENCE_REQUESTS_PER_WINDOW = 600"
definition CONTROL_REQUESTS_PER_WINDOW :: u32 where "CONTROL_REQUESTS_PER_WINDOW = 300"
definition PUBLIC_REQUESTS_PER_WINDOW :: u32 where "PUBLIC_REQUESTS_PER_WINDOW = 300"

definition first_is :: "string \<Rightarrow> string list \<Rightarrow> bool" where
  "first_is s segs = (case segs of [] \<Rightarrow> False | x # _ \<Rightarrow> x = s)"

definition rate_class :: "App \<Rightarrow> Request \<Rightarrow> string list \<Rightarrow> string \<times> u32" where
  "rate_class app req segs =
     (let authenticated = (role_of (ap_keyring app) (bearer req) \<noteq> None);
          protected = (first_is ''api'' segs \<or> first_is ''hub'' segs \<or> first_is ''v1'' segs);
          intentionally_open = ((first_is ''v1'' segs \<and> inference_is_open app) \<or>
                                (first_is ''api'' segs \<and> \<not> requires_operator (ap_keyring app)))
      in if segs = [''hub'', ''pair''] then (''pair'', PAIRING_REQUESTS_PER_WINDOW)
         else if protected \<and> \<not> authenticated \<and> \<not> intentionally_open then (''auth'', INVALID_AUTH_REQUESTS_PER_WINDOW)
         else if first_is ''v1'' segs then (''inference'', INFERENCE_REQUESTS_PER_WINDOW)
         else if protected then (''control'', CONTROL_REQUESTS_PER_WINDOW)
         else (''public'', PUBLIC_REQUESTS_PER_WINDOW))"

definition check_request_rate :: "time \<Rightarrow> App \<Rightarrow> Request \<Rightarrow> string list \<Rightarrow> verdict option \<times> App" where
  "check_request_rate now app req segs =
     (if rq_from_unix req then (None, app)
      else let client = (case rq_peer_ip req of None \<Rightarrow> ''unknown'' | Some ip \<Rightarrow> show_ip ip);
               (cls, limit) = rate_class app req segs
      in case allow_at (client @ '':'' @ cls) limit (secs WINDOW_SECONDS) now (ap_limits app) of
           (ok, limits) \<Rightarrow>
             (if ok then None else Some (Denied 429 ''request rate limit exceeded''), app\<lparr>ap_limits := limits\<rparr>))"

definition route_v1 :: "App \<Rightarrow> Request \<Rightarrow> string list \<Rightarrow> verdict \<times> App" where
  "route_v1 app req rest =
     (if rq_method req = ''GET'' \<and> rest = [''models''] then (Handle ListModels, app)
      else if rq_method req = ''POST'' \<and>
              rest \<in> {[''chat'', ''completions''], [''completions''], [''embeddings'']}
      then (case drain_admit (ap_drain app) of
              (None, d) \<Rightarrow> (Denied 503 ''node is draining'', app\<lparr>ap_drain := d\<rparr>)
            | (Some generation, d) \<Rightarrow> (Handle (Proxy rest generation), app\<lparr>ap_drain := d\<rparr>))
      else (Denied 404 ''unknown /v1 route'', app))"

definition gated :: "verdict option \<Rightarrow> handler \<Rightarrow> verdict" where
  "gated denied h = (case denied of Some d \<Rightarrow> d | None \<Rightarrow> Handle h)"

text \<open>\<open>paired\<close> is whether the heartbeat's node id and bearer token are those of a paired device.\<close>

definition route_hub :: "bool \<Rightarrow> App \<Rightarrow> Request \<Rightarrow> string list \<Rightarrow> verdict" where
  "route_hub paired app req rest =
     (let post = (rq_method req = ''POST''); get = (rq_method req = ''GET''); del = (rq_method req = ''DELETE'') in
      case rest of
        [a] \<Rightarrow>
          if post \<and> a = ''pairings'' then gated (check_auth app req) BeginPairing
          else if post \<and> a = ''pair'' then Handle Pair
          else if post \<and> a = ''register'' then gated (check_farm_auth app req) RegisterNode
          else if post \<and> a = ''heartbeat'' then
            (if paired then Handle (Heartbeat True) else gated (check_farm_auth app req) (Heartbeat False))
          else if get \<and> a = ''nodes'' then gated (check_auth app req) ListNodes
          else if post \<and> a = ''dispatch'' then gated (check_auth app req) DispatchTask
          else Denied 404 ''unknown hub route''
      | [a, i] \<Rightarrow>
          if del \<and> a = ''nodes'' then gated (check_auth app req) (RemoveNode i) else Denied 404 ''unknown hub route''
      | [a, i, b] \<Rightarrow>
          if post \<and> a = ''nodes'' \<and> b = ''servers'' then gated (check_auth app req) (PushServer i)
          else Denied 404 ''unknown hub route''
      | [a, i, b, s] \<Rightarrow>
          if del \<and> a = ''nodes'' \<and> b = ''servers'' then gated (check_auth app req) (StopNodeServer i s)
          else Denied 404 ''unknown hub route''
      | _ \<Rightarrow> Denied 404 ''unknown hub route'')"

definition route_api :: "App \<Rightarrow> Request \<Rightarrow> string list \<Rightarrow> verdict" where
  "route_api app req rest =
     (let m = rq_method req; get = (m = ''GET''); post = (m = ''POST''); del = (m = ''DELETE'');
          unknown = Denied 404 ''unknown API route'' in
      if dr_shutdown (ap_drain app) \<and> \<not> get then Denied 503 ''daemon is shutting down''
      else if rest = [''drain''] then
        (if get then Handle DrainStatus else if del then Handle DrainResume else if post then Handle DrainBegin
         else Denied 405 ''unsupported drain method'')
      else case rest of
        [a] \<Rightarrow>
          if get \<and> a = ''gpus'' then Handle ListGpus
          else if get \<and> a = ''node'' then Handle NodeFacts
          else if get \<and> a = ''engines'' then Handle Engines
          else if get \<and> a = ''capabilities'' then Handle Capabilities
          else if get \<and> a = ''models'' then Handle CachedModels
          else if post \<and> a = ''plan'' then Handle PlanModel
          else if get \<and> a = ''sessions'' then Handle ListSessions
          else if post \<and> a = ''sessions'' then Handle UpsertSession
          else if get \<and> a = ''servers'' then Handle ListServers
          else if post \<and> a = ''servers'' then Handle StartServer
          else unknown
      | [a, i] \<Rightarrow>
          if post \<and> a = ''models'' \<and> i = ''gc'' then Handle CleanModels
          else if del \<and> a = ''models'' then Handle (RemoveModel i)
          else if get \<and> a = ''knossos'' \<and> i = ''sessions'' then Handle ListSessions
          else if post \<and> a = ''knossos'' \<and> i = ''sessions'' then Handle UpsertSession
          else if get \<and> a = ''sessions'' then Handle (GetSession i)
          else if del \<and> a = ''sessions'' then Handle (RemoveSession i)
          else if get \<and> a = ''servers'' then Handle (GetServer i)
          else if del \<and> a = ''servers'' then Handle (StopServer i)
          else unknown
      | [a, i, b] \<Rightarrow>
          if a = ''knossos'' \<and> i = ''sessions'' \<and> get then Handle (GetSession b)
          else if a = ''knossos'' \<and> i = ''sessions'' \<and> del then Handle (RemoveSession b)
          else if a = ''sessions'' \<and> b = ''lease'' \<and> post then Handle (LeaseSession i)
          else if a = ''sessions'' \<and> b = ''lease'' \<and> get then Handle (LeaseStatus i)
          else if a = ''sessions'' \<and> b = ''lease'' \<and> del then Handle (ReleaseLease i)
          else unknown
      | [k, a, i, b] \<Rightarrow>
          if k = ''knossos'' \<and> a = ''sessions'' \<and> b = ''lease'' \<and> post then Handle (LeaseSession i)
          else if k = ''knossos'' \<and> a = ''sessions'' \<and> b = ''vram'' \<and> post then Handle (EnsureVram i)
          else if k = ''knossos'' \<and> a = ''sessions'' \<and> b = ''vram'' \<and> get then Handle (SessionVram i)
          else if k = ''knossos'' \<and> a = ''sessions'' \<and> b = ''vram'' \<and> del then Handle (ReleaseVram i)
          else unknown
      | _ \<Rightarrow> unknown)"

definition public_route :: "App \<Rightarrow> Request \<Rightarrow> string list \<Rightarrow> verdict option" where
  "public_route app req segs =
     (if rq_method req \<noteq> ''GET'' then None
      else if segs = [] then Some (Handle Dashboard)
      else if segs = [''healthz''] then Some (Handle Healthz)
      else if segs = [''readyz''] then Some (Handle Readyz)
      else if segs = [''metrics''] then Some (gated (check_auth app req) Metrics)
      else if segs = [''version''] then Some (Handle Version)
      else None)"

definition discovery_route :: "Request \<Rightarrow> string list \<Rightarrow> bool" where
  "discovery_route req segs =
     (rq_method req = ''GET'' \<and> length segs = 2 \<and> (segs ! 1 = ''engines'' \<or> segs ! 1 = ''capabilities''))"

definition route_request :: "time \<Rightarrow> bool \<Rightarrow> App \<Rightarrow> Request \<Rightarrow> verdict \<times> App" where
  "route_request now paired app req =
     (let segs = segments req in
      case check_origin app req of
        Some denied \<Rightarrow> (denied, app)
      | None \<Rightarrow>
          (case check_request_rate now app req segs of
             (Some denied, app1) \<Rightarrow> (denied, app1)
           | (None, app1) \<Rightarrow>
               (case public_route app1 req segs of
                  Some v \<Rightarrow> (v, app1)
                | None \<Rightarrow>
                    if first_is ''v1'' segs then
                      (case check_serve_auth app1 req of
                         Some denied \<Rightarrow> (denied, app1)
                       | None \<Rightarrow> route_v1 app1 req (tl segs))
                    else if first_is ''hub'' segs then
                      (if \<not> ap_hub_enabled app1 then Denied 404 ''this daemon is not a hub''
                       else route_hub paired app1 req (tl segs), app1)
                    else if first_is ''api'' segs then
                      (if discovery_route req segs
                       then (case check_engines_auth app1 req of Some d \<Rightarrow> d | None \<Rightarrow> route_api app1 req (tl segs))
                       else (case check_auth app1 req of Some d \<Rightarrow> d | None \<Rightarrow> route_api app1 req (tl segs)), app1)
                    else (Denied 404 ''not found'', app1))))"

definition operator_view :: "App \<Rightarrow> Request \<Rightarrow> bool" where
  "operator_view app req =
     ((rq_from_unix req \<and> allows_local_harness (ap_posture app)) \<or> is_operator (ap_keyring app) (bearer req) \<or>
      (\<not> requires_operator (ap_keyring app) \<and> \<not> requires_consumer (ap_keyring app)))"

subsection \<open>Callback addresses\<close>

definition callback_authority :: "string \<Rightarrow> string option" where
  "callback_authority address =
     (case strip_prefix ''https://'' address of
        None \<Rightarrow> None
      | Some rest \<Rightarrow>
          (let authority = trim_end_matches ''/'' rest
           in if authority = [] \<or> CHR ''/'' \<in> set authority \<or> CHR ''@'' \<in> set authority \<or> CHR ''?'' \<in> set authority \<or>
                 CHR 0x23 \<in> set authority then None
              else Some authority))"

fun ip_pushable :: "IpAddr \<Rightarrow> bool" where
  "ip_pushable (V4 a b c d) = (\<not> ((a = 169 \<and> b = 254) \<or> (a = 0 \<and> b = 0 \<and> c = 0 \<and> d = 0)))"
| "ip_pushable (V6 w) = (\<not> (w = 0 \<or> drop_bit 112 w AND 0xffc0 = 0xfe80))"

definition push_address_ok :: "string \<Rightarrow> bool" where
  "push_address_ok address =
     (case callback_authority address of
        None \<Rightarrow> False
      | Some authority \<Rightarrow>
          (case host_of authority of
             None \<Rightarrow> False
           | Some host \<Rightarrow>
               (case parse_ip_literal host of
                  Inr (Some ip) \<Rightarrow> ip_pushable ip
                | Inr None \<Rightarrow> True
                | Inl _ \<Rightarrow> False)))"

section \<open>Who may reach what\<close>

datatype surface = Public | Discovery | Inference | Control | Enrolment | PairedDevice | CodeHolder

fun surface_of :: "handler \<Rightarrow> surface" where
  "surface_of Dashboard = Public"
| "surface_of Healthz = Public"
| "surface_of Readyz = Public"
| "surface_of Version = Public"
| "surface_of ListModels = Inference"
| "surface_of (Proxy _ _) = Inference"
| "surface_of Engines = Discovery"
| "surface_of Capabilities = Discovery"
| "surface_of Pair = CodeHolder"
| "surface_of RegisterNode = Enrolment"
| "surface_of (Heartbeat False) = Enrolment"
| "surface_of (Heartbeat True) = PairedDevice"
| "surface_of _ = Control"

text \<open>The credential a request over the network must carry for a surface.\<close>

definition holds_key :: "App \<Rightarrow> Request \<Rightarrow> (ApiKey \<Rightarrow> bool) \<Rightarrow> bool" where
  "holds_key app req P = (\<exists>k \<in> set (ap_keyring app). P k \<and> bearer req = Some (ak_key k))"

definition credential_ok :: "App \<Rightarrow> Request \<Rightarrow> bool \<Rightarrow> surface \<Rightarrow> bool" where
  "credential_ok app req paired s =
     (case s of
        Public \<Rightarrow> True
      | CodeHolder \<Rightarrow> True
      | PairedDevice \<Rightarrow> paired
      | Enrolment \<Rightarrow> ap_farm_token app \<noteq> None \<and> bearer req = ap_farm_token app
      | Inference \<Rightarrow> ap_open_inference app \<or> holds_key app req (\<lambda>_. True)
      | Discovery \<Rightarrow> holds_key app req (\<lambda>_. True)
      | Control \<Rightarrow> holds_key app req (\<lambda>k. ak_role k = Operator))"

lemma key_matches_iff: "key_matches presented key \<longleftrightarrow> presented = Some key"
proof (cases presented)
  case (Some p)
  have "key_matches presented key = ct_eq p key" unfolding Some key_matches_def ct_eq_def option.case ..
  then show ?thesis by (simp add: Some)
qed (simp add: key_matches_def)

lemma gated_Handle: "gated d h = Handle h' \<longleftrightarrow> d = None \<and> h = h' \<or> d = Some (Handle h')"
  by (auto simp: gated_def split: option.splits)

lemma checks_deny:
  "check_auth app req \<noteq> Some (Handle h)" "check_farm_auth app req \<noteq> Some (Handle h)"
  "check_engines_auth app req \<noteq> Some (Handle h)" "check_serve_auth app req \<noteq> Some (Handle h)"
  "check_origin app req \<noteq> Some (Handle h)" "fst (check_request_rate now app req segs) \<noteq> Some (Handle h)"
  by (auto simp: check_auth_def check_farm_auth_def check_engines_auth_def check_serve_auth_def check_origin_def
      check_request_rate_def Let_def split: option.splits prod.splits if_splits)

text \<open>A request from the network to a daemon with an operator key.\<close>

definition guarded :: "App \<Rightarrow> Request \<Rightarrow> bool" where
  "guarded app req =
     (requires_operator (ap_keyring app) \<and> \<not> (rq_from_unix req \<and> allows_local_harness (ap_posture app)))"

lemma check_auth_guarded: "guarded app req \<Longrightarrow> check_auth app req = None \<Longrightarrow> holds_key app req (\<lambda>k. ak_role k = Operator)"
  by (auto simp: guarded_def check_auth_def holds_key_def split: if_splits dest: is_operator_key)

lemma check_engines_guarded: "guarded app req \<Longrightarrow> check_engines_auth app req = None \<Longrightarrow> holds_key app req (\<lambda>_. True)"
  by (auto simp: guarded_def check_engines_auth_def holds_key_def split: if_splits dest: is_consumer_key)

lemma check_serve_guarded:
  "guarded app req \<Longrightarrow> check_serve_auth app req = None \<Longrightarrow> ap_open_inference app \<or> holds_key app req (\<lambda>_. True)"
  by (auto simp: guarded_def check_serve_auth_def inference_is_open_def holds_key_def split: if_splits dest: is_consumer_key)

lemma check_farm_token: "check_farm_auth app req = None \<Longrightarrow> ap_farm_token app \<noteq> None \<and> bearer req = ap_farm_token app"
  by (auto simp: check_farm_auth_def key_matches_iff split: option.splits if_splits)

lemma route_hub_ok:
  assumes "guarded app req" and "route_hub paired app req rest = Handle h"
  shows "credential_ok app req paired (surface_of h)"
  using assms(2) check_auth_guarded [OF assms(1)] check_farm_token [of app req]
  by (auto simp: route_hub_def Let_def gated_Handle checks_deny credential_ok_def split: list.splits if_splits)

lemma route_api_surface:
  assumes "route_api app req rest = Handle h"
  shows "surface_of h = Control \<or> surface_of h = Discovery \<and> rq_method req = ''GET'' \<and> (rest = [''engines''] \<or> rest = [''capabilities''])"
  using assms by (auto simp: route_api_def Let_def split: list.splits if_splits)

lemma public_route_ok:
  assumes "guarded app req" and "public_route app req segs = Some (Handle h)"
  shows "credential_ok app req paired (surface_of h)"
  using assms(2) check_auth_guarded [OF assms(1)]
  by (auto simp: public_route_def gated_Handle checks_deny credential_ok_def split: if_splits)

lemma route_v1_surface: "route_v1 app req rest = (Handle h, app') \<Longrightarrow> surface_of h = Inference"
  by (auto simp: route_v1_def split: if_splits prod.splits option.splits)

lemma rate_keeps:
  assumes "check_request_rate now app req segs = (r, app1)"
  shows "ap_keyring app1 = ap_keyring app" "ap_posture app1 = ap_posture app" "ap_farm_token app1 = ap_farm_token app"
    "ap_open_inference app1 = ap_open_inference app" "ap_hub_enabled app1 = ap_hub_enabled app" "ap_drain app1 = ap_drain app"
  using assms by (auto simp: check_request_rate_def Let_def split: if_splits prod.splits)

text \<open>A handler is reached only through the stages before it.\<close>

lemma route_request_cases:
  assumes "route_request now paired app req = (Handle h, app')"
  obtains app1 where "check_origin app req = None" "check_request_rate now app req (segments req) = (None, app1)"
    "public_route app1 req (segments req) = Some (Handle h) \<or>
     (check_serve_auth app1 req = None \<and> (\<exists>app2. route_v1 app1 req (tl (segments req)) = (Handle h, app2))) \<or>
     (ap_hub_enabled app1 \<and> route_hub paired app1 req (tl (segments req)) = Handle h) \<or>
     (discovery_route req (segments req) \<and> check_engines_auth app1 req = None \<and> route_api app1 req (tl (segments req)) = Handle h) \<or>
     (\<not> discovery_route req (segments req) \<and> check_auth app1 req = None \<and> route_api app1 req (tl (segments req)) = Handle h)"
proof -
  have o: "check_origin app req = None"
    using assms checks_deny(5) [of app req h] by (auto simp: route_request_def Let_def split: option.splits)
  obtain r app1 where r: "check_request_rate now app req (segments req) = (r, app1)"
    by (cases "check_request_rate now app req (segments req)")
  have "r = None"
    using assms o r checks_deny(6) [of now app req "segments req" h] by (auto simp: route_request_def Let_def split: option.splits)
  with o r assms that show ?thesis
    by (auto simp: route_request_def Let_def checks_deny split: option.splits if_splits)
qed

lemma discovery_tl: "discovery_route req segs \<Longrightarrow> tl segs = [''engines''] \<or> tl segs = [''capabilities'']"
  by (cases segs; cases "tl segs") (auto simp: discovery_route_def)

definition sample_app :: App where
  "sample_app =
     \<lparr>ap_keyring = [\<lparr>ak_key = ''op'', ak_role = Operator, ak_label = ''o''\<rparr>], ap_posture = MultiTenant,
      ap_hub_enabled = False, ap_farm_token = None, ap_open_inference = False, ap_limits = limiter_new,
      ap_drain = drain_default\<rparr>"

definition sample_get :: Request where
  "sample_get =
     \<lparr>rq_method = ''GET'', rq_path = ''/api/servers'', rq_query = [],
      rq_headers = [(''authorization'', ''Bearer op''), (''host'', ''box:1''), (''origin'', ''http://BOX:1/'')], rq_body = [],
      rq_from_unix = False, rq_peer_ip = None\<rparr>"

lemma sample_route: "fst (route_request 0 False sample_app sample_get) = Handle ListServers"
proof -
  have segs: "segments sample_get = [''api'', ''servers'']" by (simp add: segments_def sample_get_def)
  have b: "bearer sample_get = Some ''op''" by code_simp
  have o: "check_origin sample_app sample_get = None" by code_simp
  have "rate_class sample_app sample_get [''api'', ''servers''] = (''control'', 300)"
    by (simp add: rate_class_def b first_is_def sample_app_def role_of_def Let_def CONTROL_REQUESTS_PER_WINDOW_def)
  then have r: "fst (check_request_rate 0 sample_app sample_get [''api'', ''servers'']) = None"
    by (simp add: check_request_rate_def sample_get_def sample_app_def allow_at_def limiter_new_def Let_def map_laws MAX_IDENTITIES_def)
  obtain app1 where a: "check_request_rate 0 sample_app sample_get [''api'', ''servers''] = (None, app1)"
    using r by (cases "check_request_rate 0 sample_app sample_get [''api'', ''servers'']") auto
  note k = rate_keeps [OF a]
  have "check_auth app1 sample_get = None" by (simp add: check_auth_def k b is_operator_def role_of_def sample_app_def)
  moreover have "public_route app1 sample_get [''api'', ''servers''] = None" by (simp add: public_route_def)
  moreover have "route_api app1 sample_get [''servers''] = Handle ListServers"
    by (simp add: route_api_def k sample_app_def sample_get_def drain_default_def Let_def)
  ultimately show ?thesis by (simp add: route_request_def segs o a first_is_def discovery_route_def Let_def)
qed

text \<open>The documented form \<open>::1\<close> without brackets or port is not recognised as loopback.\<close>

lemma bare_loopback_unrecognised: "\<not> host_is_loopback ''::1'' \<and> host_is_loopback ''[::1]'' \<and> host_is_loopback ''[::1]:8080''"
  by code_simp

text \<open>The link-local rule for callbacks refuses the literal IPv4 form and lets the IPv4-mapped IPv6 form of
  the same address pass.\<close>

lemma read_octets_numeral:
  "read_octets (numeral k) first s =
     (case read_sep (CHR ''.'') first read_octet s of None \<Rightarrow> None
      | Some (v, rest) \<Rightarrow>
          (case read_octets (pred_numeral k) False rest of None \<Rightarrow> None | Some (vs, r) \<Rightarrow> Some (v # vs, r)))"
  by (simp add: numeral_eq_Suc)

lemma read_groups_numeral:
  "read_groups (numeral k) first s =
     (case (if 0 < pred_numeral k then read_sep (CHR '':'') first read_ipv4 s else None) of
        Some ([a, b, c, d], rest) \<Rightarrow> ([a * 256 + b, c * 256 + d], True, rest)
      | _ \<Rightarrow>
        (case read_sep (CHR '':'') first read_group s of
           None \<Rightarrow> ([], False, s)
         | Some (g, rest) \<Rightarrow>
             (case read_groups (pred_numeral k) False rest of (gs, v4, r) \<Rightarrow> (g # gs, v4, r))))"
  by (simp add: numeral_eq_Suc)

lemmas literal_eval = read_ipv4_def read_octets_numeral read_sep_def read_octet_def read_number_def is_digit_def
  read_group_def is_hexdigit_def hex_value_def Let_def

lemma mapped_parts:
  "read_ipv4 ''::ffff:169.254.169.254'' = None" "read_ipv4 ''ffff:169.254.169.254'' = None"
  "read_ipv4 ''169.254.169.254'' = Some ([169, 254, 169, 254], [])"
  "read_group ''ffff:169.254.169.254'' = Some (65535, '':169.254.169.254'')" "read_group ''::ffff:169.254.169.254'' = None"
  by (simp_all add: literal_eval)

lemma mapped_groups:
  "read_groups 8 True ''::ffff:169.254.169.254'' = ([], False, ''::ffff:169.254.169.254'')"
  "read_groups 7 True ''ffff:169.254.169.254'' = ([65535, 43518, 43518], True, [])"
  by (simp_all add: read_groups_numeral read_sep_def mapped_parts)

lemma mapped_literal: "parse_ipv6 ''::ffff:169.254.169.254'' = Some 0xffffa9fea9fe"
proof -
  have "replicate 5 (0 :: nat) = [0, 0, 0, 0, 0]" by (simp add: numeral_eq_Suc)
  then show ?thesis by (simp add: parse_ipv6_def read_ipv6_def mapped_groups ipv6_word_def)
qed

lemma mapped_link_local_accepted:
  "\<not> push_address_ok ''https://169.254.169.254'' \<and> push_address_ok ''https://[::ffff:169.254.169.254]''"
proof
  have "callback_authority ''https://169.254.169.254'' = Some ''169.254.169.254''" by code_simp
  moreover have "parse_ip ''169.254.169.254'' = Some (V4 169 254 169 254)" by (simp add: parse_ip_def mapped_parts)
  ultimately show "\<not> push_address_ok ''https://169.254.169.254''"
    by (simp add: push_address_ok_def host_of_def parse_ip_literal_def)
  have "callback_authority ''https://[::ffff:169.254.169.254]'' = Some ''[::ffff:169.254.169.254]''" by code_simp
  moreover have "host_of ''[::ffff:169.254.169.254]'' = Some ''::ffff:169.254.169.254''"
    by (simp add: host_of_def split_once_def mapped_literal)
  moreover have "parse_ip ''::ffff:169.254.169.254'' = Some (V6 0xffffa9fea9fe)"
    by (simp add: parse_ip_def mapped_parts mapped_literal)
  ultimately show "push_address_ok ''https://[::ffff:169.254.169.254]''"
    by (simp add: push_address_ok_def parse_ip_literal_def)
qed

section \<open>Properties\<close>

text \<open>C2. Every handler is behind its credential.  On a daemon with an operator key, a request that does
  not come over the trusted local socket reaches a handler only with the credential of its surface: an
  operator key for everything that controls the node or the fleet, some configured key for discovery and
  (unless opened on purpose) inference, the configured farm token for enrolment, a paired device's own
  credential for its heartbeat.\<close>

theorem handlers_authorised:
  assumes "guarded app req" and "route_request now paired app req = (Handle h, app')"
  shows "credential_ok app req paired (surface_of h)"
  using assms(2)
proof (rule route_request_cases)
  fix app1
  assume "check_request_rate now app req (segments req) = (None, app1)"
  note k = rate_keeps [OF this]
  have g: "guarded app1 req" using assms(1) k by (simp add: guarded_def)
  have c: "credential_ok app1 req paired s = credential_ok app req paired s" for s
    by (cases s) (simp_all add: credential_ok_def holds_key_def k)
  let ?segs = "segments req"
  assume "public_route app1 req ?segs = Some (Handle h) \<or>
     (check_serve_auth app1 req = None \<and> (\<exists>app2. route_v1 app1 req (tl ?segs) = (Handle h, app2))) \<or>
     (ap_hub_enabled app1 \<and> route_hub paired app1 req (tl ?segs) = Handle h) \<or>
     (discovery_route req ?segs \<and> check_engines_auth app1 req = None \<and> route_api app1 req (tl ?segs) = Handle h) \<or>
     (\<not> discovery_route req ?segs \<and> check_auth app1 req = None \<and> route_api app1 req (tl ?segs) = Handle h)"
  then have "credential_ok app1 req paired (surface_of h)"
  proof (elim disjE conjE exE)
    assume "public_route app1 req ?segs = Some (Handle h)"
    with g show ?thesis by (rule public_route_ok)
  next
    fix app2
    assume "check_serve_auth app1 req = None" "route_v1 app1 req (tl ?segs) = (Handle h, app2)"
    with check_serve_guarded [OF g] route_v1_surface show ?thesis by (simp add: credential_ok_def)
  next
    assume "route_hub paired app1 req (tl ?segs) = Handle h"
    with g show ?thesis by (rule route_hub_ok)
  next
    assume d: "discovery_route req ?segs" "check_engines_auth app1 req = None" "route_api app1 req (tl ?segs) = Handle h"
    then have "surface_of h = Discovery"
      using discovery_tl [OF d(1)] by (auto simp: route_api_def Let_def discovery_route_def split: if_splits)
    with check_engines_guarded [OF g d(2)] show ?thesis by (simp add: credential_ok_def)
  next
    assume d: "\<not> discovery_route req ?segs" "check_auth app1 req = None" "route_api app1 req (tl ?segs) = Handle h"
    have "surface_of h = Control"
      using route_api_surface [OF d(3)] d(1) by (cases ?segs) (auto simp: discovery_route_def)
    with check_auth_guarded [OF g d(2)] show ?thesis by (simp add: credential_ok_def)
  qed
  then show ?thesis by (simp add: c)
qed

theorem handlers_authorised_witness: "credential_ok sample_app sample_get False Control"
proof -
  obtain app' where "route_request 0 False sample_app sample_get = (Handle ListServers, app')"
    using sample_route by (cases "route_request 0 False sample_app sample_get") auto
  moreover have "guarded sample_app sample_get" by (simp add: guarded_def sample_app_def sample_get_def requires_operator_def)
  ultimately show ?thesis using handlers_authorised by fastforce
qed

subsection \<open>Origins and hosts\<close>
























end
