(* ===== verification/Farm.thy ===== *)
theory Farm
  imports Access
begin

text \<open>
  \<open>cameod/src/hub.rs\<close>: the hub's registry of nodes, and the \<open>/hub/pair\<close> and \<open>/hub/heartbeat\<close> handlers of
  \<open>cameod/src/app.rs\<close> that drive it.  Node descriptions are abstract JSON values; the JSON library is the
  parameter \<open>FarmJson\<close>, SHA-256 the parameter \<open>hash\<close>, and what the file system answered to a save is the
  argument \<open>FarmIo\<close>.  Of the state file the contents are kept; its metadata is an argument of \<open>farm_open\<close>.
  The Windows branches are not modelled.
\<close>

section \<open>Model\<close>

definition ONLINE_WINDOW :: time where "ONLINE_WINDOW = secs 45"
definition DROP_AFTER :: time where "DROP_AFTER = secs (15 * 60)"
definition MAX_NODES :: nat where "MAX_NODES = 10000"
definition MAX_NODE_ID_LEN :: nat where "MAX_NODE_ID_LEN = 256"
definition MAX_NODE_BLOB_BYTES :: nat where "MAX_NODE_BLOB_BYTES = 64 * 1024"
definition MAX_FARM_STATE_BYTES :: nat where "MAX_FARM_STATE_BYTES = 4 * 1024 * 1024"
definition FARM_STATE_VERSION :: u32 where "FARM_STATE_VERSION = 1"

record 'v Registration =
  rg_node_id :: string
  rg_name :: string
  rg_address :: string
  rg_key :: "string option"
  rg_cameo_version :: string
  rg_node :: 'v

datatype Enrollment = LegacyToken | Paired "u8 list" string

definition trust_name :: "Enrollment \<Rightarrow> string" where
  "trust_name e = (case e of LegacyToken \<Rightarrow> ''legacy_token'' | Paired _ _ \<Rightarrow> ''paired'')"

definition is_paired :: "Enrollment \<Rightarrow> bool" where
  "is_paired e = (e \<noteq> LegacyToken)"

record 'v Enrolled =
  en_reg :: "'v Registration"
  en_last_seen :: time
  en_enrollment :: Enrollment

record 'v Farm =
  fm_inner :: "(string, 'v Enrolled) btree_map"
  fm_file :: "string option option"

datatype HeartbeatAuth = LegacyAuth | PairedAuth

record 'v PersistedNode =
  pn_reg :: "'v Registration"
  pn_enrollment :: Enrollment

record 'v PersistedFarm =
  ps_version :: u32
  ps_nodes :: "'v PersistedNode list"

text \<open>\<open>fj_len\<close> is the length of a value's JSON text.\<close>

record 'v FarmJson =
  fj_null :: 'v
  fj_len :: "'v \<Rightarrow> nat option"
  fj_write :: "'v PersistedFarm \<Rightarrow> string option"
  fj_read :: "string \<Rightarrow> 'v PersistedFarm option"

record FarmIo =
  fo_dir :: bool
  fo_create :: bool
  fo_write :: bool
  fo_rename :: bool
  fo_sync :: bool

datatype farm_error =
    Uninspectable | IrregularFile | OpenToOthers | Unread | Unparsed | BadVersion | TooManyNodes | NotPaired
  | BadNodeId string | FarmSerialise | FarmTooLarge | DirFailed | TempFailed | WriteError | CommitFailed | FarmSyncFailed
  | AlreadyEnrolled string

definition farm_new :: "'v Farm" where
  "farm_new = \<lparr>fm_inner = [], fm_file = None\<rparr>"

definition pick_id :: "'v Registration \<Rightarrow> string" where
  "pick_id reg =
     (case filter (\<lambda>s. s \<noteq> []) (map trim [rg_node_id reg, rg_name reg, rg_address reg]) of
        [] \<Rightarrow> ''node''
      | s # _ \<Rightarrow> s)"

definition is_char_boundary :: "string \<Rightarrow> nat \<Rightarrow> bool" where
  "is_char_boundary s i =
     (i = 0 \<or> i = length s \<or> (i < length s \<and> \<not> (128 \<le> ccode (s ! i) \<and> ccode (s ! i) < 192)))"

fun boundary_below :: "string \<Rightarrow> nat \<Rightarrow> nat" where
  "boundary_below s 0 = 0"
| "boundary_below s (Suc i) = (if is_char_boundary s (Suc i) then Suc i else boundary_below s i)"

definition cap_id_len :: "string \<Rightarrow> string" where
  "cap_id_len s = (if MAX_NODE_ID_LEN < length s then take (boundary_below s MAX_NODE_ID_LEN) s else s)"

definition blob_too_big :: "'v FarmJson \<Rightarrow> 'v \<Rightarrow> bool" where
  "blob_too_big fj node =
     (if node = fj_null fj then False
      else case fj_len fj node of None \<Rightarrow> True | Some n \<Rightarrow> MAX_NODE_BLOB_BYTES < n)"

definition farm_prune :: "time \<Rightarrow> (string, 'v Enrolled) btree_map \<Rightarrow> (string, 'v Enrolled) btree_map" where
  "farm_prune now m = bt_retain (\<lambda>_ e. is_paired (en_enrollment e) \<or> now - en_last_seen e < DROP_AFTER) m"

definition evict_oldest :: "(string, 'v Enrolled) btree_map \<Rightarrow> (string, 'v Enrolled) btree_map" where
  "evict_oldest m =
     (case first_min (\<lambda>(_, e). en_last_seen e) m of None \<Rightarrow> m | Some (k, _) \<Rightarrow> bt_remove k m)"

definition normalised :: "'v FarmJson \<Rightarrow> 'v Registration \<Rightarrow> 'v Registration" where
  "normalised fj reg =
     (let reg1 = reg\<lparr>rg_node_id := cap_id_len (pick_id reg)\<rparr>
      in if blob_too_big fj (rg_node reg1) then reg1\<lparr>rg_node := fj_null fj\<rparr> else reg1)"

definition register :: "'v FarmJson \<Rightarrow> time \<Rightarrow> 'v Registration \<Rightarrow> 'v Farm \<Rightarrow> string \<times> 'v Farm" where
  "register fj now reg0 farm =
     (let reg = normalised fj reg0; i = rg_node_id reg; m = farm_prune now (fm_inner farm)
      in case bt_get m i of
           Some e \<Rightarrow>
             if is_paired (en_enrollment e) then (i, farm\<lparr>fm_inner := m\<rparr>)
             else (i, farm\<lparr>fm_inner := bt_insert i
                    (e\<lparr>en_last_seen := now,
                       en_reg := (en_reg e)\<lparr>rg_name := rg_name reg, rg_cameo_version := rg_cameo_version reg, rg_node := rg_node reg\<rparr>\<rparr>) m\<rparr>)
         | None \<Rightarrow>
             (let m1 = (if MAX_NODES \<le> length m then evict_oldest m else m)
              in (i, farm\<lparr>fm_inner := bt_insert i \<lparr>en_reg = reg, en_last_seen = now, en_enrollment = LegacyToken\<rparr> m1\<rparr>)))"

definition persist_state :: "'v FarmJson \<Rightarrow> FarmIo \<Rightarrow> 'v PersistedFarm \<Rightarrow> string option \<Rightarrow> farm_error option \<times> string option" where
  "persist_state fj io state file =
     (case fj_write fj state of
        None \<Rightarrow> (Some FarmSerialise, file)
      | Some payload \<Rightarrow>
          if MAX_FARM_STATE_BYTES < length payload then (Some FarmTooLarge, file)
          else if \<not> fo_dir io then (Some DirFailed, file)
          else if \<not> fo_create io then (Some TempFailed, file)
          else if \<not> fo_write io then (Some WriteError, file)
          else if \<not> fo_rename io then (Some CommitFailed, file)
          else (if fo_sync io then None else Some FarmSyncFailed, Some payload))"

definition persisted_of :: "'v FarmJson \<Rightarrow> (string, 'v Enrolled) btree_map \<Rightarrow> 'v PersistedFarm" where
  "persisted_of fj m =
     \<lparr>ps_version = FARM_STATE_VERSION,
      ps_nodes = map (\<lambda>(_, e). \<lparr>pn_reg = (en_reg e)\<lparr>rg_node := fj_null fj\<rparr>, pn_enrollment = en_enrollment e\<rparr>)
        (filter (\<lambda>(_, e). is_paired (en_enrollment e)) m)\<rparr>"

definition persist_locked :: "'v FarmJson \<Rightarrow> FarmIo \<Rightarrow> 'v Farm \<Rightarrow> farm_error option \<times> 'v Farm" where
  "persist_locked fj io farm =
     (case fm_file farm of
        None \<Rightarrow> (None, farm)
      | Some file \<Rightarrow>
          (case persist_state fj io (persisted_of fj (fm_inner farm)) file of
             (r, file') \<Rightarrow> (r, farm\<lparr>fm_file := Some file'\<rparr>)))"

definition farm_pair ::
    "'v FarmJson \<Rightarrow> FarmIo \<Rightarrow> time \<Rightarrow> 'v Registration \<Rightarrow> u8 list \<Rightarrow> string \<Rightarrow> 'v Farm \<Rightarrow> (farm_error + string) \<times> 'v Farm" where
  "farm_pair fj io now reg0 digest label farm =
     (let reg = normalised fj reg0; i = rg_node_id reg; m = farm_prune now (fm_inner farm)
      in if bt_get m i \<noteq> None then (Inl (AlreadyEnrolled i), farm\<lparr>fm_inner := m\<rparr>)
         else let m1 = (if MAX_NODES \<le> length m then evict_oldest m else m);
                  m2 = bt_insert i \<lparr>en_reg = reg, en_last_seen = now, en_enrollment = Paired digest label\<rparr> m1
         in case persist_locked fj io (farm\<lparr>fm_inner := m2\<rparr>) of
              (Some e, farm1) \<Rightarrow> (Inl e, farm1\<lparr>fm_inner := bt_remove i m2\<rparr>)
            | (None, farm1) \<Rightarrow> (Inr i, farm1))"

definition authenticate_paired :: "(string \<Rightarrow> u8 list) \<Rightarrow> string \<Rightarrow> string option \<Rightarrow> 'v Farm \<Rightarrow> bool" where
  "authenticate_paired hash node_id credential farm =
     (case credential of
        None \<Rightarrow> False
      | Some c \<Rightarrow>
          (case map_option en_enrollment (bt_get (fm_inner farm) node_id) of
             Some (Paired digest _) \<Rightarrow> credential_matches hash digest c
           | _ \<Rightarrow> False))"

definition auth_fits :: "Enrollment \<Rightarrow> HeartbeatAuth \<Rightarrow> bool" where
  "auth_fits e auth = (is_paired e \<longleftrightarrow> auth = PairedAuth)"

definition heartbeat :: "'v FarmJson \<Rightarrow> time \<Rightarrow> string \<Rightarrow> 'v option \<Rightarrow> HeartbeatAuth \<Rightarrow> 'v Farm \<Rightarrow> bool \<times> 'v Farm" where
  "heartbeat fj now node_id node auth farm =
     (let m = farm_prune now (fm_inner farm)
      in case bt_get m node_id of
           None \<Rightarrow> (False, farm\<lparr>fm_inner := m\<rparr>)
         | Some e \<Rightarrow>
             if \<not> auth_fits (en_enrollment e) auth then (False, farm\<lparr>fm_inner := m\<rparr>)
             else let e1 = e\<lparr>en_last_seen := now\<rparr>;
                      e2 = (case node of
                              None \<Rightarrow> e1
                            | Some n \<Rightarrow> if n \<noteq> fj_null fj \<and> \<not> blob_too_big fj n
                                        then e1\<lparr>en_reg := (en_reg e1)\<lparr>rg_node := n\<rparr>\<rparr> else e1)
             in (True, farm\<lparr>fm_inner := bt_insert node_id e2 m\<rparr>))"

definition farm_remove :: "'v FarmJson \<Rightarrow> FarmIo \<Rightarrow> string \<Rightarrow> 'v Farm \<Rightarrow> (farm_error + bool) \<times> 'v Farm" where
  "farm_remove fj io node_id farm =
     (case bt_get (fm_inner farm) node_id of
        None \<Rightarrow> (Inr False, farm)
      | Some e \<Rightarrow>
          (let m = bt_remove node_id (fm_inner farm)
           in case persist_locked fj io (farm\<lparr>fm_inner := m\<rparr>) of
                (Some err, farm1) \<Rightarrow> (Inl err, farm1\<lparr>fm_inner := bt_insert node_id e m\<rparr>)
              | (None, farm1) \<Rightarrow> (Inr True, farm1)))"

text \<open>\<open>tag\<close> is the insertion of the hub's own trust note into a description that is a JSON object.\<close>

definition online_descriptions :: "('v \<Rightarrow> string \<Rightarrow> 'v) \<Rightarrow> time \<Rightarrow> 'v Farm \<Rightarrow> (string \<times> 'v) list \<times> 'v Farm" where
  "online_descriptions tag now farm =
     (let m = farm_prune now (fm_inner farm)
      in (map (\<lambda>(_, e). (rg_node_id (en_reg e), tag (rg_node (en_reg e)) (trust_name (en_enrollment e))))
            (filter (\<lambda>(_, e). now - en_last_seen e < ONLINE_WINDOW) m), farm\<lparr>fm_inner := m\<rparr>))"

definition push_target :: "string \<Rightarrow> 'v Farm \<Rightarrow> (string \<times> string option) option" where
  "push_target node_id farm = map_option (\<lambda>e. (rg_address (en_reg e), rg_key (en_reg e))) (bt_get (fm_inner farm) node_id)"

record 'v NodeRow =
  nr_node_id :: string
  nr_name :: string
  nr_address :: string
  nr_cameo_version :: string
  nr_trust :: string
  nr_pairing_label :: "string option"
  nr_online :: bool
  nr_age_secs :: nat
  nr_node :: 'v

definition node_row :: "time \<Rightarrow> 'v Enrolled \<Rightarrow> 'v NodeRow" where
  "node_row now e =
     (let reg = en_reg e; age = now - en_last_seen e
      in \<lparr>nr_node_id = rg_node_id reg, nr_name = (if rg_name reg = [] then rg_node_id reg else rg_name reg),
          nr_address = rg_address reg, nr_cameo_version = rg_cameo_version reg, nr_trust = trust_name (en_enrollment e),
          nr_pairing_label = (case en_enrollment e of Paired _ label \<Rightarrow> Some label | LegacyToken \<Rightarrow> None),
          nr_online = (age < ONLINE_WINDOW), nr_age_secs = age div secs 1, nr_node = rg_node reg\<rparr>)"

definition farm_list :: "time \<Rightarrow> 'v Farm \<Rightarrow> 'v NodeRow list \<times> 'v Farm" where
  "farm_list now farm =
     (let m = farm_prune now (fm_inner farm) in (map (node_row now \<circ> snd) m, farm\<lparr>fm_inner := m\<rparr>))"

datatype found = Missing | FoundError | Found Metadata

definition load_state :: "'v FarmJson \<Rightarrow> found \<Rightarrow> string option \<Rightarrow> farm_error + 'v PersistedFarm" where
  "load_state fj metadata contents =
     (case metadata of
        Missing \<Rightarrow> Inr \<lparr>ps_version = FARM_STATE_VERSION, ps_nodes = []\<rparr>
      | FoundError \<Rightarrow> Inl Uninspectable
      | Found md \<Rightarrow>
          if md_is_symlink md \<or> \<not> md_is_file md \<or> MAX_FARM_STATE_BYTES < unat (md_len md) then Inl IrregularFile
          else if md_mode md AND 0x3F \<noteq> 0 then Inl OpenToOthers
          else case contents of
            None \<Rightarrow> Inl Unread
          | Some bytes \<Rightarrow>
              (case fj_read fj bytes of
                 None \<Rightarrow> Inl Unparsed
               | Some state \<Rightarrow> if ps_version state \<noteq> FARM_STATE_VERSION then Inl BadVersion else Inr state))"

fun load_nodes :: "time \<Rightarrow> 'v PersistedNode list \<Rightarrow> (string, 'v Enrolled) btree_map \<Rightarrow> farm_error + (string, 'v Enrolled) btree_map" where
  "load_nodes stale [] m = Inr m"
| "load_nodes stale (n # ns) m =
     (if \<not> is_paired (pn_enrollment n) then Inl NotPaired
      else let i = cap_id_len (pick_id (pn_reg n))
      in if i \<noteq> rg_node_id (pn_reg n) \<or> bt_get m i \<noteq> None then Inl (BadNodeId i)
         else load_nodes stale ns
           (bt_insert i \<lparr>en_reg = pn_reg n, en_last_seen = stale, en_enrollment = pn_enrollment n\<rparr> m))"

text \<open>\<open>now.checked_sub(ONLINE_WINDOW)\<close>: time 0 is the earliest instant the platform's monotonic clock can
  represent.  Where instants may precede the clock's start (as on Linux) every reading is far above it and
  the fallback is never taken.\<close>

definition farm_open :: "'v FarmJson \<Rightarrow> time \<Rightarrow> found \<Rightarrow> string option \<Rightarrow> farm_error + 'v Farm" where
  "farm_open fj now metadata contents =
     (case load_state fj metadata contents of
        Inl e \<Rightarrow> Inl e
      | Inr state \<Rightarrow>
          if MAX_NODES < length (ps_nodes state) then Inl TooManyNodes
          else let stale = (if now < ONLINE_WINDOW then now else now - ONLINE_WINDOW)
          in case load_nodes stale (ps_nodes state) [] of
               Inl e \<Rightarrow> Inl e
             | Inr m \<Rightarrow> Inr \<lparr>fm_inner = m, fm_file = Some contents\<rparr>)"

subsection \<open>The pairing and heartbeat handlers\<close>

record 'v PairRequest =
  pr_code :: string
  pr_registration :: "'v Registration"

datatype pair_reply = PairError u16 | PairedAs string string

definition hub_pair ::
    "'v FarmJson \<Rightarrow> (string \<Rightarrow> u8 list) \<Rightarrow> FarmIo \<Rightarrow> u8 list option \<Rightarrow> time \<Rightarrow> 'v PairRequest option \<Rightarrow> PairingStore \<Rightarrow> 'v Farm
     \<Rightarrow> pair_reply \<times> PairingStore \<times> 'v Farm" where
  "hub_pair fj hash io entropy now body pend farm =
     (case body of
        None \<Rightarrow> (PairError 400, pend, farm)
      | Some b \<Rightarrow>
          (let reg = pr_registration b;
               requested = (if trim (rg_node_id reg) = [] then trim (rg_name reg) else trim (rg_node_id reg)) in
           if \<not> push_address_ok (rg_address reg) then (PairError 400, pend, farm)
           else case rg_key reg of
             None \<Rightarrow> (PairError 400, pend, farm)
           | Some key \<Rightarrow>
               if validate_secret key \<noteq> None then (PairError 400, pend, farm)
               else if requested = [] \<or> 256 < length requested then (PairError 400, pend, farm)
               else case is_live hash (pr_code b) now pend of
                 (False, pend1) \<Rightarrow> (PairError 401, pend1, farm)
               | (True, pend1) \<Rightarrow>
                   if bt_get (fm_inner farm) requested \<noteq> None then (PairError 409, pend1, farm)
                   else case issue_device_credential entropy of
                     Inl _ \<Rightarrow> (PairError 503, pend1, farm)
                   | Inr credential \<Rightarrow>
                       (case consume_at hash (pr_code b) now pend1 of
                          (Inl _, pend2) \<Rightarrow> (PairError 401, pend2, farm)
                        | (Inr label, pend2) \<Rightarrow>
                            (case farm_pair fj io now reg (hash credential) label farm of
                               (Inl _, farm1) \<Rightarrow> (PairError 409, pend2, farm1)
                             | (Inr node_id, farm1) \<Rightarrow> (PairedAs node_id credential, pend2, farm1)))))"

definition hub_heartbeat ::
    "'v FarmJson \<Rightarrow> (string \<Rightarrow> u8 list) \<Rightarrow> time \<Rightarrow> App \<Rightarrow> Request \<Rightarrow> (string option \<times> 'v option) option \<Rightarrow> 'v Farm
     \<Rightarrow> (verdict + bool) \<times> 'v Farm" where
  "hub_heartbeat fj hash now app req body farm =
     (case body of
        None \<Rightarrow> (Inl (Denied 400 ''heartbeat body must be JSON''), farm)
      | Some (None, _) \<Rightarrow> (Inl (Denied 400 ''heartbeat needs a node_id''), farm)
      | Some (Some node_id, node) \<Rightarrow>
          if authenticate_paired hash node_id (bearer req) farm
          then (case heartbeat fj now node_id node PairedAuth farm of (k, f) \<Rightarrow> (Inr k, f))
          else (case check_farm_auth app req of
                  Some denied \<Rightarrow> (Inl denied, farm)
                | None \<Rightarrow> (case heartbeat fj now node_id node LegacyAuth farm of (k, f) \<Rightarrow> (Inr k, f))))"

section \<open>Lemmas\<close>

definition entry_live :: "time \<Rightarrow> 'v Enrolled \<Rightarrow> bool" where
  "entry_live now e = (is_paired (en_enrollment e) \<or> now - en_last_seen e < DROP_AFTER)"

lemma farm_prune_get:
  "bt_wf m \<Longrightarrow> bt_get (farm_prune now m) k
     = (case bt_get m k of None \<Rightarrow> None | Some e \<Rightarrow> if entry_live now e then Some e else None)"
  by (simp add: farm_prune_def entry_live_def bt.get_keep split: option.splits)

lemma farm_prune_wf: "bt_wf m \<Longrightarrow> bt_wf (farm_prune now m)"
  by (simp add: farm_prune_def bt.wf_keep)

lemma evict_oldest_get: "bt_get (evict_oldest m) k = Some e \<Longrightarrow> bt_get m k = Some e"
  by (auto simp: evict_oldest_def map_laws split: option.splits prod.splits if_splits)

lemma evict_oldest_wf: "bt_wf m \<Longrightarrow> bt_wf (evict_oldest m)"
  by (auto simp: evict_oldest_def map_laws split: option.splits prod.splits)

lemma normalised_fields [simp]:
  "rg_node_id (normalised fj reg) = cap_id_len (pick_id reg)" "rg_address (normalised fj reg) = rg_address reg"
  "rg_key (normalised fj reg) = rg_key reg" "rg_name (normalised fj reg) = rg_name reg"
  by (simp_all add: normalised_def Let_def)

lemma boundary_below_le: "boundary_below s i \<le> i"
  by (induction s i rule: boundary_below.induct) auto

lemma cap_id_len_bound: "length (cap_id_len s) \<le> MAX_NODE_ID_LEN"
  using boundary_below_le [of s MAX_NODE_ID_LEN] by (auto simp: cap_id_len_def)

lemma cap_id_len_short: "length s \<le> 256 \<Longrightarrow> cap_id_len s = s"
  by (simp add: cap_id_len_def MAX_NODE_ID_LEN_def)

lemma pick_id_trimmed: "trim (pick_id reg) = pick_id reg \<and> pick_id reg \<noteq> []"
proof (cases "filter (\<lambda>s. s \<noteq> []) (map trim [rg_node_id reg, rg_name reg, rg_address reg])")
  case Nil
  have "trim ''node'' = ''node''" by code_simp
  with Nil show ?thesis by (simp add: pick_id_def)
next
  case (Cons s ss)
  then have "s \<in> set (filter (\<lambda>s. s \<noteq> []) (map trim [rg_node_id reg, rg_name reg, rg_address reg]))" by simp
  then have "s \<noteq> [] \<and> (\<exists>t. s = trim t)" unfolding set_filter set_map by blast
  with Cons show ?thesis by (auto simp: pick_id_def)
qed

lemma pick_id_given: "trim i = i \<Longrightarrow> i \<noteq> [] \<Longrightarrow> rg_node_id reg = i \<Longrightarrow> pick_id reg = i"
  by (simp add: pick_id_def)

lemma pick_id_requested:
  "(if trim (rg_node_id reg) = [] then trim (rg_name reg) else trim (rg_node_id reg)) \<noteq> [] \<Longrightarrow>
   pick_id reg = (if trim (rg_node_id reg) = [] then trim (rg_name reg) else trim (rg_node_id reg))"
  by (auto simp: pick_id_def)

subsection \<open>The registry's invariant\<close>

definition entry_ok :: "string \<Rightarrow> 'v Enrolled \<Rightarrow> bool" where
  "entry_ok k e =
     (rg_node_id (en_reg e) = k \<and> (is_paired (en_enrollment e) \<longrightarrow> trim k = k \<and> k \<noteq> [] \<and> length k \<le> 256))"

definition farm_inv :: "'v Farm \<Rightarrow> bool" where
  "farm_inv farm =
     (bt_wf (fm_inner farm) \<and> length (fm_inner farm) \<le> MAX_NODES \<and>
      (\<forall>k e. bt_get (fm_inner farm) k = Some e \<longrightarrow> entry_ok k e))"

lemma farm_inv_new: "farm_inv farm_new"
  by (simp add: farm_inv_def farm_new_def)

definition map_inv :: "(string, 'v Enrolled) btree_map \<Rightarrow> bool" where
  "map_inv m = (bt_wf m \<and> length m \<le> MAX_NODES \<and> (\<forall>k e. bt_get m k = Some e \<longrightarrow> entry_ok k e))"

lemma farm_inv_map: "farm_inv farm = map_inv (fm_inner farm)"
  by (simp add: farm_inv_def map_inv_def)

lemma map_inv_prune: "map_inv m \<Longrightarrow> map_inv (farm_prune now m)"
proof -
  assume m: "map_inv m"
  have "length (farm_prune now m) \<le> length m" by (simp add: farm_prune_def bt.count_keep)
  with m show ?thesis unfolding map_inv_def
    by (auto simp: farm_prune_wf farm_prune_get split: option.splits if_splits)
qed

lemma map_inv_remove: "map_inv m \<Longrightarrow> map_inv (bt_remove k m)"
  unfolding map_inv_def by (auto simp: map_laws bt.count_del split: if_splits)

lemma map_inv_update: "map_inv m \<Longrightarrow> bt_get m k = Some e0 \<Longrightarrow> entry_ok k e \<Longrightarrow> map_inv (bt_insert k e m)"
  unfolding map_inv_def by (auto simp: map_laws bt.count_put split: if_splits)

lemma evict_oldest_room:
  assumes "map_inv m"
  shows "map_inv (if MAX_NODES \<le> length m then evict_oldest m else m)"
    and "length (if MAX_NODES \<le> length m then evict_oldest m else m) < MAX_NODES"
proof -
  have pos: "0 < MAX_NODES" by (simp add: MAX_NODES_def)
  have full: "length (evict_oldest m) < MAX_NODES" if "MAX_NODES \<le> length m"
  proof -
    have "m \<noteq> []" using that pos by auto
    then obtain k e where f: "first_min (\<lambda>(_, e). en_last_seen e) m = Some (k, e)"
      by (cases "first_min (\<lambda>(_, e). en_last_seen e) m") auto
    then have "bt_get m k = Some e"
      using first_min_least [OF f] assms by (auto simp: map_inv_def intro: bt_in_set_get)
    then have "length (bt_remove k m) = length m - 1" using assms by (simp add: map_inv_def bt.count_del)
    with f assms pos \<open>m \<noteq> []\<close> show ?thesis by (cases m) (auto simp: evict_oldest_def map_inv_def)
  qed
  then show "length (if MAX_NODES \<le> length m then evict_oldest m else m) < MAX_NODES" by simp
  show "map_inv (if MAX_NODES \<le> length m then evict_oldest m else m)"
    using assms map_inv_remove by (auto simp: evict_oldest_def split: option.splits)
qed

lemma map_inv_insert: "map_inv m \<Longrightarrow> length m < MAX_NODES \<Longrightarrow> entry_ok k e \<Longrightarrow> map_inv (bt_insert k e m)"
  unfolding map_inv_def by (auto simp: map_laws bt.count_put split: if_splits)

lemma register_inv:
  assumes "farm_inv farm"
  shows "farm_inv (snd (register fj now reg farm))"
proof -
  let ?m = "farm_prune now (fm_inner farm)" and ?i = "cap_id_len (pick_id reg)"
  have m: "map_inv ?m" using assms map_inv_prune by (simp add: farm_inv_map)
  show ?thesis
  proof (cases "bt_get ?m ?i")
    case None
    have "map_inv (bt_insert ?i \<lparr>en_reg = normalised fj reg, en_last_seen = now, en_enrollment = LegacyToken\<rparr>
        (if MAX_NODES \<le> length ?m then evict_oldest ?m else ?m))"
      by (rule map_inv_insert [OF evict_oldest_room [OF m]]) (simp add: entry_ok_def is_paired_def)
    with None show ?thesis by (simp add: register_def farm_inv_map Let_def)
  next
    case (Some e)
    then have "entry_ok ?i e" using m by (simp add: map_inv_def)
    with Some m show ?thesis
      by (auto simp: register_def farm_inv_map Let_def intro!: map_inv_update [OF m Some]) (simp add: entry_ok_def)
  qed
qed

lemma heartbeat_inv:
  assumes "farm_inv farm"
  shows "farm_inv (snd (heartbeat fj now i node auth farm))"
proof -
  let ?m = "farm_prune now (fm_inner farm)"
  have m: "map_inv ?m" using assms map_inv_prune by (simp add: farm_inv_map)
  show ?thesis
  proof (cases "bt_get ?m i")
    case None
    with m show ?thesis by (simp add: heartbeat_def farm_inv_map Let_def)
  next
    case (Some e)
    then have "entry_ok i e" using m by (simp add: map_inv_def)
    with Some m show ?thesis
      by (auto simp: heartbeat_def farm_inv_map Let_def split: option.splits intro!: map_inv_update [OF m Some])
        (simp_all add: entry_ok_def)
  qed
qed

lemma persist_locked_inner: "persist_locked fj io farm = (r, farm') \<Longrightarrow> fm_inner farm' = fm_inner farm"
  by (auto simp: persist_locked_def split: option.splits prod.splits)

lemma remove_inv:
  assumes "farm_inv farm"
  shows "farm_inv (snd (farm_remove fj io i farm))"
proof (cases "bt_get (fm_inner farm) i")
  case None
  with assms show ?thesis by (simp add: farm_remove_def)
next
  case (Some e)
  let ?m = "bt_remove i (fm_inner farm)"
  have m: "map_inv ?m" and e: "entry_ok i e" using assms Some map_inv_remove by (auto simp: farm_inv_map map_inv_def)
  have "length ?m < MAX_NODES"
  proof -
    have "0 < length (fm_inner farm)" using Some by auto
    moreover have "length ?m = length (fm_inner farm) - 1" using assms Some by (simp add: farm_inv_def bt.count_del)
    ultimately show ?thesis using assms unfolding farm_inv_def by linarith
  qed
  then have again: "map_inv (bt_insert i e ?m)" using m e by (blast intro: map_inv_insert)
  obtain r f where p: "persist_locked fj io (farm\<lparr>fm_inner := ?m\<rparr>) = (r, f)" by (cases "persist_locked fj io (farm\<lparr>fm_inner := ?m\<rparr>)")
  with persist_locked_inner [OF p] m again Some show ?thesis
    by (cases r) (simp_all add: farm_remove_def farm_inv_map Let_def)
qed

lemma farm_pair_cases:
  assumes "farm_pair fj io now reg digest label farm = (r, farm')"
  obtains (taken) "r = Inl (AlreadyEnrolled (cap_id_len (pick_id reg)))"
      "bt_get (farm_prune now (fm_inner farm)) (cap_id_len (pick_id reg)) \<noteq> None"
      "farm' = farm\<lparr>fm_inner := farm_prune now (fm_inner farm)\<rparr>"
  | (tried) m1 m2 p farm1 where "bt_get (farm_prune now (fm_inner farm)) (cap_id_len (pick_id reg)) = None"
      "m1 = (let m = farm_prune now (fm_inner farm) in if MAX_NODES \<le> length m then evict_oldest m else m)"
      "m2 = bt_insert (cap_id_len (pick_id reg)) \<lparr>en_reg = normalised fj reg, en_last_seen = now, en_enrollment = Paired digest label\<rparr> m1"
      "persist_locked fj io (farm\<lparr>fm_inner := m2\<rparr>) = (p, farm1)"
      "p = None \<and> r = Inr (cap_id_len (pick_id reg)) \<and> farm' = farm1 \<or>
       p = Some (projl r) \<and> isl r \<and> farm' = farm1\<lparr>fm_inner := bt_remove (cap_id_len (pick_id reg)) m2\<rparr>"
proof (cases "bt_get (farm_prune now (fm_inner farm)) (cap_id_len (pick_id reg))")
  case (Some e)
  with assms taken show ?thesis by (simp add: farm_pair_def Let_def)
next
  case None
  define m1 where "m1 = (let m = farm_prune now (fm_inner farm) in if MAX_NODES \<le> length m then evict_oldest m else m)"
  define m2 where "m2 = bt_insert (cap_id_len (pick_id reg))
    \<lparr>en_reg = normalised fj reg, en_last_seen = now, en_enrollment = Paired digest label\<rparr> m1"
  obtain p farm1 where p: "persist_locked fj io (farm\<lparr>fm_inner := m2\<rparr>) = (p, farm1)"
    by (cases "persist_locked fj io (farm\<lparr>fm_inner := m2\<rparr>)")
  have "farm_pair fj io now reg digest label farm =
     (case p of Some e \<Rightarrow> (Inl e, farm1\<lparr>fm_inner := bt_remove (cap_id_len (pick_id reg)) m2\<rparr>)
      | None \<Rightarrow> (Inr (cap_id_len (pick_id reg)), farm1))"
    using None p unfolding m1_def m2_def by (cases p) (simp_all add: farm_pair_def Let_def)
  with assms tried [OF None m1_def m2_def p] show ?thesis by (cases p) auto
qed

lemma pair_inv:
  assumes "farm_inv farm" and "length (pick_id reg) \<le> 256" and "farm_pair fj io now reg digest label farm = (r, farm')"
  shows "farm_inv farm'"
  using assms(3)
proof (cases rule: farm_pair_cases)
  case taken
  with assms(1) map_inv_prune show ?thesis by (simp add: farm_inv_map)
next
  case (tried m1 m2 p farm1)
  let ?i = "cap_id_len (pick_id reg)"
  have m: "map_inv (farm_prune now (fm_inner farm))" using assms(1) map_inv_prune by (simp add: farm_inv_map)
  have i: "?i = pick_id reg" using assms(2) by (rule cap_id_len_short)
  have "map_inv m2"
    unfolding tried(3) tried(2) Let_def
    by (rule map_inv_insert [OF evict_oldest_room [OF m]]) (use i pick_id_trimmed [of reg] assms(2) in \<open>auto simp: entry_ok_def\<close>)
  then have "map_inv m2 \<and> map_inv (bt_remove ?i m2)" using map_inv_remove by blast
  with tried(5) persist_locked_inner [OF tried(4)] show ?thesis by (auto simp: farm_inv_map)
qed

subsection \<open>Reading a saved registry\<close>

definition farm_json_ok :: "'v FarmJson \<Rightarrow> bool" where
  "farm_json_ok fj = (\<forall>st bytes. fj_write fj st = Some bytes \<longrightarrow> fj_read fj bytes = Some st)"

definition restored :: "'v FarmJson \<Rightarrow> time \<Rightarrow> 'v Enrolled \<Rightarrow> 'v Enrolled" where
  "restored fj stale e = e\<lparr>en_reg := (en_reg e)\<lparr>rg_node := fj_null fj\<rparr>, en_last_seen := stale\<rparr>"

lemma bt_insert_last: "\<forall>x \<in> fst ` set m. x < k \<Longrightarrow> bt_insert k v m = m @ [(k :: string, v)]"
proof (induction m)
  case (Cons x m)
  obtain k' v' where x: "x = (k', v')" by (cases x)
  with Cons.prems have "k' < k" by simp
  then have "\<not> k < k'" "k \<noteq> k'" by auto
  with Cons x show ?case by simp
qed simp

lemma load_nodes_saved:
  assumes "sorted_wrt (<) (map fst (acc @ l))" and "\<forall>(k, e) \<in> set l. entry_ok k e \<and> is_paired (en_enrollment e)"
  shows "load_nodes stale (map (\<lambda>(_, e). \<lparr>pn_reg = (en_reg e)\<lparr>rg_node := fj_null fj\<rparr>, pn_enrollment = en_enrollment e\<rparr>) l) acc
    = Inr (acc @ map (\<lambda>(k, e). (k, restored fj stale e)) l)"
  using assms
proof (induction l arbitrary: acc)
  case (Cons x l)
  obtain k e where x: "x = (k, e)" by (cases x)
  have ok: "entry_ok k e" "is_paired (en_enrollment e)" using Cons.prems(2) x by auto
  let ?reg = "(en_reg e)\<lparr>rg_node := fj_null fj\<rparr>"
  have "rg_node_id ?reg = k" using ok by (simp add: entry_ok_def)
  moreover have k: "trim k = k" "k \<noteq> []" "length k \<le> 256" using ok by (simp_all add: entry_ok_def)
  ultimately have i: "cap_id_len (pick_id ?reg) = k" using pick_id_given [of k ?reg] by (simp add: cap_id_len_short)
  have below: "\<forall>y \<in> fst ` set acc. y < k" using Cons.prems(1) x by (auto simp: sorted_wrt_append)
  have "k \<notin> fst ` set acc" using below by auto
  then have new: "bt_get acc k = None" by (simp add: bt_get_def map_of_eq_None_iff)
  let ?e = "\<lparr>en_reg = ?reg, en_last_seen = stale, en_enrollment = en_enrollment e\<rparr>"
  have e: "?e = restored fj stale e" by (simp add: restored_def)
  have "sorted_wrt (<) (map fst ((acc @ [(k, restored fj stale e)]) @ l))" using Cons.prems(1) x by simp
  with Cons.IH [of "acc @ [(k, restored fj stale e)]"] Cons.prems(2)
  have "load_nodes stale (map (\<lambda>(_, e). \<lparr>pn_reg = (en_reg e)\<lparr>rg_node := fj_null fj\<rparr>, pn_enrollment = en_enrollment e\<rparr>) l)
      (acc @ [(k, restored fj stale e)]) = Inr ((acc @ [(k, restored fj stale e)]) @ map (\<lambda>(k, e). (k, restored fj stale e)) l)"
    by simp
  with ok(2) i new below \<open>rg_node_id ?reg = k\<close> show ?case by (simp add: x Let_def bt_insert_last e)
qed simp

definition good_metadata :: "found \<Rightarrow> string \<Rightarrow> bool" where
  "good_metadata f bytes =
     (case f of Found md \<Rightarrow> \<not> md_is_symlink md \<and> md_is_file md \<and> unat (md_len md) = length bytes \<and> md_mode md AND 0x3F = 0
      | _ \<Rightarrow> False)"

lemma open_saved:
  assumes "farm_json_ok fj" and "map_inv m" and "fj_write fj (persisted_of fj m) = Some bytes"
    and "length bytes \<le> MAX_FARM_STATE_BYTES" and "good_metadata md bytes"
  shows "farm_open fj now md (Some bytes) = Inr
    \<lparr>fm_inner = map (\<lambda>(k, e). (k, restored fj (if now < ONLINE_WINDOW then now else now - ONLINE_WINDOW) e))
       (filter (\<lambda>(_, e). is_paired (en_enrollment e)) m), fm_file = Some (Some bytes)\<rparr>"
proof -
  let ?l = "filter (\<lambda>(_, e). is_paired (en_enrollment e)) m"
  let ?stale = "if now < ONLINE_WINDOW then now else now - ONLINE_WINDOW"
  have load: "load_state fj md (Some bytes) = Inr (persisted_of fj m)"
    using assms(1,3,4,5)
    by (auto simp: load_state_def good_metadata_def farm_json_ok_def persisted_of_def split: found.splits)
  have "sorted_wrt (<) (map fst ([] @ ?l))" using assms(2) by (simp add: map_inv_def bt_wf_def sorted_map_filter)
  moreover have "\<forall>(k, e) \<in> set ?l. entry_ok k e \<and> is_paired (en_enrollment e)"
    using assms(2) by (auto simp: map_inv_def intro: bt_in_set_get)
  ultimately have nodes: "load_nodes ?stale (ps_nodes (persisted_of fj m)) []
      = Inr (map (\<lambda>(k, e). (k, restored fj ?stale e)) ?l)"
    using load_nodes_saved [of "[]" ?l ?stale fj] by (simp add: persisted_of_def)
  have "length (ps_nodes (persisted_of fj m)) \<le> length m" by (simp add: persisted_of_def)
  then have "\<not> MAX_NODES < length (ps_nodes (persisted_of fj m))" using assms(2) by (simp add: map_inv_def)
  then show ?thesis by (simp only: farm_open_def load nodes sum.case Let_def if_False)
qed

section \<open>What a holder of the shared token cannot do\<close>

definition same_identity :: "'v Enrolled \<Rightarrow> 'v Enrolled \<Rightarrow> bool" where
  "same_identity e e' =
     (rg_address (en_reg e') = rg_address (en_reg e) \<and> rg_key (en_reg e') = rg_key (en_reg e) \<and>
      rg_node_id (en_reg e') = rg_node_id (en_reg e) \<and> en_enrollment e' = en_enrollment e \<and>
      (is_paired (en_enrollment e) \<longrightarrow> e' = e))"

lemma same_identity_refl [simp]: "same_identity e e"
  by (simp add: same_identity_def)

datatype 'v token_request = Registers "'v Registration" | Beats string "'v option"

definition token_step :: "'v FarmJson \<Rightarrow> time \<Rightarrow> 'v token_request \<Rightarrow> 'v Farm \<Rightarrow> 'v Farm" where
  "token_step fj now q farm =
     (case q of Registers reg \<Rightarrow> snd (register fj now reg farm) | Beats i node \<Rightarrow> snd (heartbeat fj now i node LegacyAuth farm))"

definition token_names :: "'v token_request \<Rightarrow> string" where
  "token_names q = (case q of Registers reg \<Rightarrow> cap_id_len (pick_id reg) | Beats i node \<Rightarrow> i)"

text \<open>The rows a request finds: those that are not dropped for silence.\<close>

definition live_row :: "time \<Rightarrow> 'v Farm \<Rightarrow> string \<Rightarrow> 'v Enrolled \<Rightarrow> bool" where
  "live_row now farm k e = (bt_get (fm_inner farm) k = Some e \<and> entry_live now e)"

lemma live_row_pruned: "farm_inv farm \<Longrightarrow> live_row now farm k e \<longleftrightarrow> bt_get (farm_prune now (fm_inner farm)) k = Some e"
  by (auto simp: live_row_def farm_inv_def farm_prune_get split: option.splits if_splits)

lemma live_rows_count: "farm_inv farm \<Longrightarrow> length (farm_prune now (fm_inner farm)) = card {k. \<exists>e. live_row now farm k e}"
proof -
  assume inv: "farm_inv farm"
  let ?m = "farm_prune now (fm_inner farm)"
  have wf: "bt_wf ?m" using inv by (simp add: farm_inv_def farm_prune_wf)
  then have "length ?m = card (fst ` set ?m)" using distinct_card [of "map fst ?m"] by (simp add: bt_wf_def sorted_lt_distinct)
  moreover have "fst ` set ?m = {k. \<exists>e. live_row now farm k e}"
    using wf by (force simp: live_row_pruned [OF inv] dest: bt_get_in_set intro: bt_in_set_get)
  ultimately show ?thesis by simp
qed

lemma evict_oldest_victim:
  assumes "bt_wf m" and "bt_get m k = Some e" and "bt_get (evict_oldest m) k = None" and "bt_get m j = Some f"
  shows "en_last_seen e \<le> en_last_seen f" and "j \<noteq> k \<Longrightarrow> bt_get (evict_oldest m) j = Some f"
proof -
  have "m \<noteq> []" using assms(2) by auto
  then obtain v g where f: "first_min (\<lambda>(_, e). en_last_seen e) m = Some (v, g)"
    by (cases "first_min (\<lambda>(_, e). en_last_seen e) m") auto
  then have ev: "evict_oldest m = bt_remove v m" by (simp add: evict_oldest_def)
  then have "v = k" using assms(2,3) by (auto simp: map_laws split: if_splits)
  have "bt_get m v = Some g" using first_min_least [OF f] assms(1) by (auto intro: bt_in_set_get)
  then have "g = e" using \<open>v = k\<close> assms(2) by simp
  then show "en_last_seen e \<le> en_last_seen f" using first_min_least [OF f] bt_get_in_set [OF assms(4)] by fastforce
  show "bt_get (evict_oldest m) j = Some f" if "j \<noteq> k" using that \<open>v = k\<close> ev assms(4) by (simp add: map_laws)
qed

lemma register_known:
  assumes "bt_get (farm_prune now (fm_inner farm)) (cap_id_len (pick_id reg)) = Some e0"
    and "bt_get (farm_prune now (fm_inner farm)) k = Some e"
  shows "\<exists>e'. bt_get (fm_inner (snd (register fj now reg farm))) k = Some e' \<and> same_identity e e' \<and>
    (k \<noteq> cap_id_len (pick_id reg) \<longrightarrow> e' = e)"
  using assms by (cases "k = cap_id_len (pick_id reg)") (auto simp: register_def Let_def map_laws same_identity_def)

lemma register_new:
  assumes "bt_get (farm_prune now (fm_inner farm)) (cap_id_len (pick_id reg)) = None" and "k \<noteq> cap_id_len (pick_id reg)"
  shows "bt_get (fm_inner (snd (register fj now reg farm))) k =
    (if MAX_NODES \<le> length (farm_prune now (fm_inner farm)) then bt_get (evict_oldest (farm_prune now (fm_inner farm))) k
     else bt_get (farm_prune now (fm_inner farm)) k)"
  using assms by (simp add: register_def Let_def map_laws)

lemma heartbeat_keeps:
  assumes "bt_get (farm_prune now (fm_inner farm)) k = Some e"
  shows "\<exists>e'. bt_get (fm_inner (snd (heartbeat fj now i node LegacyAuth farm))) k = Some e' \<and> same_identity e e' \<and>
    (k \<noteq> i \<longrightarrow> e' = e)"
proof (cases "bt_get (farm_prune now (fm_inner farm)) i")
  case None
  with assms show ?thesis by (auto simp: heartbeat_def Let_def map_laws)
next
  case (Some e0)
  with assms show ?thesis
    by (cases "k = i") (auto simp: heartbeat_def Let_def map_laws auth_fits_def same_identity_def split: option.splits)
qed

section \<open>Samples\<close>

definition sample_json :: "unit FarmJson" where
  "sample_json = \<lparr>fj_null = (), fj_len = \<lambda>_. Some 4, fj_write = \<lambda>_. None, fj_read = \<lambda>_. None\<rparr>"

definition sample_registration :: "unit Registration" where
  "sample_registration = \<lparr>rg_node_id = ''n1'', rg_name = ''box'', rg_address = ''https://zoo.lan'', rg_key = Some (replicate 40 (CHR ''k'')),
     rg_cameo_version = ''1'', rg_node = ()\<rparr>"

definition paired_farm :: "unit Farm" where
  "paired_farm = \<lparr>fm_inner = [(''n1'', \<lparr>en_reg = sample_registration, en_last_seen = 0, en_enrollment = Paired [1] ''l''\<rparr>)], fm_file = None\<rparr>"

section \<open>Properties\<close>

text \<open>C9. The first credential wins.  One request made with the shared farm token (a registration or a heartbeat)
  leaves every live row as it was, except the row of the id it names, of which it changes neither the
  callback address, the callback key, the id nor the kind of enrolment, and nothing at all when that row is
  paired.  A live row can disappear only when a new id is registered while ten thousand rows are live; then
  it is the one seen least recently, it is the only one, and all others keep every field.  (The victim may
  then be a paired node, whose id is free for the next registration.)\<close>

theorem enrolment_locked:
  assumes "farm_inv farm" and "live_row now farm k e" and "farm' = token_step fj now q farm"
  shows "case bt_get (fm_inner farm') k of
      Some e' \<Rightarrow>
        rg_address (en_reg e') = rg_address (en_reg e) \<and> rg_key (en_reg e') = rg_key (en_reg e) \<and>
        rg_node_id (en_reg e') = rg_node_id (en_reg e) \<and> en_enrollment e' = en_enrollment e \<and>
        (is_paired (en_enrollment e) \<or> k \<noteq> token_names q \<longrightarrow> e' = e)
    | None \<Rightarrow>
        (\<exists>reg. q = Registers reg) \<and> (\<forall>f. \<not> live_row now farm (token_names q) f) \<and>
        10000 \<le> card {j. \<exists>f. live_row now farm j f} \<and>
        (\<forall>j f. live_row now farm j f \<longrightarrow>
           en_last_seen e \<le> en_last_seen f \<and> (j \<noteq> k \<longrightarrow> bt_get (fm_inner farm') j = Some f))"
proof -
  let ?m = "farm_prune now (fm_inner farm)"
  note live = live_row_pruned [OF assms(1), of now]
  have wf: "bt_wf ?m" using assms(1) by (simp add: farm_inv_def farm_prune_wf)
  have k: "bt_get ?m k = Some e" using assms(2) live by simp
  have kept: ?thesis if "bt_get (fm_inner farm') k = Some e'" "same_identity e e'" "k \<noteq> token_names q \<longrightarrow> e' = e" for e'
    using that by (auto simp: same_identity_def)
  show ?thesis
  proof (cases q)
    case (Beats i node)
    then show ?thesis using heartbeat_keeps [OF k, of fj i node] kept assms(3) by (auto simp: token_step_def token_names_def)
  next
    case (Registers reg)
    let ?i = "cap_id_len (pick_id reg)"
    have farm': "farm' = snd (register fj now reg farm)" and i: "token_names q = ?i"
      using assms(3) Registers by (simp_all add: token_step_def token_names_def)
    show ?thesis
    proof (cases "bt_get ?m ?i")
      case (Some e0)
      then show ?thesis using register_known [OF Some k, of fj] kept farm' i by auto
    next
      case None
      have new: "bt_get (fm_inner farm') j =
          (if MAX_NODES \<le> length ?m then bt_get (evict_oldest ?m) j else bt_get ?m j)" if "bt_get ?m j = Some f" for j f
      proof -
        have "j \<noteq> ?i" using that None by auto
        from register_new [OF None this, of fj] farm' show ?thesis by simp
      qed
      show ?thesis
      proof (cases "bt_get (fm_inner farm') k")
        case (Some e')
        then have "e' = e" using new [OF k] k by (auto split: if_splits dest: evict_oldest_get)
        then show ?thesis using Some by (intro kept) auto
      next
        case gone: None
        then have full: "MAX_NODES \<le> length ?m" "bt_get (evict_oldest ?m) k = None"
          using new [OF k] k by (auto split: if_splits)
        have "en_last_seen e \<le> en_last_seen f \<and> (j \<noteq> k \<longrightarrow> bt_get (fm_inner farm') j = Some f)"
          if "live_row now farm j f" for j f
          using evict_oldest_victim [OF wf k full(2)] new full(1) that live by auto
        moreover have "10000 \<le> card {j. \<exists>f. live_row now farm j f}"
          using full(1) unfolding live_rows_count [OF assms(1)] MAX_NODES_def .
        moreover have "\<not> live_row now farm (token_names q) f" for f using None live i by simp
        ultimately show ?thesis using gone Registers by (simp only: option.case) blast
      qed
    qed
  qed
qed

theorem enrolment_locked_witness:
  "\<exists>e'. bt_get (fm_inner (token_step sample_json 5 (Registers (sample_registration\<lparr>rg_address := ''https://evil.lan''\<rparr>)) paired_farm)) ''n1''
       = Some e' \<and> rg_address (en_reg e') = ''https://zoo.lan''"
proof -
  define e :: "unit Enrolled" where "e = \<lparr>en_reg = sample_registration, en_last_seen = 0, en_enrollment = Paired [1] ''l''\<rparr>"
  let ?q = "Registers (sample_registration\<lparr>rg_address := ''https://evil.lan''\<rparr>)"
  have "trim ''n1'' = ''n1''" by code_simp
  then have inv: "farm_inv paired_farm"
    by (auto simp: farm_inv_def paired_farm_def bt_wf_def MAX_NODES_def bt_get_def entry_ok_def sample_registration_def split: if_splits)
  have row: "live_row 5 paired_farm ''n1'' e"
    by (simp add: live_row_def paired_farm_def bt_get_def e_def entry_live_def is_paired_def)
  have one: "card {j. \<exists>f. live_row 5 paired_farm j f} = 1"
  proof -
    have "{j. \<exists>f. live_row 5 paired_farm j f} = {''n1''}"
      using row by (auto simp: live_row_def paired_farm_def bt_get_def split: if_splits)
    then show ?thesis by simp
  qed
  from enrolment_locked [where fj = sample_json and q = ?q, OF inv row refl] one show ?thesis
    by (auto simp: e_def sample_registration_def split: option.splits)
qed

lemma is_live_store: "is_live hash c now pend = (b, pend1) \<Longrightarrow> pairing_inv pend \<Longrightarrow>
    pairing_inv pend1 \<and> filter (\<lambda>p. now < pd_expires p) pend1 = filter (\<lambda>p. now < pd_expires p) pend"
  by (auto simp: is_live_def Let_def pairing_inv_filter split: if_splits)

lemma hub_pair_error:
  assumes "pairing_inv pend" and "\<forall>s. length (hash s) = 32"
    and "hub_pair fj hash io entropy now (Some b) pend farm = (PairError s, pend', farm')" and "s \<noteq> 409"
  shows "farm' = farm \<and> filter (\<lambda>p. now < pd_expires p) pend' = filter (\<lambda>p. now < pd_expires p) pend"
proof -
  obtain ok pend1 where l: "is_live hash (pr_code b) now pend = (ok, pend1)" by (cases "is_live hash (pr_code b) now pend")
  obtain c pend2 where c: "consume_at hash (pr_code b) now pend1 = (c, pend2)" by (cases "consume_at hash (pr_code b) now pend1")
  note s1 = is_live_store [OF l assms(1)]
  have s2: "filter (\<lambda>p. now < pd_expires p) pend2 = filter (\<lambda>p. now < pd_expires p) pend1" if "c = Inl x" for x
    using consume_outcome [OF _ assms(2) c, of 0] s1 that by simp
  show ?thesis
    using assms(3,4) l c s1 s2
    by (auto simp: hub_pair_def Let_def split: bool.splits if_splits option.splits sum.splits prod.splits)
qed

lemma hub_pair_success:
  assumes "hub_pair fj hash io entropy now (Some b) pend farm = (PairedAs i c, pend', farm')"
  shows "\<exists>pend1 label. is_live hash (pr_code b) now pend = (True, pend1) \<and>
      consume_at hash (pr_code b) now pend1 = (Inr label, pend') \<and> push_address_ok (rg_address (pr_registration b)) \<and>
      bt_get (fm_inner farm) (pick_id (pr_registration b)) = None \<and> length (pick_id (pr_registration b)) \<le> 256 \<and>
      farm_pair fj io now (pr_registration b) (hash c) label farm = (Inr i, farm')"
proof -
  let ?reg = "pr_registration b"
  let ?q = "if trim (rg_node_id ?reg) = [] then trim (rg_name ?reg) else trim (rg_node_id ?reg)"
  obtain ok pend1 where l: "is_live hash (pr_code b) now pend = (ok, pend1)" by (cases "is_live hash (pr_code b) now pend")
  obtain r pend2 where r: "consume_at hash (pr_code b) now pend1 = (r, pend2)" by (cases "consume_at hash (pr_code b) now pend1")
  have a: "push_address_ok (rg_address ?reg)" "ok" "\<not> (?q = [] \<or> 256 < length ?q)" "bt_get (fm_inner farm) ?q = None"
    using assms l by (auto simp: hub_pair_def Let_def split: bool.splits if_splits option.splits)
  then have q: "pick_id ?reg = ?q" by (intro pick_id_requested) simp
  have "\<exists>label. r = Inr label \<and> pend' = pend2 \<and> farm_pair fj io now ?reg (hash c) label farm = (Inr i, farm')"
    using assms l r a by (auto simp: hub_pair_def Let_def split: bool.splits if_splits option.splits sum.splits prod.splits)
  with l r a q show ?thesis by (simp only:) (auto simp: not_less)
qed

lemma farm_pair_success:
  assumes "farm_pair fj io now reg digest label farm = (Inr i, farm')"
  shows "i = cap_id_len (pick_id reg) \<and> (\<exists>e. bt_get (fm_inner farm') i = Some e \<and> en_enrollment e = Paired digest label \<and>
    rg_address (en_reg e) = rg_address reg \<and> rg_key (en_reg e) = rg_key reg)"
  using assms
proof (cases rule: farm_pair_cases)
  case (tried m1 m2 p farm1)
  with persist_locked_inner [OF tried(4)] show ?thesis by (auto simp: map_laws)
qed simp

text \<open>C39. Pairing enrols exactly the presented device.  When a pairing request succeeds, the code was live and
  is refused from then on; the node id was not enrolled before; the returned credential authenticates the
  new node; and the hub will call it at the address and with the key it gave, an address it may call.
  When the request is refused for any reason other than a conflict, no live code is used up and the
  registry is untouched.\<close>

theorem pairing_enrols:
  assumes "pairing_inv pend" and "\<forall>s. length (hash s) = 32"
    and "hub_pair fj hash io entropy now (Some b) pend farm = (reply, pend', farm')"
  shows "case reply of
      PairedAs i c \<Rightarrow>
        fst (is_live hash (pr_code b) now pend) \<and> fst (consume_at hash (pr_code b) now' pend') = Inl InvalidOrExpired \<and>
        bt_get (fm_inner farm) i = None \<and> authenticate_paired hash i (Some c) farm' \<and>
        push_target i farm' = Some (rg_address (pr_registration b), rg_key (pr_registration b)) \<and>
        push_address_ok (rg_address (pr_registration b))
    | PairError s \<Rightarrow> s \<noteq> 409 \<longrightarrow>
        farm' = farm \<and> filter (\<lambda>p. now < pd_expires p) pend' = filter (\<lambda>p. now < pd_expires p) pend"
proof (cases reply)
  case (PairError s)
  with hub_pair_error [OF assms(1,2) assms(3) [unfolded PairError]] show ?thesis by simp
next
  case (PairedAs i c)
  from hub_pair_success [OF assms(3) [unfolded PairedAs]] obtain pend1 label where
    h: "is_live hash (pr_code b) now pend = (True, pend1)" "consume_at hash (pr_code b) now pend1 = (Inr label, pend')"
      "push_address_ok (rg_address (pr_registration b))" "bt_get (fm_inner farm) (pick_id (pr_registration b)) = None"
      "length (pick_id (pr_registration b)) \<le> 256"
      "farm_pair fj io now (pr_registration b) (hash c) label farm = (Inr i, farm')" by blast
  from farm_pair_success [OF h(6)] obtain e where i: "i = cap_id_len (pick_id (pr_registration b))"
    and e: "bt_get (fm_inner farm') i = Some e" "en_enrollment e = Paired (hash c) label"
      "rg_address (en_reg e) = rg_address (pr_registration b)" "rg_key (en_reg e) = rg_key (pr_registration b)" by blast
  have "pairing_inv pend1" using is_live_store [OF h(1) assms(1)] by simp
  from consume_outcome [OF this assms(2) h(2), of now'] have "fst (consume_at hash (pr_code b) now' pend') = Inl InvalidOrExpired"
    by simp
  moreover have "authenticate_paired hash i (Some c) farm'"
    using e assms(2) by (simp add: authenticate_paired_def credential_matches_def ct_digest_eq_iff)
  moreover have "i = pick_id (pr_registration b)" using i h(5) by (simp add: cap_id_len_short)
  ultimately show ?thesis using h e PairedAs by (simp add: push_target_def)
qed

theorem pairing_enrols_witness:
  "let h = (\<lambda>_. replicate 32 0); code = replicate 64 (CHR ''a'');
       st = [\<lparr>pd_digest = replicate 32 0, pd_label = ''x'', pd_expires = 9\<rparr>];
       body = \<lparr>pr_code = code, pr_registration = sample_registration\<rparr>;
       io = \<lparr>fo_dir = True, fo_create = True, fo_write = True, fo_rename = True, fo_sync = True\<rparr>
   in case hub_pair sample_json h io (Some []) 0 (Some body) st farm_new of (reply, st', farm') \<Rightarrow>
        reply = PairedAs ''n1'' [] \<and> fst (consume_at h code 1 st') = Inl InvalidOrExpired \<and>
        push_target ''n1'' farm' = Some (''https://zoo.lan'', Some (replicate 40 (CHR ''k'')))"
proof -
  let ?h = "\<lambda>_ :: string. replicate 32 (0 :: u8)" and ?code = "replicate 64 (CHR ''a'')"
  let ?st = "[\<lparr>pd_digest = replicate 32 0, pd_label = ''x'', pd_expires = 9\<rparr>] :: PendingPairing list"
  let ?body = "\<lparr>pr_code = ?code, pr_registration = sample_registration\<rparr> :: unit PairRequest"
  let ?io = "\<lparr>fo_dir = True, fo_create = True, fo_write = True, fo_rename = True, fo_sync = True\<rparr>"
  have ct: "ct_digest_eq (replicate 32 0) (replicate 32 0)" by (simp add: ct_digest_eq_iff)
  have hex: "is_hexdigit (CHR ''a'')" by code_simp
  have wf: "code_well_formed ?code" using hex by (simp add: code_well_formed_def list_all_iff)
  have ip: "parse_ip ''zoo.lan'' = None"
    by (simp add: parse_ip_def literal_eval parse_ipv6_def read_ipv6_def read_groups_numeral)
  have "callback_authority ''https://zoo.lan'' = Some ''zoo.lan''" by code_simp
  then have push: "push_address_ok ''https://zoo.lan''"
    using ip by (simp add: push_address_ok_def host_of_def parse_ip_literal_def is_digit_def)
  have t: "trim ''n1'' = ''n1''" by code_simp
  have key: "validate_secret (replicate 40 (CHR ''k'')) = None" by code_simp
  have r: "fst (hub_pair sample_json ?h ?io (Some []) 0 (Some ?body) ?st farm_new) = PairedAs ''n1'' []"
    using wf push t key ct
    by (simp add: hub_pair_def sample_registration_def sample_json_def farm_new_def is_live_def consume_at_def Let_def
        farm_pair_def normalised_def blob_too_big_def pick_id_def cap_id_len_short farm_prune_def bt_retain_def persist_locked_def
        issue_device_credential_def random_secret_def MAX_NODES_def)
  obtain st' farm' where s: "hub_pair sample_json ?h ?io (Some []) 0 (Some ?body) ?st farm_new = (PairedAs ''n1'' [], st', farm')"
    using r by (cases "hub_pair sample_json ?h ?io (Some []) 0 (Some ?body) ?st farm_new") auto
  have "pairing_inv ?st" by (simp add: pairing_inv_def MAX_PENDING_PAIRINGS_def)
  from pairing_enrols [OF this _ s, of 1] show ?thesis
    by (simp add: s Let_def) (simp add: sample_registration_def)
qed

lemma restored_get:
  assumes "bt_wf m"
  shows "bt_get (map (\<lambda>(k, e). (k, f e)) (filter (\<lambda>(_, e). P e) m)) k
    = (case bt_get m k of None \<Rightarrow> None | Some e \<Rightarrow> if P e then Some (f e) else None)"
proof -
  have "bt_get (filter (\<lambda>(_, e). P e) m) k = (case bt_get m k of None \<Rightarrow> None | Some e \<Rightarrow> if P e then Some e else None)"
    using bt.get_keep [OF assms, of "\<lambda>_ e. P e" k] by (simp add: bt_retain_def)
  then show ?thesis by (simp add: bt_get_def map_of_map split: option.splits)
qed

lemma authenticate_restored:
  assumes "bt_wf m" and "fm_inner farm = m"
    and "fm_inner farm2 = map (\<lambda>(k, e). (k, restored fj stale e)) (filter (\<lambda>(_, e). is_paired (en_enrollment e)) m)"
  shows "authenticate_paired hash k c farm2 = authenticate_paired hash k c farm"
proof (cases "bt_get m k")
  case None
  with restored_get [OF assms(1), of "restored fj stale" "\<lambda>e. is_paired (en_enrollment e)" k] assms(2,3)
  show ?thesis by (cases c) (simp_all add: authenticate_paired_def)
next
  case (Some e)
  with restored_get [OF assms(1), of "restored fj stale" "\<lambda>e. is_paired (en_enrollment e)" k] assms(2,3)
  show ?thesis by (cases "en_enrollment e"; cases c) (simp_all add: authenticate_paired_def is_paired_def restored_def)
qed

text \<open>A daemon that opens the registry within 45 seconds of the earliest instant its clock can represent
  shows every restored node as online before any heartbeat.\<close>

lemma early_open_online:
  "now < ONLINE_WINDOW \<Longrightarrow> nr_online (node_row now (restored fj (if now < ONLINE_WINDOW then now else now - ONLINE_WINDOW) e))"
  by (simp add: node_row_def restored_def Let_def)

text \<open>C40. A paired device survives a restart of the hub.  After a successful pairing the state file holds
  every paired node: opening it gives a registry that accepts exactly the device credentials the running
  hub accepts, and shows every node offline until it is heard of (the clock being past its first 45
  seconds).\<close>

theorem paired_survive_restart:
  assumes "farm_json_ok fj" and "farm_inv farm" and "fm_file farm \<noteq> None" and "length (pick_id reg) \<le> 256"
    and "farm_pair fj io now reg digest label farm = (Inr i, farm')"
  shows "\<exists>bytes. fm_file farm' = Some (Some bytes) \<and>
    (\<forall>md later. good_metadata md bytes \<longrightarrow>
       (\<exists>farm2. farm_open fj later md (Some bytes) = Inr farm2 \<and>
          (\<forall>hash k c. authenticate_paired hash k c farm2 = authenticate_paired hash k c farm') \<and>
          (ONLINE_WINDOW \<le> later \<longrightarrow> list_all (\<lambda>(_, e). \<not> nr_online (node_row later e)) (fm_inner farm2))))"
  using assms(5)
proof (cases rule: farm_pair_cases)
  case (tried m1 m2 p farm1)
  then have p: "p = None" "farm' = farm1" by auto
  have inner: "fm_inner farm' = m2" using persist_locked_inner [OF tried(4)] p by simp
  have inv: "map_inv m2" using pair_inv [OF assms(2,4,5)] inner by (simp add: farm_inv_map)
  obtain bytes where b: "fj_write fj (persisted_of fj m2) = Some bytes" "length bytes \<le> MAX_FARM_STATE_BYTES"
      "fm_file farm' = Some (Some bytes)"
    using tried(4) p assms(3) by (auto simp: persist_locked_def persist_state_def split: option.splits if_splits)
  have "\<exists>farm2. farm_open fj later md (Some bytes) = Inr farm2 \<and>
      (\<forall>hash k c. authenticate_paired hash k c farm2 = authenticate_paired hash k c farm') \<and>
      (ONLINE_WINDOW \<le> later \<longrightarrow> list_all (\<lambda>(_, e). \<not> nr_online (node_row later e)) (fm_inner farm2))"
    if md: "good_metadata md bytes" for md later
  proof -
    let ?stale = "if later < ONLINE_WINDOW then later else later - ONLINE_WINDOW"
    let ?farm2 = "\<lparr>fm_inner = map (\<lambda>(k, e). (k, restored fj ?stale e)) (filter (\<lambda>(_, e). is_paired (en_enrollment e)) m2),
      fm_file = Some (Some bytes)\<rparr>"
    have o: "farm_open fj later md (Some bytes) = Inr ?farm2" by (rule open_saved [OF assms(1) inv b(1,2) md])
    have wf: "bt_wf m2" using inv by (simp add: map_inv_def)
    have a: "authenticate_paired hash k c ?farm2 = authenticate_paired hash k c farm'" for hash k c
      by (rule authenticate_restored [OF wf inner, of _ fj ?stale]) simp
    have f: "ONLINE_WINDOW \<le> later \<longrightarrow> list_all (\<lambda>(_, e). \<not> nr_online (node_row later e)) (fm_inner ?farm2)"
      by (auto simp: list_all_iff node_row_def restored_def Let_def)
    from o a f show ?thesis by blast
  qed
  with b(3) show ?thesis by blast
qed simp

text \<open>A JSON library for one farm only.\<close>

definition one_farm :: "unit PersistedFarm" where
  "one_farm = \<lparr>ps_version = 1,
     ps_nodes = [\<lparr>pn_reg = sample_registration, pn_enrollment = Paired [1] ''l''\<rparr>]\<rparr>"

definition one_json :: "unit FarmJson" where
  "one_json = \<lparr>fj_null = (), fj_len = \<lambda>_. Some 4, fj_write = \<lambda>st. if st = one_farm then Some ''x'' else None,
     fj_read = \<lambda>s. Some one_farm\<rparr>"

theorem paired_survive_restart_witness:
  "let io = \<lparr>fo_dir = True, fo_create = True, fo_write = True, fo_rename = True, fo_sync = True\<rparr>
   in \<exists>farm2. farm_open one_json (secs 100)
        (Found \<lparr>md_is_symlink = False, md_is_file = True, md_len = 1, md_mode = 0\<rparr>) (Some ''x'') = Inr farm2 \<and>
      (\<forall>hash k c. authenticate_paired hash k c farm2
         = authenticate_paired hash k c (snd (farm_pair one_json io 0 sample_registration [1] ''l'' \<lparr>fm_inner = [], fm_file = Some None\<rparr>)))"
proof -
  let ?io = "\<lparr>fo_dir = True, fo_create = True, fo_write = True, fo_rename = True, fo_sync = True\<rparr>"
  let ?farm = "\<lparr>fm_inner = [], fm_file = Some None\<rparr> :: unit Farm"
  have t: "trim ''n1'' = ''n1''" by code_simp
  have i: "pick_id sample_registration = ''n1''" using t by (simp add: pick_id_def sample_registration_def)
  have p: "farm_pair one_json ?io 0 sample_registration [1] ''l'' ?farm
      = (Inr ''n1'', \<lparr>fm_inner = [(''n1'', \<lparr>en_reg = sample_registration, en_last_seen = 0, en_enrollment = Paired [1] ''l''\<rparr>)],
           fm_file = Some (Some ''x'')\<rparr>)"
    using i
    by (simp add: farm_pair_def normalised_def blob_too_big_def one_json_def cap_id_len_short farm_prune_def bt_retain_def
        MAX_NODES_def persist_locked_def persist_state_def persisted_of_def one_farm_def FARM_STATE_VERSION_def
        MAX_FARM_STATE_BYTES_def is_paired_def Let_def sample_registration_def)
  have "farm_json_ok one_json" by (simp add: farm_json_ok_def one_json_def)
  moreover have "farm_inv ?farm" by (simp add: farm_inv_def)
  moreover have "length (pick_id sample_registration) \<le> 256" by (simp add: i)
  ultimately have "\<exists>bytes. fm_file (snd (farm_pair one_json ?io 0 sample_registration [1] ''l'' ?farm)) = Some (Some bytes) \<and>
    (\<forall>md later. good_metadata md bytes \<longrightarrow>
       (\<exists>farm2. farm_open one_json later md (Some bytes) = Inr farm2 \<and>
          (\<forall>hash k c. authenticate_paired hash k c farm2
             = authenticate_paired hash k c (snd (farm_pair one_json ?io 0 sample_registration [1] ''l'' ?farm))) \<and>
          (ONLINE_WINDOW \<le> later \<longrightarrow> list_all (\<lambda>(_, e). \<not> nr_online (node_row later e)) (fm_inner farm2))))"
    using paired_survive_restart [of one_json ?farm sample_registration ?io 0 "[1]" "''l''" "''n1''"] p by simp
  then obtain bytes where bytes: "fm_file (snd (farm_pair one_json ?io 0 sample_registration [1] ''l'' ?farm)) = Some (Some bytes)"
    and all: "\<And>md later. good_metadata md bytes \<Longrightarrow>
       \<exists>farm2. farm_open one_json later md (Some bytes) = Inr farm2 \<and>
          (\<forall>hash k c. authenticate_paired hash k c farm2
             = authenticate_paired hash k c (snd (farm_pair one_json ?io 0 sample_registration [1] ''l'' ?farm)))"
    by blast
  have "bytes = ''x''" using bytes p by simp
  moreover have "good_metadata (Found \<lparr>md_is_symlink = False, md_is_file = True, md_len = 1, md_mode = 0\<rparr>) ''x''"
    by (simp add: good_metadata_def)
  ultimately show ?thesis using all [of _ "secs 100"] unfolding Let_def by blast
qed

end
