(* ===== verification/Gguf.thy ===== *)
theory Gguf
  imports Http
begin

text \<open>
  The GGUF header reader of \<open>core/models/src/lib.rs\<close> (\<open>inspect_gguf\<close> and its helpers).  A file is its
  bytes; the reader's state is a position in it, which a seek may move past the end.  \<open>maxo\<close> is the
  largest offset the file system lets a file be positioned at.  The reader recurses on arrays of arrays,
  so its model carries fuel for the depth of that recursion; \<open>gguf_terminates\<close> shows that the length of
  the file is enough fuel and enough iterations, whatever counts the header claims.
\<close>

section \<open>Model\<close>

record InferenceMeta =
  im_native_context :: u32
  im_layers :: u32
  im_kv_heads :: u32
  im_head_dim :: u32

datatype gguf_error = NotOpened | UnexpectedEof | StringTooLong | NotUtf8 | UnknownType u32 | NotAnInteger u32
  | ValueTooLarge | SeekFailed | OutOfFuel

definition read_exact :: "string \<Rightarrow> nat \<Rightarrow> nat \<Rightarrow> gguf_error + string \<times> nat" where
  "read_exact file n pos =
     (if n = 0 then Inr ([], pos)
      else if pos + n \<le> length file then Inr (take n (drop pos file), pos + n)
      else Inl UnexpectedEof)"

text \<open>\<open>uN::from_le_bytes\<close>.\<close>

fun le_value :: "string \<Rightarrow> nat" where
  "le_value [] = 0"
| "le_value (c # cs) = ccode c + 256 * le_value cs"

definition from_le_bytes :: "string \<times> nat \<Rightarrow> 'a::len word \<times> nat" where
  "from_le_bytes r = (word_of_nat (le_value (fst r)), snd r)"

definition read_u32 :: "string \<Rightarrow> nat \<Rightarrow> gguf_error + u32 \<times> nat" where
  "read_u32 file pos = map_sum id from_le_bytes (read_exact file 4 pos)"

definition read_u64 :: "string \<Rightarrow> nat \<Rightarrow> gguf_error + u64 \<times> nat" where
  "read_u64 file pos = map_sum id from_le_bytes (read_exact file 8 pos)"

definition read_byte :: "string \<Rightarrow> nat \<Rightarrow> gguf_error + u8 \<times> nat" where
  "read_byte file pos = map_sum id from_le_bytes (read_exact file 1 pos)"

definition read_u16 :: "string \<Rightarrow> nat \<Rightarrow> gguf_error + u16 \<times> nat" where
  "read_u16 file pos = map_sum id from_le_bytes (read_exact file 2 pos)"

definition read_string :: "string \<Rightarrow> nat \<Rightarrow> gguf_error + string \<times> nat" where
  "read_string file pos =
     (case read_u64 file pos of
        Inl e \<Rightarrow> Inl e
      | Inr (len, p) \<Rightarrow>
          if 16 * 1024 * 1024 < unat len then Inl StringTooLong
          else (case read_exact file (unat len) p of
                  Inl e \<Rightarrow> Inl e
                | Inr (bytes, q) \<Rightarrow> if utf8_valid bytes then Inr (bytes, q) else Inl NotUtf8))"

definition fixed_width :: "u32 \<Rightarrow> u64 option" where
  "fixed_width ty =
     (if ty = 0 \<or> ty = 1 \<or> ty = 7 then Some 1
      else if ty = 2 \<or> ty = 3 then Some 2
      else if 4 \<le> ty \<and> ty \<le> 6 then Some 4
      else if 10 \<le> ty \<and> ty \<le> 12 then Some 8
      else None)"

definition seek_forward :: "nat \<Rightarrow> u64 \<Rightarrow> nat \<Rightarrow> gguf_error + nat" where
  "seek_forward maxo bytes pos =
     (if 2 ^ 63 \<le> unat bytes then Inl ValueTooLarge
      else if maxo < pos + unat bytes then Inl SeekFailed
      else Inr (pos + unat bytes))"

fun skip_read_loop :: "string \<Rightarrow> nat \<Rightarrow> nat \<Rightarrow> gguf_error + nat" where
  "skip_read_loop file remaining pos =
     (if remaining = 0 then Inr pos
      else case read_exact file (min remaining 16) pos of
             Inl e \<Rightarrow> Inl e
           | Inr (_, p) \<Rightarrow> skip_read_loop file (remaining - min remaining 16) p)"

declare skip_read_loop.simps [simp del]

definition skip_value_read :: "string \<Rightarrow> u32 \<Rightarrow> nat \<Rightarrow> gguf_error + nat" where
  "skip_value_read file ty pos =
     (case fixed_width ty of
        None \<Rightarrow> Inl (NotAnInteger ty)
      | Some width \<Rightarrow> skip_read_loop file (unat width) pos)"

definition read_integer_value :: "string \<Rightarrow> u32 \<Rightarrow> nat \<Rightarrow> gguf_error + u64 option \<times> nat" where
  "read_integer_value file ty pos =
     (if ty = 0 then map_sum id (\<lambda>(v, p). (Some (ucast v), p)) (read_byte file pos)
      else if ty = 2 then map_sum id (\<lambda>(v, p). (Some (ucast v), p)) (read_u16 file pos)
      else if ty = 4 then map_sum id (\<lambda>(v, p). (Some (ucast v), p)) (read_u32 file pos)
      else if ty = 10 then map_sum id (\<lambda>(v, p). (Some v, p)) (read_u64 file pos)
      else map_sum id (Pair None) (skip_value_read file ty pos))"

text \<open>The loop over the elements of an array: \<open>skip\<close> is the skip of one element.\<close>

fun repeat_skip :: "(nat \<Rightarrow> gguf_error + nat) \<Rightarrow> nat \<Rightarrow> nat \<Rightarrow> gguf_error + nat" where
  "repeat_skip skip 0 pos = Inr pos"
| "repeat_skip skip (Suc n) pos =
     (case skip pos of Inl e \<Rightarrow> Inl e | Inr p \<Rightarrow> repeat_skip skip n p)"

fun skip_value :: "nat \<Rightarrow> nat \<Rightarrow> string \<Rightarrow> u32 \<Rightarrow> nat \<Rightarrow> gguf_error + nat" where
  "skip_value maxo 0 file ty pos = Inl OutOfFuel"
| "skip_value maxo (Suc fuel) file ty pos =
     (if ty = 8 then
        (case read_u64 file pos of Inl e \<Rightarrow> Inl e | Inr (len, p) \<Rightarrow> seek_forward maxo len p)
      else if ty = 9 then
        (case read_u32 file pos of
           Inl e \<Rightarrow> Inl e
         | Inr (element, p) \<Rightarrow>
             (case read_u64 file p of
                Inl e \<Rightarrow> Inl e
              | Inr (n, q) \<Rightarrow>
                  (case fixed_width element of
                     Some width \<Rightarrow> seek_forward maxo (sat_mul n width) q
                   | None \<Rightarrow> repeat_skip (skip_value maxo fuel file element) (unat n) q)))
      else (case fixed_width ty of
              None \<Rightarrow> Inl (UnknownType ty)
            | Some width \<Rightarrow> seek_forward maxo width pos))"

record gguf_fields =
  gf_context :: "u32 option"
  gf_layers :: "u32 option"
  gf_heads :: "u32 option"
  gf_kv_heads :: "u32 option"
  gf_embedding :: "u32 option"

definition no_fields :: gguf_fields where
  "no_fields = \<lparr>gf_context = None, gf_layers = None, gf_heads = None, gf_kv_heads = None, gf_embedding = None\<rparr>"

definition wanted :: "string \<Rightarrow> bool" where
  "wanted key =
     (ends_with key ''.context_length'' \<or> ends_with key ''.block_count'' \<or> ends_with key ''.attention.head_count''
      \<or> ends_with key ''.attention.head_count_kv'' \<or> ends_with key ''.embedding_length'')"

definition to_u32 :: "u64 \<Rightarrow> u32 option" where
  "to_u32 v = (if unat v < 2 ^ 32 then Some (ucast v) else None)"

definition set_field :: "string \<Rightarrow> u64 option \<Rightarrow> gguf_fields \<Rightarrow> gguf_fields" where
  "set_field key val st =
     (let v = Option.bind val to_u32 in
      if ends_with key ''.context_length'' then st\<lparr>gf_context := v\<rparr>
      else if ends_with key ''.block_count'' then st\<lparr>gf_layers := v\<rparr>
      else if ends_with key ''.attention.head_count_kv'' then st\<lparr>gf_kv_heads := v\<rparr>
      else if ends_with key ''.attention.head_count'' then st\<lparr>gf_heads := v\<rparr>
      else if ends_with key ''.embedding_length'' then st\<lparr>gf_embedding := v\<rparr>
      else st)"

definition complete :: "gguf_fields \<Rightarrow> InferenceMeta option" where
  "complete st =
     (case (gf_context st, gf_layers st, gf_heads st, gf_kv_heads st, gf_embedding st) of
        (Some c, Some l, Some h, Some k, Some e) \<Rightarrow>
          if 0 < h \<and> e mod h = 0
          then Some \<lparr>im_native_context = c, im_layers = l, im_kv_heads = k, im_head_dim = e div h\<rparr> else None
      | _ \<Rightarrow> None)"

fun gguf_entries :: "nat \<Rightarrow> nat \<Rightarrow> string \<Rightarrow> nat \<Rightarrow> gguf_fields \<Rightarrow> nat \<Rightarrow> gguf_error + InferenceMeta option" where
  "gguf_entries maxo fuel file 0 st pos = Inr None"
| "gguf_entries maxo fuel file (Suc n) st pos =
     (case read_string file pos of
        Inl e \<Rightarrow> Inl e
      | Inr (key, p) \<Rightarrow>
          (case read_u32 file p of
             Inl e \<Rightarrow> Inl e
           | Inr (ty, q) \<Rightarrow>
               (case (if wanted key then read_integer_value file ty q
                      else map_sum id (Pair None) (skip_value maxo fuel file ty q)) of
                  Inl e \<Rightarrow> Inl e
                | Inr (val, r) \<Rightarrow>
                    (let st' = set_field key val st
                     in case complete st' of
                          Some m \<Rightarrow> Inr (Some m)
                        | None \<Rightarrow> gguf_entries maxo fuel file n st' r))))"

text \<open>\<open>None\<close> for a path that cannot be opened.\<close>

definition inspect_gguf :: "nat \<Rightarrow> nat \<Rightarrow> string option \<Rightarrow> gguf_error + InferenceMeta option" where
  "inspect_gguf maxo fuel opened =
     (case opened of
        None \<Rightarrow> Inl NotOpened
      | Some file \<Rightarrow>
          (case read_exact file 4 0 of
             Inl e \<Rightarrow> Inl e
           | Inr (magic, p) \<Rightarrow>
               if magic \<noteq> ''GGUF'' then Inr None
               else (case read_u32 file p of
                       Inl e \<Rightarrow> Inl e
                     | Inr (version, q) \<Rightarrow>
                         if \<not> (2 \<le> version \<and> version \<le> 3) then Inr None
                         else (case read_u64 file q of
                                 Inl e \<Rightarrow> Inl e
                               | Inr (_, r) \<Rightarrow>
                                   (case read_u64 file r of
                                      Inl e \<Rightarrow> Inl e
                                    | Inr (metadata_count, s) \<Rightarrow>
                                        gguf_entries maxo fuel file (unat metadata_count) no_fields s)))))"

section \<open>Progress and termination\<close>

lemma map_sum_id_iff [simp]:
  "map_sum id f x = Inr y \<longleftrightarrow> (\<exists>z. x = Inr z \<and> y = f z)"
  "map_sum id f x = Inl e \<longleftrightarrow> x = Inl e"
  by (cases x; auto)+

lemma read_exact_Inr:
  "read_exact file n pos = Inr (b, p) \<Longrightarrow> p = pos + n \<and> length b = n \<and> (0 < n \<longrightarrow> p \<le> length file)"
  by (auto simp: read_exact_def split: if_splits)

lemma read_word_Inr:
  "read_u32 file pos = Inr (w, p) \<Longrightarrow> p = pos + 4 \<and> p \<le> length file"
  "read_u64 file pos = Inr (v, p) \<Longrightarrow> p = pos + 8 \<and> p \<le> length file"
  "read_byte file pos = Inr (b, p) \<Longrightarrow> p = pos + 1 \<and> p \<le> length file"
  "read_u16 file pos = Inr (h, p) \<Longrightarrow> p = pos + 2 \<and> p \<le> length file"
  by (auto simp: read_u32_def read_u64_def read_byte_def read_u16_def read_exact_def from_le_bytes_def split: if_splits)

lemma seek_forward_Inr: "seek_forward maxo w pos = Inr p \<Longrightarrow> pos \<le> p"
  by (auto simp: seek_forward_def split: if_splits)

lemma read_string_Inr: "read_string file pos = Inr (s, p) \<Longrightarrow> pos + 8 \<le> p \<and> pos + 8 \<le> length file"
  by (auto simp: read_string_def dest!: read_word_Inr read_exact_Inr split: sum.splits if_splits)

lemma skip_read_loop_Inr: "skip_read_loop file n pos = Inr p \<Longrightarrow> pos \<le> p"
proof (induction n arbitrary: pos rule: less_induct)
  case (less n)
  then show ?case
    by (subst (asm) (2) skip_read_loop.simps) (force dest: read_exact_Inr split: if_splits sum.splits prod.splits)
qed

lemma read_integer_value_Inr: "read_integer_value file ty pos = Inr (v, p) \<Longrightarrow> pos \<le> p"
  by (auto simp: read_integer_value_def skip_value_read_def dest!: read_word_Inr skip_read_loop_Inr
      split: if_splits sum.splits option.splits)

lemma reads_not_fuel:
  "read_u32 file pos \<noteq> Inl OutOfFuel" "read_u64 file pos \<noteq> Inl OutOfFuel" "read_string file pos \<noteq> Inl OutOfFuel"
  "seek_forward maxo w pos \<noteq> Inl OutOfFuel"
  by (auto simp: read_u32_def read_u64_def read_string_def read_exact_def seek_forward_def split: if_splits sum.splits prod.splits)

lemma skip_read_loop_not_fuel: "skip_read_loop file n pos \<noteq> Inl OutOfFuel"
proof (induction n arbitrary: pos rule: less_induct)
  case (less n)
  then show ?case by (subst skip_read_loop.simps) (auto simp: read_exact_def split: sum.splits)
qed

lemma read_integer_value_not_fuel: "read_integer_value file ty pos \<noteq> Inl OutOfFuel"
  using skip_read_loop_not_fuel
  by (auto simp: read_integer_value_def skip_value_read_def read_byte_def read_u16_def read_u32_def read_u64_def read_exact_def
      split: if_splits option.splits)

text \<open>What a skip promises: it does not go back, and it has fuel to spare.\<close>

definition skips_on :: "(nat \<Rightarrow> gguf_error + nat) \<Rightarrow> nat \<Rightarrow> bool" where
  "skips_on skip pos = (case skip pos of Inl e \<Rightarrow> e \<noteq> OutOfFuel | Inr p \<Rightarrow> pos \<le> p)"

lemma repeat_skip_on:
  assumes "\<And>p. pos \<le> p \<Longrightarrow> skips_on skip p"
  shows "skips_on (repeat_skip skip n) pos"
  using assms
proof (induction n arbitrary: pos)
  case 0
  then show ?case by (simp add: skips_on_def)
next
  case (Suc n)
  show ?case
  proof (cases "skip pos")
    case (Inl e)
    then show ?thesis using Suc.prems [of pos] by (simp add: skips_on_def)
  next
    case (Inr p)
    then have "pos \<le> p" using Suc.prems [of pos] by (simp add: skips_on_def)
    then have "skips_on (repeat_skip skip n) p" using Suc.prems by (intro Suc.IH) simp
    then show ?thesis using Inr \<open>pos \<le> p\<close> by (auto simp: skips_on_def split: sum.splits)
  qed
qed

lemma skip_value_on: "length file - pos < fuel \<Longrightarrow> skips_on (skip_value maxo fuel file ty) pos"
proof (induction fuel arbitrary: ty pos)
  case (Suc fuel)
  have inner: "repeat_skip (skip_value maxo fuel file el) n (12 + pos) \<noteq> Inl OutOfFuel"
      "repeat_skip (skip_value maxo fuel file el) n (12 + pos) = Inr p \<Longrightarrow> pos \<le> p"
    if "12 + pos \<le> length file" for el n p
  proof -
    have "skips_on (repeat_skip (skip_value maxo fuel file el) n) (12 + pos)"
      using Suc that by (intro repeat_skip_on Suc.IH) simp
    then show "repeat_skip (skip_value maxo fuel file el) n (12 + pos) \<noteq> Inl OutOfFuel"
      "repeat_skip (skip_value maxo fuel file el) n (12 + pos) = Inr p \<Longrightarrow> pos \<le> p"
      by (auto simp: skips_on_def split: sum.splits)
  qed
  show ?case
    using inner unfolding skips_on_def
    by (auto simp: reads_not_fuel dest!: read_word_Inr seek_forward_Inr split: sum.splits if_splits option.splits)
qed simp

lemma repeat_skip_cong:
  assumes "\<And>p. pos \<le> p \<Longrightarrow> skips_on skip p" and "\<And>p. pos \<le> p \<Longrightarrow> skip p = skip' p"
  shows "repeat_skip skip n pos = repeat_skip skip' n pos"
  using assms
proof (induction n arbitrary: pos)
  case (Suc n)
  show ?case
  proof (cases "skip pos")
    case (Inl e)
    then show ?thesis using Suc.prems(2) [of pos] by simp
  next
    case (Inr p)
    then have "pos \<le> p" using Suc.prems(1) [of pos] by (simp add: skips_on_def)
    then show ?thesis using Inr Suc.prems(2) [of pos] Suc.IH [of p] Suc.prems by simp
  qed
qed simp

lemma skip_value_more_fuel:
  "length file - pos < fuel \<Longrightarrow> fuel \<le> fuel' \<Longrightarrow> skip_value maxo fuel file ty pos = skip_value maxo fuel' file ty pos"
proof (induction fuel arbitrary: ty pos fuel')
  case (Suc fuel)
  then obtain f where f: "fuel' = Suc f" "fuel \<le> f" by (cases fuel') auto
  have inner: "repeat_skip (skip_value maxo fuel file el) n (12 + pos) = repeat_skip (skip_value maxo f file el) n (12 + pos)"
    if "12 + pos \<le> length file" for el n
    using Suc.prems(1) that f(2) by (intro repeat_skip_cong skip_value_on Suc.IH) auto
  then show ?case unfolding f(1)
    by (auto dest!: read_word_Inr split: sum.splits option.splits)
qed simp

lemma gguf_entries_not_fuel: "length file < fuel \<Longrightarrow> gguf_entries maxo fuel file n st pos \<noteq> Inl OutOfFuel"
proof (induction n arbitrary: st pos)
  case (Suc n)
  have "skip_value maxo fuel file ty q \<noteq> Inl OutOfFuel" for ty q
    using skip_value_on [of "file" q fuel maxo ty] Suc.prems less_imp_diff_less [of "length file" fuel q]
    by (auto simp: skips_on_def)
  then show ?case
    using Suc by (auto simp: reads_not_fuel read_integer_value_not_fuel Let_def split: sum.splits prod.splits option.splits if_splits)
qed simp

lemma gguf_entries_more_fuel:
  "length file < fuel \<Longrightarrow> fuel \<le> fuel' \<Longrightarrow> gguf_entries maxo fuel file n st pos = gguf_entries maxo fuel' file n st pos"
proof (induction n arbitrary: st pos)
  case (Suc n)
  have "skip_value maxo fuel file ty q = skip_value maxo fuel' file ty q" for ty q
    using Suc.prems by (intro skip_value_more_fuel) auto
  then show ?case using Suc.IH [OF Suc.prems] by (simp only: gguf_entries.simps)
qed simp

text \<open>A loop that advances inside the file each time runs at most as often as the file is long.\<close>

lemma repeat_skip_bound:
  assumes "\<And>p q. skip p = Inr q \<Longrightarrow> p < q \<and> p < len" and "len - pos < n" and "n \<le> m"
  shows "repeat_skip skip n pos = repeat_skip skip m pos"
  using assms(2,3)
proof (induction n arbitrary: pos m)
  case (Suc n)
  then obtain k where k: "m = Suc k" "n \<le> k" by (cases m) auto
  show ?case
  proof (cases "skip pos")
    case (Inr q)
    then have "pos < q" "pos < len" using assms(1) by auto
    then have "len - q < n" using Suc.prems(1) by linarith
    then show ?thesis using Inr k Suc.IH by simp
  qed (simp add: k)
qed simp

lemma skip_value_advances:
  assumes "skip_value maxo fuel file el p = Inr q" and "fixed_width el = None" and "length file < fuel"
  shows "p < q \<and> p < length file"
proof -
  obtain f where f: "fuel = Suc f" using assms(3) by (cases fuel) auto
  have "12 + p \<le> length file \<Longrightarrow> repeat_skip (skip_value maxo f file e) n (12 + p) = Inr q \<Longrightarrow> p < q" for e n
    using repeat_skip_on [of "12 + p" "skip_value maxo f file e" n] skip_value_on [of "file" _ f maxo e] assms(3) f
    by (force simp: skips_on_def)
  then show ?thesis
    using assms(1,2) unfolding f by (auto dest!: read_word_Inr seek_forward_Inr split: sum.splits if_splits option.splits)
qed

lemma gguf_entries_bound:
  "length file - pos < n \<Longrightarrow> n \<le> m \<Longrightarrow> length file < fuel \<Longrightarrow>
   gguf_entries maxo fuel file n st pos = gguf_entries maxo fuel file m st pos"
proof (induction n arbitrary: st pos m)
  case (Suc n)
  then obtain k where k: "m = Suc k" "n \<le> k" by (cases m) auto
  have rec: "gguf_entries maxo fuel file n st' r = gguf_entries maxo fuel file k st' r"
    if "pos + 8 \<le> length file" "pos + 8 \<le> r" for st' r
    using Suc.prems k that by (intro Suc.IH) auto
  have on: "q \<le> r" if "skip_value maxo fuel file ty q = Inr r" for ty q r
    using skip_value_on [of "file" q fuel maxo ty] Suc.prems(3) that by (simp add: skips_on_def)
  show ?case unfolding k(1)
    by (auto simp: Let_def intro!: rec dest!: read_string_Inr read_word_Inr on read_integer_value_Inr
        split: sum.splits prod.splits option.splits if_splits)
qed simp

section \<open>Writing a header\<close>

text \<open>The encoding the reader is to invert: GGUF values by type tag, nested arrays included.\<close>

fun le_bytes :: "nat \<Rightarrow> nat \<Rightarrow> string" where
  "le_bytes 0 v = []"
| "le_bytes (Suc n) v = char_of (v mod 256) # le_bytes n (v div 256)"

datatype gguf_value = Scalar u32 string | Str string | Packed u32 nat string | Nested u32 "gguf_value list"

fun gv_type :: "gguf_value \<Rightarrow> u32" where
  "gv_type (Scalar ty _) = ty"
| "gv_type (Str _) = 8"
| "gv_type (Packed _ _ _) = 9"
| "gv_type (Nested _ _) = 9"

fun gv_bytes :: "gguf_value \<Rightarrow> string" where
  "gv_bytes (Scalar _ b) = b"
| "gv_bytes (Str s) = le_bytes 8 (length s) @ s"
| "gv_bytes (Packed el n b) = le_bytes 4 (unat el) @ le_bytes 8 n @ b"
| "gv_bytes (Nested el vs) = le_bytes 4 (unat el) @ le_bytes 8 (length vs) @ concat (map gv_bytes vs)"

text \<open>The widths of the format's scalar types: 8-, 16- and 32-bit integers, signed ones beside unsigned, the
  32-bit float, the boolean, the 64-bit integers and the 64-bit float.\<close>

definition scalar_width :: "u32 \<Rightarrow> nat option" where
  "scalar_width = map_of [(0, 1), (1, 1), (2, 2), (3, 2), (4, 4), (5, 4), (6, 4), (7, 1), (10, 8), (11, 8), (12, 8)]"

fun gv_wf :: "gguf_value \<Rightarrow> bool" where
  "gv_wf (Scalar ty b) = (scalar_width ty = Some (length b))"
| "gv_wf (Str s) = (length s < 2 ^ 63)"
| "gv_wf (Packed el n b) =
     (case scalar_width el of None \<Rightarrow> False | Some w \<Rightarrow> length b = n * w \<and> length b < 2 ^ 63 \<and> n < 2 ^ 64)"
| "gv_wf (Nested el vs) = (scalar_width el = None \<and> length vs < 2 ^ 64 \<and> list_all (\<lambda>v. gv_type v = el \<and> gv_wf v) vs)"

lemma tag_ranges:
  "(4 :: u32) \<le> ty \<and> ty \<le> 6 \<longleftrightarrow> ty = 4 \<or> ty = 5 \<or> ty = 6" "(10 :: u32) \<le> ty \<and> ty \<le> 12 \<longleftrightarrow> ty = 10 \<or> ty = 11 \<or> ty = 12"
  unfolding word_le_nat_alt word_unat_eq_iff by auto

lemma fixed_width_scalar: "map_option unat (fixed_width ty) = scalar_width ty"
  unfolding fixed_width_def tag_ranges scalar_width_def by simp

lemma gv_wf_widths:
  "gv_wf (Scalar ty b) = (case fixed_width ty of None \<Rightarrow> False | Some w \<Rightarrow> length b = unat w)"
  "gv_wf (Packed el n b) =
     (case fixed_width el of None \<Rightarrow> False | Some w \<Rightarrow> length b = n * unat w \<and> length b < 2 ^ 63 \<and> n < 2 ^ 64)"
  "gv_wf (Nested el vs) = (fixed_width el = None \<and> length vs < 2 ^ 64 \<and> list_all (\<lambda>v. gv_type v = el \<and> gv_wf v) vs)"
  by (auto simp flip: fixed_width_scalar split: option.splits)

declare gv_wf.simps(1,3,4) [simp del] gv_wf_widths [simp]

lemma length_le_bytes [simp]: "length (le_bytes n v) = n"
  by (induction n arbitrary: v) auto

lemma le_value_bytes: "le_value (le_bytes n v) = v mod 256 ^ n"
proof (induction n arbitrary: v)
  case (Suc n)
  have "v mod 256 + 256 * (v div 256 mod 256 ^ n) = v mod (256 * 256 ^ n)" by (simp add: mod_mult2_eq)
  then show ?case by (simp add: Suc of_char_of)
qed simp

text \<open>A file with \<open>b\<close> at position \<open>pos\<close>.\<close>

definition holds_at :: "string \<Rightarrow> nat \<Rightarrow> string \<Rightarrow> bool" where
  "holds_at file pos b = (pos + length b \<le> length file \<and> take (length b) (drop pos file) = b)"

lemma holds_at_append: "holds_at file pos (b @ c) \<longleftrightarrow> holds_at file pos b \<and> holds_at file (pos + length b) c"
proof -
  have "take (length b + length c) (drop pos file) = take (length b) (drop pos file) @ take (length c) (drop (length b + pos) file)"
    by (simp add: take_add)
  moreover have "length (take (length b) (drop pos file)) = length b" if "pos + length b \<le> length file" using that by simp
  ultimately show ?thesis by (auto simp: holds_at_def add.commute append_eq_append_conv)
qed

lemma holds_at_context: "holds_at (pre @ b @ post) (length pre) b"
  by (simp add: holds_at_def)

lemma holds_at_length: "holds_at file pos b \<Longrightarrow> pos + length b \<le> length file"
  by (auto simp: holds_at_def)

lemma read_exact_at: "holds_at file pos b \<Longrightarrow> read_exact file (length b) pos = Inr (b, pos + length b)"
  by (auto simp: holds_at_def read_exact_def)

lemma read_word_at:
  "holds_at file pos (le_bytes 4 v) \<Longrightarrow> read_u32 file pos = Inr (word_of_nat v, pos + 4)"
  "holds_at file pos (le_bytes 8 v) \<Longrightarrow> read_u64 file pos = Inr (word_of_nat v, pos + 8)"
  using read_exact_at [of "file" pos "le_bytes 4 v"] read_exact_at [of "file" pos "le_bytes 8 v"]
  by (simp_all add: read_u32_def read_u64_def from_le_bytes_def le_value_bytes word_of_nat_eq_iff take_bit_eq_mod)

text \<open>Arrays of arrays: each level of nesting costs twelve bytes of file and one level of recursion, so
  no fixed depth is enough.\<close>

lemma nested_arrays_recurse:
  "skip_value maxo depth (concat (replicate depth (le_bytes 4 9 @ le_bytes 8 1))) 9 0 = Inl OutOfFuel"
proof -
  let ?h = "le_bytes 4 9 @ le_bytes 8 1"
  have "skip_value maxo k (concat (replicate (d + k) ?h)) 9 (12 * d) = Inl OutOfFuel" for d k
  proof (induction k arbitrary: d)
    case (Suc k)
    let ?file = "concat (replicate (d + Suc k) ?h)"
    have "?file = concat (replicate d ?h) @ ?h @ concat (replicate k ?h)"
      by (simp only: replicate_add replicate_Suc concat_append concat.simps)
    moreover have "length (concat (replicate d ?h)) = 12 * d" by (induction d) auto
    ultimately have "holds_at ?file (12 * d) ?h" using holds_at_context by metis
    then have "read_u32 ?file (12 * d) = Inr (9, 12 * d + 4)" "read_u64 ?file (12 * d + 4) = Inr (1, 12 * d + 4 + 8)"
      using read_word_at(1) [of ?file "12 * d" 9] read_word_at(2) [of ?file "12 * d + 4" 1]
      unfolding holds_at_append by simp_all
    moreover have "skip_value maxo k ?file 9 (12 * d + 4 + 8) = Inl OutOfFuel"
      using Suc.IH [of "Suc d"] by (simp add: algebra_simps)
    ultimately show ?case by (simp add: fixed_width_def)
  qed simp
  from this [of depth 0] show ?thesis by simp
qed

section \<open>Reading back\<close>

lemma list_all_gv_skip:
  assumes "\<And>v pos. v \<in> set vs \<Longrightarrow> start \<le> pos \<Longrightarrow> holds_at file pos (gv_bytes v) \<Longrightarrow> skip pos = Inr (pos + length (gv_bytes v))"
    and "start \<le> pos" and "holds_at file pos (concat (map gv_bytes vs))"
  shows "repeat_skip skip (length vs) pos = Inr (pos + length (concat (map gv_bytes vs)))"
  using assms
proof (induction vs arbitrary: pos)
  case (Cons v vs)
  then have h: "holds_at file pos (gv_bytes v)" "holds_at file (pos + length (gv_bytes v)) (concat (map gv_bytes vs))"
    by (simp_all add: holds_at_append)
  have "skip pos = Inr (pos + length (gv_bytes v))" using Cons.prems(1) [of v pos] Cons.prems(2) h(1) by simp
  moreover have "repeat_skip skip (length vs) (pos + length (gv_bytes v))
      = Inr (pos + length (gv_bytes v) + length (concat (map gv_bytes vs)))"
    using Cons.prems h(2) by (intro Cons.IH) auto
  ultimately show ?case by (simp add: add.assoc)
qed simp

lemma seek_forward_ok: "pos + n \<le> maxo \<Longrightarrow> n < 2 ^ 63 \<Longrightarrow> unat w = n \<Longrightarrow> seek_forward maxo w pos = Inr (pos + n)"
  by (simp add: seek_forward_def)

lemma fixed_width_small: "fixed_width ty = Some w \<Longrightarrow> 1 \<le> unat w \<and> unat w \<le> 8"
  by (auto simp: fixed_width_def split: if_splits)

lemma fixed_width_tags [simp]: "fixed_width 8 = None" "fixed_width 9 = None"
  by (simp_all add: fixed_width_def)

lemma skip_value_at:
  assumes "gv_wf v" and "holds_at file pos (gv_bytes v)" and "length file \<le> maxo" and "length file - pos < fuel"
  shows "skip_value maxo fuel file (gv_type v) pos = Inr (pos + length (gv_bytes v))"
  using assms(1,2,4)
proof (induction v arbitrary: pos fuel)
  case (Scalar ty b)
  then obtain w f where w: "fixed_width ty = Some w" "length b = unat w" "fuel = Suc f"
    by (cases fuel) (auto split: option.splits)
  then have "ty \<noteq> 8" "ty \<noteq> 9" by auto
  then show ?case
    using Scalar(2) w assms(3) fixed_width_small [OF w(1)] by (auto simp: holds_at_def intro!: seek_forward_ok)
next
  case (Str s)
  then obtain f where f: "fuel = Suc f" by (cases fuel) auto
  have h: "holds_at file pos (le_bytes 8 (length s))" "pos + 8 + length s \<le> maxo"
    using Str(2) assms(3) holds_at_length [OF Str(2)] by (auto simp: holds_at_append)
  have "unat (word_of_nat (length s) :: u64) = length s" using Str(1) by (simp add: unat_of_nat)
  then show ?case using h Str(1) by (simp add: f read_word_at seek_forward_ok)
next
  case (Packed el n b)
  then obtain f w where f: "fuel = Suc f" "fixed_width el = Some w" "length b = n * unat w" "length b < 2 ^ 63" "n < 2 ^ 64"
    by (cases fuel) (auto split: option.splits)
  have h: "holds_at file pos (le_bytes 4 (unat el))" "holds_at file (pos + 4) (le_bytes 8 n)" "pos + 12 + length b \<le> maxo"
    using Packed(2) assms(3) holds_at_length [OF Packed(2)] by (auto simp: holds_at_append add.assoc)
  have "unat (sat_mul (word_of_nat n) w) = length b" using f by (simp add: unat_sat_mul unat_of_nat)
  then have "seek_forward maxo (sat_mul (word_of_nat n) w) (pos + 12) = Inr (pos + 12 + length b)"
    using h(3) f(4) by (intro seek_forward_ok)
  then show ?case using h f by (simp add: read_word_at add.commute add.left_commute)
next
  case (Nested el vs)
  then obtain f where f: "fuel = Suc f" by (cases fuel) auto
  have h: "holds_at file pos (le_bytes 4 (unat el))" "holds_at file (pos + 4) (le_bytes 8 (length vs))"
      "holds_at file (pos + 12) (concat (map gv_bytes vs))" "pos + 12 \<le> length file"
    using Nested.prems(2) holds_at_length [OF Nested.prems(2)] by (auto simp: holds_at_append add.assoc)
  have "unat (word_of_nat (length vs) :: u64) = length vs" using Nested.prems(1) by (simp add: unat_of_nat)
  moreover have "repeat_skip (skip_value maxo f file el) (length vs) (pos + 12)
      = Inr (pos + 12 + length (concat (map gv_bytes vs)))"
  proof (rule list_all_gv_skip [OF _ order_refl h(3)])
    fix v p assume v: "v \<in> set vs" "pos + 12 \<le> p" "holds_at file p (gv_bytes v)"
    then have "gv_wf v" "gv_type v = el" using Nested.prems(1) by (auto simp: list_all_iff)
    moreover have "length file - p < f" using Nested.prems(3) f h(4) v(2) by linarith
    ultimately show "skip_value maxo f file el p = Inr (p + length (gv_bytes v))" using Nested.IH v by blast
  qed
  ultimately show ?case using Nested.prems(1) h(1,2) by (simp add: f read_word_at add.commute add.left_commute)
qed

definition gv_int :: "gguf_value \<Rightarrow> u64 option" where
  "gv_int v =
     (case v of Scalar ty b \<Rightarrow> if ty \<in> {0, 2, 4, 10} then Some (word_of_nat (le_value b)) else None | _ \<Rightarrow> None)"

lemma le_value_bound: "le_value b < 256 ^ length b"
proof (induction b)
  case (Cons c cs)
  have "ccode c < 256" by simp
  moreover have "256 * Suc (le_value cs) \<le> 256 * 256 ^ length cs" using Cons by (intro mult_le_mono2) simp
  ultimately have "ccode c + 256 * le_value cs < 256 * 256 ^ length cs" unfolding mult_Suc_right by (rule add_less_le_mono [THEN less_le_trans, OF _ order_refl])
  then show ?case by simp
qed simp

lemma ucast_le_value:
  assumes "length b * 8 \<le> LENGTH('a)" and "LENGTH('a) \<le> 64"
  shows "ucast (word_of_nat (le_value b) :: 'a::len word) = (word_of_nat (le_value b) :: u64)"
proof -
  have "le_value b < 2 ^ LENGTH('a)"
    using le_value_bound [of b] assms(1) power_increasing [of "length b * 8" "LENGTH('a)" "2 :: nat"]
    by (simp add: power_mult mult.commute [of _ 8] less_le_trans)
  then show ?thesis using assms(2) by (simp add: unsigned_of_nat take_bit_nat_eq_self)
qed

lemma read_integer_value_at:
  assumes "gv_wf (Scalar ty b)" and "holds_at file pos b"
  shows "read_integer_value file ty pos = Inr (gv_int (Scalar ty b), pos + length b)"
proof -
  obtain w where w: "fixed_width ty = Some w" "length b = unat w" using assms(1) by (auto split: option.splits)
  have r: "read_exact file (length b) pos = Inr (b, pos + length b)" by (rule read_exact_at [OF assms(2)])
  have "skip_read_loop file (unat w) pos = Inr (pos + length b)"
    using r w fixed_width_small [OF w(1)] by (subst skip_read_loop.simps) (simp add: skip_read_loop.simps [of _ 0])
  then have other: "skip_value_read file ty pos = Inr (pos + length b)" by (simp add: skip_value_read_def w(1))
  consider "ty = 0" "length b = 1" | "ty = 2" "length b = 2" | "ty = 4" "length b = 4" | "ty = 10" "length b = 8"
    | "ty \<notin> {0, 2, 4, 10}"
    using w by (cases "ty \<in> {0, 2, 4, 10}") (auto simp: fixed_width_def)
  then show ?thesis
    using r other
    by cases (auto simp: ucast_le_value read_integer_value_def gv_int_def read_byte_def read_u16_def read_u32_def read_u64_def from_le_bytes_def)
qed

fun entry_bytes :: "string \<times> gguf_value \<Rightarrow> string" where
  "entry_bytes (key, v) = le_bytes 8 (length key) @ key @ le_bytes 4 (unat (gv_type v)) @ gv_bytes v"

definition entry_wf :: "string \<times> gguf_value \<Rightarrow> bool" where
  "entry_wf kv = (case kv of (key, v) \<Rightarrow> utf8_valid key \<and> length key \<le> 16 * 1024 * 1024 \<and> gv_wf v)"

text \<open>What the entries say, read in order until every field is known.\<close>

fun scan_entries :: "gguf_fields \<Rightarrow> (string \<times> gguf_value) list \<Rightarrow> InferenceMeta option" where
  "scan_entries st [] = None"
| "scan_entries st ((key, v) # es) =
     (let st' = set_field key (gv_int v) st
      in case complete st' of Some m \<Rightarrow> Some m | None \<Rightarrow> scan_entries st' es)"

lemma set_field_unwanted: "\<not> wanted key \<Longrightarrow> set_field key val st = st"
  by (simp add: set_field_def wanted_def)

lemma gguf_entries_scan:
  assumes "list_all entry_wf es" and "holds_at file pos (concat (map entry_bytes es))"
    and "length file \<le> maxo" and "length file < fuel" and "\<forall>(key, v) \<in> set es. wanted key \<longrightarrow> (\<exists>ty b. v = Scalar ty b)"
  shows "gguf_entries maxo fuel file (length es) st pos = Inr (scan_entries st es)"
  using assms(1,2,5)
proof (induction es arbitrary: st pos)
  case (Cons kv es)
  obtain key v where kv: "kv = (key, v)" by (cases kv)
  define q where "q = pos + 8 + length key + 4"
  have h: "holds_at file pos (le_bytes 8 (length key))" "holds_at file (pos + 8) key"
      "holds_at file (pos + 8 + length key) (le_bytes 4 (unat (gv_type v)))"
      "holds_at file q (gv_bytes v)" "holds_at file (q + length (gv_bytes v)) (concat (map entry_bytes es))"
    using Cons.prems(2) unfolding q_def by (auto simp: kv holds_at_append add.assoc)
  have wf: "utf8_valid key" "length key \<le> 16 * 1024 * 1024" "gv_wf v" "wanted key \<longrightarrow> (\<exists>ty b. v = Scalar ty b)"
    using Cons.prems(1,3) by (auto simp: kv entry_wf_def)
  have "unat (word_of_nat (length key) :: u64) = length key" using wf(2) by (simp add: unat_of_nat)
  then have "read_string file pos = Inr (key, pos + 8 + length key)"
    using h(1) wf(1,2) read_exact_at [OF h(2)] by (simp add: read_string_def read_word_at)
  moreover have "read_u32 file (pos + 8 + length key) = Inr (gv_type v, q)"
    using read_word_at(1) [OF h(3)] by (simp add: q_def)
  moreover have "read_integer_value file (gv_type v) q = Inr (gv_int v, q + length (gv_bytes v))" if "wanted key"
    using wf(3,4) that h(4) read_integer_value_at by fastforce
  moreover have "skip_value maxo fuel file (gv_type v) q = Inr (q + length (gv_bytes v))"
    using wf(3) h(4) assms(3,4) by (intro skip_value_at) auto
  moreover have "set_field key (if wanted key then gv_int v else None) st = set_field key (gv_int v) st"
    by (simp add: set_field_unwanted)
  moreover have "gguf_entries maxo fuel file (length es) st' (q + length (gv_bytes v)) = Inr (scan_entries st' es)" for st'
    using Cons.IH Cons.prems(1,3) h(5) by simp
  ultimately show ?case by (simp add: kv Let_def set_field_unwanted split: option.splits)
qed simp

definition FIELD_KEYS :: "string list" where
  "FIELD_KEYS = [''.context_length'', ''.block_count'', ''.attention.head_count'', ''.attention.head_count_kv'', ''.embedding_length'']"

definition field_of :: "gguf_fields \<Rightarrow> string \<Rightarrow> u32 option" where
  "field_of st s =
     (if s = ''.context_length'' then gf_context st else if s = ''.block_count'' then gf_layers st
      else if s = ''.attention.head_count'' then gf_heads st else if s = ''.attention.head_count_kv'' then gf_kv_heads st
      else gf_embedding st)"

lemma FIELD_KEYS_free: "list_all (\<lambda>s. list_all (\<lambda>t. ends_with s t \<longrightarrow> s = t) FIELD_KEYS) FIELD_KEYS"
  by code_simp

lemma FIELD_KEYS_mem:
  "''.context_length'' \<in> set FIELD_KEYS" "''.block_count'' \<in> set FIELD_KEYS" "''.attention.head_count'' \<in> set FIELD_KEYS"
  "''.attention.head_count_kv'' \<in> set FIELD_KEYS" "''.embedding_length'' \<in> set FIELD_KEYS"
  by (simp_all add: FIELD_KEYS_def)

lemma FIELD_KEYS_iff:
  "s \<in> set FIELD_KEYS \<longleftrightarrow> s = ''.context_length'' \<or> s = ''.block_count'' \<or> s = ''.attention.head_count''
     \<or> s = ''.attention.head_count_kv'' \<or> s = ''.embedding_length''"
  unfolding FIELD_KEYS_def by (simp only: list.set insert_iff empty_iff simp_thms)

lemma suffix_unique:
  assumes "s \<in> set FIELD_KEYS" "t \<in> set FIELD_KEYS" "ends_with key s" "ends_with key t"
  shows "s = t"
proof -
  obtain r r' where "r @ s = r' @ t" using assms(3,4) by (auto simp: ends_with_iff)
  then have "ends_with s t \<or> ends_with t s" by (auto simp: ends_with_iff append_eq_append_conv2)
  then show ?thesis using FIELD_KEYS_free assms(1,2) by (auto simp: list_all_iff)
qed

lemma set_field_of:
  assumes "s \<in> set FIELD_KEYS"
  shows "field_of (set_field key val st) s = (if ends_with key s then Option.bind val to_u32 else field_of st s)"
proof (cases "ends_with key s")
  case True
  then have u: "ends_with key t \<longleftrightarrow> t = s" if "t \<in> set FIELD_KEYS" for t
    using suffix_unique assms that by blast
  have "ends_with key ''.context_length'' \<longleftrightarrow> ''.context_length'' = s" "ends_with key ''.block_count'' \<longleftrightarrow> ''.block_count'' = s"
    "ends_with key ''.attention.head_count'' \<longleftrightarrow> ''.attention.head_count'' = s"
    "ends_with key ''.attention.head_count_kv'' \<longleftrightarrow> ''.attention.head_count_kv'' = s"
    "ends_with key ''.embedding_length'' \<longleftrightarrow> ''.embedding_length'' = s"
    using u [OF FIELD_KEYS_mem(1)] u [OF FIELD_KEYS_mem(2)] u [OF FIELD_KEYS_mem(3)] u [OF FIELD_KEYS_mem(4)]
      u [OF FIELD_KEYS_mem(5)] by blast+
  then show ?thesis
    using assms [unfolded FIELD_KEYS_iff] True by (elim disjE) (simp_all add: set_field_def field_of_def Let_def)
next
  case False
  then show ?thesis
    using assms [unfolded FIELD_KEYS_iff] by (elim disjE) (simp_all add: set_field_def field_of_def Let_def)
qed

lemma field_of_ext:
  "(\<forall>s \<in> set FIELD_KEYS. field_of st s = field_of st' s) \<longleftrightarrow> (st :: gguf_fields) = st'"
  by (auto simp: FIELD_KEYS_def field_of_def)

lemma complete_known: "complete st = Some m \<Longrightarrow> s \<in> set FIELD_KEYS \<Longrightarrow> field_of st s \<noteq> None"
  by (auto simp: complete_def field_of_def FIELD_KEYS_def split: option.splits)

text \<open>Entries that agree with \<open>full\<close> and mention every field are enough for the reader to report \<open>full\<close>.\<close>

lemma scan_entries_full:
  assumes "complete full = Some m" and "\<forall>(key, v) \<in> set es. set_field key (gv_int v) full = full"
    and "\<forall>s \<in> set FIELD_KEYS. field_of st s = field_of full s \<or> field_of st s = None \<and> (\<exists>(key, v) \<in> set es. ends_with key s)"
    and "complete st = None"
  shows "scan_entries st es = Some m"
  using assms(2-4)
proof (induction es arbitrary: st)
  case Nil
  then have "st = full" using field_of_ext [of st full] by auto
  then show ?case using Nil assms(1) by simp
next
  case (Cons kv es)
  obtain key v where kv: "kv = (key, v)" by (cases kv)
  let ?st = "set_field key (gv_int v) st"
  have step: "field_of ?st s = field_of full s \<or> field_of ?st s = None \<and> (\<exists>(key, v) \<in> set es. ends_with key s)"
    if "s \<in> set FIELD_KEYS" for s
  proof -
    have "field_of (set_field key (gv_int v) full) s = field_of full s" using Cons.prems(1) kv by simp
    then show ?thesis using Cons.prems(2) that kv by (auto simp: set_field_of split: if_splits)
  qed
  show ?case
  proof (cases "complete ?st")
    case None
    then show ?thesis using Cons.IH [of ?st] Cons.prems(1) step kv by (simp add: Let_def)
  next
    case (Some m')
    have "field_of ?st s = field_of full s" if "s \<in> set FIELD_KEYS" for s
      using step [OF that] complete_known [OF Some that] by blast
    then have "?st = full" using field_of_ext [of ?st full] by blast
    then show ?thesis using assms(1) kv by (simp add: Let_def)
  qed
qed

section \<open>Properties\<close>

text \<open>C16. The reader ends on every file, whatever its header claims.  The counts a header carries are
  unsigned 64-bit numbers the file controls, and arrays nest; even so the recursion is never deeper, and
  no loop ever runs longer, than the file is long: more fuel or more iterations change nothing.\<close>

theorem gguf_terminates:
  "inspect_gguf maxo (Suc (length file)) (Some file) \<noteq> Inl OutOfFuel \<and>
   (\<forall>fuel > length file. inspect_gguf maxo fuel (Some file) = inspect_gguf maxo (Suc (length file)) (Some file)) \<and>
   (\<forall>n > length file. \<forall>fuel > length file. \<forall>st pos.
      gguf_entries maxo fuel file n st pos = gguf_entries maxo fuel file (Suc (length file)) st pos) \<and>
   (\<forall>n > length file. \<forall>fuel > length file. \<forall>el pos. fixed_width el = None \<longrightarrow>
      repeat_skip (skip_value maxo fuel file el) n pos = repeat_skip (skip_value maxo fuel file el) (Suc (length file)) pos)"
proof (intro conjI allI impI)
  let ?L = "Suc (length file)"
  show "inspect_gguf maxo ?L (Some file) \<noteq> Inl OutOfFuel"
    using gguf_entries_not_fuel [of "file" ?L]
    by (auto simp: inspect_gguf_def reads_not_fuel read_exact_def split: sum.splits if_splits)
  show "inspect_gguf maxo fuel (Some file) = inspect_gguf maxo ?L (Some file)" if "length file < fuel" for fuel
    using gguf_entries_more_fuel [of "file" ?L fuel maxo] that
    by (auto simp: inspect_gguf_def split: sum.splits)
  show "gguf_entries maxo fuel file n st pos = gguf_entries maxo fuel file ?L st pos"
    if "length file < n" "length file < fuel" for n fuel st pos
    using that by (intro gguf_entries_bound [symmetric]) auto
  show "repeat_skip (skip_value maxo fuel file el) n pos = repeat_skip (skip_value maxo fuel file el) ?L pos"
    if "length file < n" "length file < fuel" "fixed_width el = None" for n fuel el pos
    using that skip_value_advances by (intro repeat_skip_bound [of _ "length file", symmetric]) auto
qed

theorem gguf_terminates_witness:
  "let f = ''GGUF'' @ [CHR 0x03, CHR 0x00, CHR 0x00, CHR 0x00] @ replicate 8 (CHR 0x00) @ replicate 8 (CHR 0xFF)
   in inspect_gguf 10000 1000 (Some f) = inspect_gguf 10000 25 (Some f) \<and> inspect_gguf 10000 25 (Some f) \<noteq> Inl OutOfFuel"
proof -
  define f where "f = ''GGUF'' @ [CHR 0x03, CHR 0x00, CHR 0x00, CHR 0x00] @ replicate 8 (CHR 0x00) @ replicate 8 (CHR 0xFF)"
  have len: "Suc (length f) = 25" "length f < 1000" by (simp_all add: f_def)
  have "inspect_gguf 10000 1000 (Some f) = inspect_gguf 10000 25 (Some f) \<and> inspect_gguf 10000 25 (Some f) \<noteq> Inl OutOfFuel"
    using gguf_terminates [of 10000 f, THEN conjunct1]
      gguf_terminates [of 10000 f, THEN conjunct2, THEN conjunct1, rule_format, OF len(2)] unfolding len(1) by blast
  then show ?thesis unfolding f_def Let_def .
qed

text \<open>An entry holds the number \<open>x\<close>, in one of the format's unsigned integer types; and the entries give a field
  the number \<open>x\<close>: some entry's key ends with the field's name, and all that do hold \<open>x\<close>.\<close>

definition holds_number :: "u32 \<Rightarrow> gguf_value \<Rightarrow> bool" where
  "holds_number x v \<longleftrightarrow>
     (\<exists>(ty, n) \<in> {(0, 1), (2, 2), (4, 4), (10, 8)}. v = Scalar ty (le_bytes n (unat x)) \<and> unat x < 256 ^ n)"

definition gives :: "(string \<times> gguf_value) list \<Rightarrow> string \<Rightarrow> u32 \<Rightarrow> bool" where
  "gives es field x \<longleftrightarrow>
     (\<exists>arch v. (arch @ field, v) \<in> set es) \<and> (\<forall>arch v. (arch @ field, v) \<in> set es \<longrightarrow> holds_number x v)"

lemma holds_number_int:
  assumes "holds_number x v"
  shows "Option.bind (gv_int v) to_u32 = Some x" and "\<exists>ty b. v = Scalar ty b"
proof -
  obtain ty n where tn: "(ty, n) \<in> {(0, 1), (2, 2), (4, 4), (10, 8 :: nat)}" and v: "v = Scalar ty (le_bytes n (unat x))" "unat x < 256 ^ n"
    using assms unfolding holds_number_def by blast
  then have ty: "ty \<in> {0, 2, 4, 10}" by auto
  have x: "unat x < 2 ^ 32" using unsigned_less [of x, where 'a = nat] by simp
  then have "unat (word_of_nat (unat x) :: u64) = unat x" by (simp add: unsigned_of_nat take_bit_nat_eq_self)
  moreover have "ucast (word_of_nat (unat x) :: u64) = x"
    using x by (intro word_unat_eq_iff [THEN iffD2]) (simp add: unsigned_ucast_eq unsigned_of_nat take_bit_nat_eq_self)
  ultimately show "Option.bind (gv_int v) to_u32 = Some x" using v ty x by (simp add: gv_int_def le_value_bytes to_u32_def)
  show "\<exists>ty b. v = Scalar ty b" using v by blast
qed

text \<open>C17. A header is read back.  A file that starts with a well-formed GGUF header, in either version, whose
  entries (in any order, among others of any type, nested arrays included) give the context length \<open>c\<close>, the
  block count \<open>l\<close>, the head count \<open>h\<close>, the key-value head count \<open>k\<close> and the embedding length \<open>e\<close>, each under
  its own key and in any unsigned integer type that holds it, yields exactly those values, with the head
  dimension the quotient of the embedding length by the number of heads; what follows the entries does not
  matter.\<close>

theorem gguf_reads_back:
  assumes "ver = 2 \<or> ver = 3" and "list_all entry_wf es" and "length es < 2 ^ 64"
    and f: "file = ''GGUF'' @ le_bytes 4 ver @ le_bytes 8 tensors @ le_bytes 8 (length es) @ concat (map entry_bytes es) @ rest"
    and "length file \<le> maxo"
    and "gives es ''.context_length'' c" and "gives es ''.block_count'' l" and "gives es ''.attention.head_count'' h"
    and "gives es ''.attention.head_count_kv'' k" and "gives es ''.embedding_length'' e"
    and "0 < h" and "e mod h = 0"
  shows "inspect_gguf maxo (Suc (length file)) (Some file)
    = Inr (Some \<lparr>im_native_context = c, im_layers = l, im_kv_heads = k, im_head_dim = e div h\<rparr>)"
proof -
  let ?b = "concat (map entry_bytes es)"
  let ?m = "\<lparr>im_native_context = c, im_layers = l, im_kv_heads = k, im_head_dim = e div h\<rparr>"
  define full where "full = \<lparr>gf_context = Some c, gf_layers = Some l, gf_heads = Some h, gf_kv_heads = Some k, gf_embedding = Some e\<rparr>"
  have table: "\<exists>x. field_of full s = Some x \<and> gives es s x" if "s \<in> set FIELD_KEYS" for s
    using that assms(6-10) unfolding FIELD_KEYS_iff by (elim disjE) (simp_all add: full_def field_of_def)
  have same: "set_field key (gv_int v) full = full" if "(key, v) \<in> set es" for key v
  proof -
    have "field_of (set_field key (gv_int v) full) s = field_of full s" if s: "s \<in> set FIELD_KEYS" for s
    proof (cases "ends_with key s")
      case True
      obtain x where x: "field_of full s = Some x" "gives es s x" using table [OF s] by blast
      then have "holds_number x v" using True \<open>(key, v) \<in> set es\<close> by (auto simp: ends_with_iff gives_def)
      from holds_number_int(1) [OF this] True x(1) show ?thesis by (simp add: set_field_of [OF s])
    qed (simp add: set_field_of [OF s])
    then show ?thesis using field_of_ext by blast
  qed
  have named: "\<exists>(key, v) \<in> set es. ends_with key s" if "s \<in> set FIELD_KEYS" for s
    using table [OF that] by (fastforce simp: gives_def ends_with_iff)
  have scalars: "\<forall>(key, v) \<in> set es. wanted key \<longrightarrow> (\<exists>ty b. v = Scalar ty b)"
  proof safe
    fix key v assume kv: "(key, v) \<in> set es" "wanted key"
    then obtain s where s: "s \<in> set FIELD_KEYS" "ends_with key s" by (auto simp: wanted_def FIELD_KEYS_iff)
    then obtain x where "gives es s x" using table by blast
    with s(2) kv(1) have "holds_number x v" by (auto simp: ends_with_iff gives_def)
    then show "\<exists>ty b. v = Scalar ty b" by (rule holds_number_int(2))
  qed
  have "holds_at file 0 (''GGUF'' @ le_bytes 4 ver @ le_bytes 8 tensors @ le_bytes 8 (length es) @ ?b)"
    using holds_at_context [of "[]" "''GGUF'' @ le_bytes 4 ver @ le_bytes 8 tensors @ le_bytes 8 (length es) @ ?b" rest]
    unfolding f by simp
  moreover have "length ''GGUF'' = 4" by simp
  ultimately have h: "holds_at file 0 ''GGUF''" "holds_at file 4 (le_bytes 4 ver)" "holds_at file 8 (le_bytes 8 tensors)"
      "holds_at file 16 (le_bytes 8 (length es))" "holds_at file 24 ?b"
    unfolding holds_at_append by (simp_all only: length_le_bytes) simp_all
  have "field_of no_fields s = None" for s by (simp add: field_of_def no_fields_def)
  moreover have "complete no_fields = None" by (simp add: complete_def no_fields_def)
  moreover have "complete full = Some ?m" using assms(11,12) by (simp add: complete_def full_def)
  ultimately have "scan_entries no_fields es = Some ?m" using same named by (intro scan_entries_full) auto
  then have "gguf_entries maxo (Suc (length file)) file (length es) no_fields 24 = Inr (Some ?m)"
    using gguf_entries_scan [OF assms(2) h(5) assms(5) _ scalars, of "Suc (length file)" no_fields] by simp
  moreover have "unat (word_of_nat (length es) :: u64) = length es" using assms(3) by (simp add: unat_of_nat)
  moreover have "2 \<le> (word_of_nat ver :: u32) \<and> (word_of_nat ver :: u32) \<le> 3" using assms(1) by auto
  moreover have "read_exact file 4 0 = Inr (''GGUF'', 4)"
    using read_exact_at [OF h(1)] by (simp add: eval_nat_numeral)
  ultimately show ?thesis using h(2-4) by (simp add: inspect_gguf_def read_word_at)
qed

definition example_entries :: "(string \<times> gguf_value) list" where
  "example_entries =
     [(''general.name'', Str ''tiny''), (''t.vocab'', Nested 8 [Str ''a'', Str ''b'']),
      (''t.embedding_length'', Scalar 4 (le_bytes 4 2048)), (''t.block_count'', Scalar 4 (le_bytes 4 22)),
      (''t.attention.head_count_kv'', Scalar 2 (le_bytes 2 4)), (''t.context_length'', Scalar 10 (le_bytes 8 2048)),
      (''t.attention.head_count'', Scalar 4 (le_bytes 4 32))]"

lemma gives_code:
  "gives es field x \<longleftrightarrow> list_ex (\<lambda>(key, v). ends_with key field) es \<and>
     list_all (\<lambda>(key, v). ends_with key field \<longrightarrow> holds_number x v) es"
  by (auto simp: gives_def list_ex_iff list_all_iff ends_with_iff; blast)

lemma example_entries_wf:
  "list_all entry_wf example_entries" "length example_entries < 2 ^ 64"
  "gives example_entries ''.context_length'' 2048" "gives example_entries ''.block_count'' 22"
  "gives example_entries ''.attention.head_count'' 32" "gives example_entries ''.attention.head_count_kv'' 4"
  "gives example_entries ''.embedding_length'' 2048"
proof -
  note eval = ends_with_def strip_suffix_def
  show "list_all entry_wf example_entries"
    by (simp add: example_entries_def entry_wf_def utf8_valid_def utf8_lead_def fixed_width_def eval)
  show "length example_entries < 2 ^ 64" by (simp add: example_entries_def)
  show "gives example_entries ''.context_length'' 2048" "gives example_entries ''.block_count'' 22"
    "gives example_entries ''.attention.head_count'' 32" "gives example_entries ''.attention.head_count_kv'' 4"
    "gives example_entries ''.embedding_length'' 2048"
    by (simp_all add: gives_code example_entries_def holds_number_def eval)
qed

theorem gguf_reads_back_witness:
  "let file = ''GGUF'' @ le_bytes 4 3 @ le_bytes 8 0 @ le_bytes 8 (length example_entries) @ concat (map entry_bytes example_entries) @ ''weights''
   in inspect_gguf (length file) (Suc (length file)) (Some file)
      = Inr (Some \<lparr>im_native_context = 2048, im_layers = 22, im_kv_heads = 4, im_head_dim = 64\<rparr>)"
proof -
  have "(2048 :: u32) div 32 = 64" by simp
  then show ?thesis
    using gguf_reads_back [OF _ example_entries_wf(1,2) refl order_refl example_entries_wf(3-7), of 3 0 "''weights''"]
    unfolding Let_def by simp
qed

end
