(* ===== verification/Catalog.thy ===== *)
theory Catalog
  imports Gguf Model
begin

text \<open>
  \<open>core/models/src/lib.rs\<close>: the table of pinned models, the recommendation for a machine, the model cache
  (listing, removal, collection of partial downloads, resolution of a name) and the verified download.
  The cache directory is a map from names to entries; SHA-256 is the parameter \<open>sha\<close>; what \<open>df\<close>, \<open>curl\<close> and
  the file system answered is the argument \<open>PullIo\<close>.  Paths are lists of components, with the separator of
  Unix; progress lines are not modelled.
\<close>

section \<open>The pinned models\<close>

definition ALIASES :: "(string \<times> string \<times> string \<times> fl \<times> string) list" where
  "ALIASES =
     [(''qwen2.5-0.5b'', ''bartowski/Qwen2.5-0.5B-Instruct-GGUF'', ''Qwen2.5-0.5B-Instruct-Q4_K_M.gguf'', round64 (5 / 10),
       ''6eb923e7d26e9cea28811e1a8e852009b21242fb157b26149d3b188f3a8c8653''),
      (''tinyllama'', ''TheBloke/TinyLlama-1.1B-Chat-v1.0-GGUF'', ''tinyllama-1.1b-chat-v1.0.Q4_K_M.gguf'', round64 (11 / 10),
       ''9fecc3b3cd76bba89d504f29b616eedf7da85b96540e490ca5824d3f7d2776a0''),
      (''llama3.2-3b'', ''bartowski/Llama-3.2-3B-Instruct-GGUF'', ''Llama-3.2-3B-Instruct-Q4_K_M.gguf'', round64 3,
       ''6c1a2b41161032677be168d354123594c0e6e67d2b9227c84f296ad037c728ff'')]"

record Alias =
  al_name :: string
  al_repo :: string
  al_file :: string
  al_sha256 :: string

definition aliases :: "Alias list" where
  "aliases = map (\<lambda>(name, repo, file, _, sha256). \<lparr>al_name = name, al_repo = repo, al_file = file, al_sha256 = sha256\<rparr>) ALIASES"

definition alias_row :: "string \<Rightarrow> (string \<times> string \<times> string \<times> fl \<times> string) option" where
  "alias_row name = List.find (\<lambda>(n, _). n = name) ALIASES"

definition params_b_for :: "string \<Rightarrow> fl option" where
  "params_b_for name =
     (let key = (case strip_suffix ''.gguf'' name of None \<Rightarrow> name | Some k \<Rightarrow> k)
      in map_option (\<lambda>(_, _, _, p, _). p) (alias_row key))"

definition inference_meta_for :: "string \<Rightarrow> InferenceMeta option" where
  "inference_meta_for name =
     (let lower = to_lower name in
      if has_sub lower ''qwen2.5-0.5b'' then
        Some \<lparr>im_native_context = 32768, im_layers = 24, im_kv_heads = 2, im_head_dim = 64\<rparr>
      else if has_sub lower ''tinyllama'' then
        Some \<lparr>im_native_context = 2048, im_layers = 22, im_kv_heads = 4, im_head_dim = 64\<rparr>
      else if has_sub lower ''llama3.2-3b'' \<or> has_sub lower ''llama-3.2-3b'' then
        Some \<lparr>im_native_context = 131072, im_layers = 28, im_kv_heads = 8, im_head_dim = 128\<rparr>
      else None)"

section \<open>Recommendation\<close>

datatype Workload = Chat | Coding | Agent

definition workload_parse :: "string \<Rightarrow> Workload option" where
  "workload_parse s =
     (let v = to_lower s in
      if v = ''chat'' then Some Chat
      else if v = ''coding'' \<or> v = ''code'' then Some Coding
      else if v = ''agent'' \<or> v = ''agents'' \<or> v = ''knossos'' then Some Agent
      else None)"

record HardwareCapacity =
  hc_accelerator_bytes :: u64
  hc_host_bytes :: u64
  hc_accelerator_available :: bool

datatype RecommendationFit = Accelerator | HostOffload | ConservativeFallback

record ModelRecommendation =
  rec_workload :: Workload
  rec_model :: string
  rec_quant :: string
  rec_context_tokens :: u32
  rec_estimated_runtime_bytes :: u64
  rec_fit :: RecommendationFit
  rec_reason :: string

record RecommendationProfile =
  pf_alias :: string
  pf_context_tokens :: u32
  pf_chat_score :: u8
  pf_coding_score :: u8
  pf_agent_score :: u8

definition RECOMMENDATION_PROFILES :: "RecommendationProfile list" where
  "RECOMMENDATION_PROFILES =
     [\<lparr>pf_alias = ''qwen2.5-0.5b'', pf_context_tokens = 16384, pf_chat_score = 45, pf_coding_score = 58, pf_agent_score = 55\<rparr>,
      \<lparr>pf_alias = ''tinyllama'', pf_context_tokens = 1638, pf_chat_score = 40, pf_coding_score = 30, pf_agent_score = 32\<rparr>,
      \<lparr>pf_alias = ''llama3.2-3b'', pf_context_tokens = 32768, pf_chat_score = 88, pf_coding_score = 68, pf_agent_score = 76\<rparr>]"

definition profile_score :: "RecommendationProfile \<Rightarrow> Workload \<Rightarrow> u8" where
  "profile_score p w = (case w of Chat \<Rightarrow> pf_chat_score p | Coding \<Rightarrow> pf_coding_score p | Agent \<Rightarrow> pf_agent_score p)"

text \<open>\<open>f64::min\<close>, which ignores a NaN.\<close>

definition fmin :: "fl \<Rightarrow> fl \<Rightarrow> fl" where
  "fmin a b = (if is_nan a then b else if is_nan b then a else if flt b a then b else a)"

definition estimated_runtime_bytes :: "string \<Rightarrow> u64" where
  "estimated_runtime_bytes name =
     (let params = (case params_b_for name of None \<Rightarrow> round64 (5 / 10) | Some p \<Rightarrow> p);
          bytes = fmul round64 (fmul round64 (fmul round64 params (round64 1000000000))
                    (fdiv round64 (round64 (485 / 100)) (round64 8))) (round64 (125 / 100))
      in as_word (fmin bytes (of_word64 (- 1 :: u64))))"

type_synonym ranked_profile = "RecommendationProfile \<times> RecommendationFit \<times> u64"

definition profile_fit :: "HardwareCapacity \<Rightarrow> RecommendationProfile \<Rightarrow> ranked_profile" where
  "profile_fit cap p =
     (let host_pool = sat_mul (hc_host_bytes cap) 3 div 4;
          need = estimated_runtime_bytes (pf_alias p)
      in (p, if hc_accelerator_available cap \<and> need \<le> hc_accelerator_bytes cap then Accelerator
             else if need \<le> host_pool then HostOffload else ConservativeFallback, need))"

fun fit_rank :: "RecommendationFit \<Rightarrow> nat" where
  "fit_rank Accelerator = 0"
| "fit_rank HostOffload = 1"
| "fit_rank ConservativeFallback = 2"

definition ranks_before :: "Workload \<Rightarrow> ranked_profile \<Rightarrow> ranked_profile \<Rightarrow> bool" where
  "ranks_before w x y =
     (case x of (a, a_fit, a_need) \<Rightarrow> case y of (b, b_fit, b_need) \<Rightarrow>
        if fit_rank a_fit \<noteq> fit_rank b_fit then fit_rank a_fit < fit_rank b_fit
        else if a_fit = ConservativeFallback \<and> b_fit = ConservativeFallback \<and> a_need \<noteq> b_need then a_need < b_need
        else if profile_score a w \<noteq> profile_score b w then profile_score b w < profile_score a w
        else if pf_context_tokens a \<noteq> pf_context_tokens b then pf_context_tokens b < pf_context_tokens a
        else pf_alias a < pf_alias b)"

text \<open>A stable sort by a comparison: an element goes before the first one it precedes.\<close>

fun insert_by :: "('a \<Rightarrow> 'a \<Rightarrow> bool) \<Rightarrow> 'a \<Rightarrow> 'a list \<Rightarrow> 'a list" where
  "insert_by lt x [] = [x]"
| "insert_by lt x (y # ys) = (if lt y x then y # insert_by lt x ys else x # y # ys)"

definition sort_by :: "('a \<Rightarrow> 'a \<Rightarrow> bool) \<Rightarrow> 'a list \<Rightarrow> 'a list" where
  "sort_by lt xs = foldr (insert_by lt) xs []"

fun show_workload :: "Workload \<Rightarrow> string" where
  "show_workload Chat = ''Chat''"
| "show_workload Coding = ''Coding''"
| "show_workload Agent = ''Agent''"

text \<open>\<open>None\<close> is the panic of an empty catalogue.\<close>

definition recommend :: "HardwareCapacity \<Rightarrow> Workload \<Rightarrow> ModelRecommendation option" where
  "recommend cap w =
     (case sort_by (ranks_before w)
             (map (profile_fit cap)
               (filter (\<lambda>p. list_ex (\<lambda>a. al_name a = pf_alias p) aliases) RECOMMENDATION_PROFILES)) of
        [] \<Rightarrow> None
      | (p, fit, need) # _ \<Rightarrow>
          Some \<lparr>rec_workload = w, rec_model = pf_alias p, rec_quant = ''Q4_K_M'', rec_context_tokens = pf_context_tokens p,
            rec_estimated_runtime_bytes = need, rec_fit = fit,
            rec_reason =
              (case fit of
                 Accelerator \<Rightarrow> ''best pinned '' @ show_workload w @ '' profile that fits accelerator headroom''
               | HostOffload \<Rightarrow> ''best pinned '' @ show_workload w @ '' profile using bounded host offload''
               | ConservativeFallback \<Rightarrow> ''no pinned profile fits reported headroom; smallest safe catalog fallback'')\<rparr>)"

section \<open>The model cache\<close>

datatype entry = RegularFile string | SymlinkTo "string option" | DirEntry

type_synonym cache = "(string, entry) hash_map"

definition is_file :: "entry option \<Rightarrow> bool" where
  "is_file e = (case e of Some (RegularFile _) \<Rightarrow> True | Some (SymlinkTo (Some _)) \<Rightarrow> True | _ \<Rightarrow> False)"

text \<open>\<open>Path::components\<close>, \<open>join\<close> of a relative path and \<open>parent\<close>, on Unix.\<close>

datatype component = RootDir | CurDir | ParentDir | NormalPart string

definition piece_component :: "string \<Rightarrow> component" where
  "piece_component p = (if p = ''.'' then CurDir else if p = ''..'' then ParentDir else NormalPart p)"

definition path_components :: "string \<Rightarrow> component list" where
  "path_components p =
     (let pieces = filter (\<lambda>x. x \<noteq> []) (split_on (CHR ''/'') p);
          rooted = starts_with p ''/''
      in (if rooted then [RootDir] else []) @
         (case pieces of
            [] \<Rightarrow> []
          | x # xs \<Rightarrow> (if x = ''.'' \<and> rooted then [] else [piece_component x]) @ map piece_component (filter (\<lambda>y. y \<noteq> ''.'') xs)))"

definition path_parent :: "component list \<Rightarrow> component list option" where
  "path_parent p = (if p = [] then None else Some (butlast p))"

text \<open>\<open>Path::extension\<close> of a single file name.\<close>

definition extension :: "string \<Rightarrow> string option" where
  "extension name =
     (if name = ''..'' then None
      else case rsplit_once (CHR ''.'') name of None \<Rightarrow> None | Some (stem, x) \<Rightarrow> if stem = [] then None else Some x)"

definition path_join :: "string \<Rightarrow> string \<Rightarrow> string" where
  "path_join d n = (if d = [] \<or> last d = CHR ''/'' then d @ n else d @ ''/'' @ n)"

definition models_dir :: "string option \<Rightarrow> bool \<Rightarrow> string option \<Rightarrow> string option \<Rightarrow> string" where
  "models_dir env_dir system_is_dir home userprofile =
     (case env_dir of
        Some d \<Rightarrow> d
      | None \<Rightarrow>
          if system_is_dir then ''/var/lib/cameo/models''
          else path_join (case home of Some h \<Rightarrow> h | None \<Rightarrow> (case userprofile of Some u \<Rightarrow> u | None \<Rightarrow> ''.''))
                 ''.cache/cameo/models'')"

text \<open>\<open>None\<close> is a directory that cannot be read; \<open>fsize\<close> is the length an entry's metadata reports.\<close>

definition listed :: "cache \<Rightarrow> string list" where
  "listed dir = map fst (filter (\<lambda>(n, _). extension n = Some ''gguf'') dir)"

definition cached_models :: "cache option \<Rightarrow> string list" where
  "cached_models readable = (case readable of None \<Rightarrow> [] | Some dir \<Rightarrow> sort (listed dir))"

definition model_sizes_in :: "(entry \<Rightarrow> u64 option) \<Rightarrow> cache option \<Rightarrow> (string \<times> u64) list" where
  "model_sizes_in fsize readable =
     (case readable of
        None \<Rightarrow> []
      | Some dir \<Rightarrow>
          sort_key fst (map (\<lambda>(n, e). (n, case fsize e of None \<Rightarrow> 0 | Some s \<Rightarrow> s))
            (filter (\<lambda>(n, _). extension n = Some ''gguf'') dir)))"

definition cache_bytes :: "(entry \<Rightarrow> u64 option) \<Rightarrow> cache option \<Rightarrow> u64" where
  "cache_bytes fsize readable = sum_list (map snd (model_sizes_in fsize readable))"

definition cache_get :: "cache \<Rightarrow> string \<Rightarrow> entry option" where
  "cache_get dir name = (if name = [] then None else hm_get dir name)"

datatype cache_error = HasSeparator | RemoveFailed string | NoSuchModel string

definition remove_in :: "(string \<Rightarrow> bool) \<Rightarrow> string \<Rightarrow> cache \<Rightarrow> (cache_error + string) \<times> cache" where
  "remove_in removable name dir =
     (if CHR ''/'' \<in> set name \<or> CHR 0x5C \<in> set name \<or> name = ''.'' \<or> name = ''..'' then (Inl HasSeparator, dir)
      else case List.find (\<lambda>c. is_file (cache_get dir c)) [name, name @ ''.gguf''] of
             None \<Rightarrow> (Inl (NoSuchModel name), dir)
           | Some c \<Rightarrow> if removable c then (Inr c, hm_remove c dir) else (Inl (RemoveFailed c), dir))"

text \<open>The loop over the directory's entries: \<open>todo\<close> are the names still to visit.\<close>

fun gc_loop :: "(string \<Rightarrow> bool) \<Rightarrow> string list \<Rightarrow> string list \<Rightarrow> cache \<Rightarrow> (cache_error + string list) \<times> cache" where
  "gc_loop removable [] cleaned dir = (Inr (sort cleaned), dir)"
| "gc_loop removable (n # todo) cleaned dir =
     (if extension n = Some ''part'' then
        (if removable n \<and> hm_get dir n \<noteq> Some DirEntry then gc_loop removable todo (cleaned @ [n]) (hm_remove n dir)
         else (Inl (RemoveFailed n), dir))
      else gc_loop removable todo cleaned dir)"

definition gc_partials_in :: "(string \<Rightarrow> bool) \<Rightarrow> cache option \<Rightarrow> (cache_error + string list) \<times> cache option" where
  "gc_partials_in removable readable =
     (case readable of
        None \<Rightarrow> (Inr [], None)
      | Some dir \<Rightarrow> (case gc_loop removable (map fst dir) [] dir of (r, dir') \<Rightarrow> (r, Some dir')))"

definition models_resolve :: "(string \<Rightarrow> bool) \<Rightarrow> string \<Rightarrow> string \<Rightarrow> cache \<Rightarrow> cache_error + string" where
  "models_resolve exists dirname name dir =
     (if CHR ''/'' \<in> set name \<or> CHR 0x5C \<in> set name \<or> (ends_with name ''.gguf'' \<and> exists name) then Inr name
      else case List.find (\<lambda>c. is_file (cache_get dir c)) [name, name @ ''.gguf''] of
             None \<Rightarrow> Inl (NoSuchModel name)
           | Some c \<Rightarrow> Inr (path_join dirname c))"

section \<open>Downloads\<close>

datatype pull_error =
    BadFilename | PlainHttp | NoFilename | UnknownSpec string | EscapesCache
  | BadDigest | DigestConflict string | DigestRequired
  | CreateDirFailed | NotARegularFile | HashReadFailed | ChangedWhileHashing
  | CachedMismatch string string | NotEnoughSpace u64 u64 | CurlNotRun | DownloadFailed
  | DigestMismatch string string | RenameFailed

definition validate_pull_filename :: "string \<Rightarrow> pull_error option" where
  "validate_pull_filename f =
     (if f = [] \<or> f = ''.'' \<or> f = ''..'' \<or> CHR ''/'' \<in> set f \<or> CHR 0x5C \<in> set f \<or> \<not> ends_with (to_lower f) ''.gguf''
      then Some BadFilename
      else case path_components f of [NormalPart _] \<Rightarrow> None | _ \<Rightarrow> Some BadFilename)"

definition hugging_face_url :: "string \<Rightarrow> string \<Rightarrow> string" where
  "hugging_face_url repo f = ''https://huggingface.co/'' @ repo @ ''/resolve/main/'' @ f"

definition spec_to_url :: "string \<Rightarrow> pull_error + string \<times> string" where
  "spec_to_url spec =
     (case alias_row spec of
        Some (_, repo, f, _, _) \<Rightarrow>
          (case validate_pull_filename (spec @ ''.gguf'') of
             Some e \<Rightarrow> Inl e | None \<Rightarrow> Inr (hugging_face_url repo f, spec @ ''.gguf''))
      | None \<Rightarrow>
          if starts_with spec ''http://'' then Inl PlainHttp
          else if starts_with spec ''https://'' then
            (let f = last (split_on (CHR ''/'') spec)
             in if f = [] then Inl NoFilename
                else (case validate_pull_filename f of Some e \<Rightarrow> Inl e | None \<Rightarrow> Inr (spec, f)))
          else (case split_once (CHR '':'') spec of
                  Some (repo, f) \<Rightarrow>
                    if CHR ''/'' \<in> set repo \<and> validate_pull_filename f = None then Inr (hugging_face_url repo f, f)
                    else Inl (UnknownSpec spec)
                | None \<Rightarrow> Inl (UnknownSpec spec)))"

definition pull_destination :: "component list \<Rightarrow> string \<Rightarrow> pull_error option" where
  "pull_destination dirpath f =
     (case validate_pull_filename f of
        Some e \<Rightarrow> Some e
      | None \<Rightarrow> if path_parent (dirpath @ path_components f) \<noteq> Some dirpath then Some EscapesCache else None)"

definition parse_df_available_kib :: "string \<Rightarrow> u64 option" where
  "parse_df_available_kib out =
     (case drop 1 (lines out) of
        [] \<Rightarrow> None
      | row # _ \<Rightarrow> (case drop 3 (split_whitespace row) of [] \<Rightarrow> None | field # _ \<Rightarrow> parse_word field))"

definition available_bytes :: "(bool \<times> string) option \<Rightarrow> u64 option" where
  "available_bytes df =
     (case df of
        Some (True, out) \<Rightarrow> map_option (\<lambda>kib. sat_mul kib 1024) (parse_df_available_kib out)
      | _ \<Rightarrow> None)"

definition content_length_line :: "string \<Rightarrow> u64 option" where
  "content_length_line line =
     (case split_once (CHR '':'') line of
        None \<Rightarrow> None
      | Some (k, v) \<Rightarrow> if eq_ignore_case (trim k) ''content-length'' then parse_word (trim v) else None)"

definition parse_content_length :: "string \<Rightarrow> u64 option" where
  "parse_content_length headers =
     (case List.map_filter content_length_line (rev (lines headers)) of [] \<Rightarrow> None | n # _ \<Rightarrow> Some n)"

definition remote_size_bytes :: "string option \<Rightarrow> u64 option" where
  "remote_size_bytes head = Option.bind head parse_content_length"

definition PULL_SPACE_MARGIN :: fl where
  "PULL_SPACE_MARGIN = round64 (115 / 100)"

definition space_verdict :: "u64 option \<Rightarrow> u64 option \<Rightarrow> pull_error option" where
  "space_verdict avail need =
     (case (avail, need) of
        (Some a, Some n) \<Rightarrow>
          if as_word (fmul round64 (of_word64 n) PULL_SPACE_MARGIN) \<le> a then None else Some (NotEnoughSpace n a)
      | _ \<Rightarrow> None)"

definition normalize_sha256 :: "string \<Rightarrow> pull_error + string" where
  "normalize_sha256 s =
     (let digest = to_lower (trim s)
      in if length digest \<noteq> 64 \<or> \<not> list_all is_hexdigit digest then Inl BadDigest else Inr digest)"

definition expected_sha256 :: "string \<Rightarrow> string option \<Rightarrow> pull_error + string" where
  "expected_sha256 spec supplied =
     (case (case supplied of None \<Rightarrow> Inr None | Some s \<Rightarrow> map_sum id Some (normalize_sha256 s)) of
        Inl e \<Rightarrow> Inl e
      | Inr given \<Rightarrow>
          (let curated = map_option (\<lambda>(_, _, _, _, d). d) (alias_row spec)
           in case (given, curated) of
                (Some g, Some k) \<Rightarrow> if g \<noteq> k then Inl (DigestConflict spec) else Inr g
              | (Some g, None) \<Rightarrow> Inr g
              | (None, Some k) \<Rightarrow> Inr k
              | (None, None) \<Rightarrow> Inl DigestRequired))"

text \<open>How the read of a file went: unreadable, changed between the two looks at its metadata, or steady.\<close>

datatype read_outcome = Unreadable | ChangedMeanwhile | Steady

definition file_sha256 :: "(string \<Rightarrow> string) \<Rightarrow> read_outcome \<Rightarrow> entry option \<Rightarrow> pull_error + string" where
  "file_sha256 sha rd e =
     (case e of
        None \<Rightarrow> Inl HashReadFailed
      | Some (RegularFile bytes) \<Rightarrow>
          (case rd of Unreadable \<Rightarrow> Inl HashReadFailed | ChangedMeanwhile \<Rightarrow> Inl ChangedWhileHashing | Steady \<Rightarrow> Inr (sha bytes))
      | _ \<Rightarrow> Inl NotARegularFile)"

text \<open>\<open>pi_curl\<close>: \<open>None\<close> when curl could not be run, otherwise whether it succeeded and the partial file it left.\<close>

record PullIo =
  pi_create :: bool
  pi_df :: "(bool \<times> string) option"
  pi_head :: "string option"
  pi_curl :: "(bool \<times> entry option) option"
  pi_read_cached :: read_outcome
  pi_read_part :: read_outcome
  pi_remove :: bool
  pi_rename :: bool

definition put_entry :: "string \<Rightarrow> entry option \<Rightarrow> cache \<Rightarrow> cache" where
  "put_entry n e dir = (case e of None \<Rightarrow> hm_remove n dir | Some x \<Rightarrow> hm_insert n x dir)"

definition pull_with_checksum ::
    "(string \<Rightarrow> string) \<Rightarrow> PullIo \<Rightarrow> component list \<Rightarrow> string \<Rightarrow> string option \<Rightarrow> cache \<Rightarrow> (pull_error + string) \<times> cache" where
  "pull_with_checksum sha io dirpath spec given dir =
     (case spec_to_url spec of
        Inl e \<Rightarrow> (Inl e, dir)
      | Inr (url, f) \<Rightarrow>
          (case expected_sha256 spec given of
             Inl e \<Rightarrow> (Inl e, dir)
           | Inr expected \<Rightarrow>
               if \<not> pi_create io then (Inl CreateDirFailed, dir)
               else case pull_destination dirpath f of
                 Some e \<Rightarrow> (Inl e, dir)
               | None \<Rightarrow>
                   if is_file (hm_get dir f) then
                     (case file_sha256 sha (pi_read_cached io) (hm_get dir f) of
                        Inl e \<Rightarrow> (Inl e, dir)
                      | Inr actual \<Rightarrow> (if actual \<noteq> expected then Inl (CachedMismatch actual expected) else Inr f, dir))
                   else let part = f @ ''.part'' in
                   (case space_verdict (available_bytes (pi_df io)) (remote_size_bytes (pi_head io)) of
                      Some e \<Rightarrow> (Inl e, dir)
                    | None \<Rightarrow>
                        (case pi_curl io of
                           None \<Rightarrow> (Inl CurlNotRun, dir)
                         | Some (ok, left) \<Rightarrow>
                             (let dir1 = put_entry part left dir in
                              if \<not> ok then (Inl DownloadFailed, dir1)
                              else case file_sha256 sha (pi_read_part io) (hm_get dir1 part) of
                                Inl e \<Rightarrow> (Inl e, dir1)
                              | Inr actual \<Rightarrow>
                                  if actual \<noteq> expected
                                  then (Inl (DigestMismatch actual expected), if pi_remove io then hm_remove part dir1 else dir1)
                                  else if \<not> pi_rename io \<or> hm_get dir1 f = Some DirEntry then (Inl RenameFailed, dir1)
                                  else (Inr f, put_entry f (hm_get dir1 part) (hm_remove part dir1)))))))"

definition pull :: "(string \<Rightarrow> string) \<Rightarrow> PullIo \<Rightarrow> component list \<Rightarrow> string \<Rightarrow> cache \<Rightarrow> (pull_error + string) \<times> cache" where
  "pull sha io dirpath spec dir = pull_with_checksum sha io dirpath spec None dir"

section \<open>Lemmas\<close>

lemma set_insert_by [simp]: "set (insert_by lt x xs) = insert x (set xs)"
  by (induction xs) auto

lemma set_sort_by [simp]: "set (sort_by lt xs) = set xs"
  by (induction xs) (simp_all add: sort_by_def)

context ranking
begin

lemma sort_by_head:
  "sort_by better xs = y # ys \<Longrightarrow> y \<in> set xs \<and> (\<forall>z \<in> set xs. \<not> better z y)"
proof (induction xs arbitrary: y ys)
  case (Cons x xs)
  show ?case
  proof (cases "sort_by better xs")
    case Nil
    then have "xs = []" using set_sort_by [of better xs] by (metis set_empty)
    then show ?thesis using Cons.prems irrefl by (simp add: sort_by_def)
  next
    case (Cons z zs)
    then have z: "z \<in> set xs" "\<forall>u \<in> set xs. \<not> better u z" using Cons.IH by blast+
    have y: "y = (if better z x then z else x)" using Cons.prems Cons by (auto simp: sort_by_def split: if_splits)
    show ?thesis
      using z asym [of z x] ntrans [of _ z x] irrefl [of x] unfolding y by (auto split: if_splits)
  qed
qed (simp add: sort_by_def)

end

lemma fit_rank_eq_iff: "fit_rank a = fit_rank b \<longleftrightarrow> a = b" "fit_rank b = 2 \<longleftrightarrow> b = ConservativeFallback"
  by (cases a; cases b; auto)+

text \<open>The comparison is the lexicographic order of a key.\<close>

definition rank_key :: "Workload \<Rightarrow> ranked_profile \<Rightarrow> nat \<times> int \<times> int \<times> int \<times> string" where
  "rank_key w x = (case x of (p, fit, need) \<Rightarrow>
     (fit_rank fit, if fit = ConservativeFallback then uint need else 0, - uint (profile_score p w), - uint (pf_context_tokens p), pf_alias p))"

lemma ranks_before_key: "ranks_before w x y \<longleftrightarrow> rank_key w x < rank_key w y"
proof (cases x, cases y)
  fix a fa na b fb nb
  assume xy: "x = (a, fa, na)" "y = (b, fb, nb)"
  show ?thesis
    by (cases "fa = fb"; cases "fa = ConservativeFallback")
      (simp_all add: xy ranks_before_def rank_key_def fit_rank_eq_iff less_prod_def' word_less_def word_uint_eq_iff order.order_iff_strict)
qed

interpretation rec_rank: ranking "ranks_before w" for w :: Workload
  unfolding ranks_before_key by unfold_locales auto

lemma profile_fit_fst [simp]: "fst (profile_fit cap p) = p"
  by (simp add: profile_fit_def Let_def)

lemma profile_fit_case:
  "profile_fit cap p = (q, fit, need) \<longleftrightarrow> q = p \<and> need = estimated_runtime_bytes (pf_alias p) \<and>
     fit = (if hc_accelerator_available cap \<and> need \<le> hc_accelerator_bytes cap then Accelerator
            else if need \<le> sat_mul (hc_host_bytes cap) 3 div 4 then HostOffload else ConservativeFallback)"
  by (auto simp: profile_fit_def Let_def)

lemma profiles_pinned:
  "filter (\<lambda>p. list_ex (\<lambda>a. al_name a = pf_alias p) aliases) RECOMMENDATION_PROFILES = RECOMMENDATION_PROFILES"
  "list_all (\<lambda>p. alias_row (pf_alias p) \<noteq> None) RECOMMENDATION_PROFILES" "RECOMMENDATION_PROFILES \<noteq> []"
  by code_simp+

lemma recommend_Some:
  obtains r p where "recommend cap w = Some r" "p \<in> set RECOMMENDATION_PROFILES" "rec_model r = pf_alias p"
    "profile_fit cap p = (p, rec_fit r, rec_estimated_runtime_bytes r)"
    "\<And>q. q \<in> set RECOMMENDATION_PROFILES \<Longrightarrow> \<not> ranks_before w (profile_fit cap q) (profile_fit cap p)"
proof -
  let ?l = "sort_by (ranks_before w) (map (profile_fit cap) RECOMMENDATION_PROFILES)"
  have "set ?l \<noteq> {}" using profiles_pinned(3) by simp
  then obtain y ys where l: "?l = y # ys" by (cases ?l) auto
  obtain p fit need where y: "y = (p, fit, need)" by (cases y)
  have h: "y \<in> set (map (profile_fit cap) RECOMMENDATION_PROFILES)"
      "\<forall>z \<in> set (map (profile_fit cap) RECOMMENDATION_PROFILES). \<not> ranks_before w z y"
    using rec_rank.sort_by_head [OF l] by blast+
  then have p: "profile_fit cap p = y" "p \<in> set RECOMMENDATION_PROFILES"
    using y profile_fit_fst [of cap] by (auto, metis fst_conv, metis fst_conv)
  obtain r where r: "recommend cap w = Some r" "rec_model r = pf_alias p" "rec_fit r = fit" "rec_estimated_runtime_bytes r = need"
    using l by (simp add: recommend_def profiles_pinned(1) y)
  show ?thesis using that [OF r(1) p(2) r(2)] p(1) y r(3,4) h(2) by simp
qed

lemma spec_to_url_name: "spec_to_url spec = Inr (url, f) \<Longrightarrow> validate_pull_filename f = None"
  by (auto simp: spec_to_url_def Let_def split: option.splits if_splits prod.splits)

lemma validate_pull_filename_None:
  "validate_pull_filename f = None \<Longrightarrow>
   f \<noteq> [] \<and> f \<noteq> ''.'' \<and> f \<noteq> ''..'' \<and> CHR ''/'' \<notin> set f \<and> CHR 0x5C \<notin> set f \<and> path_components f = [NormalPart f]"
proof -
  assume a: "validate_pull_filename f = None"
  then have f: "f \<noteq> []" "f \<noteq> ''.''" "f \<noteq> ''..''" "CHR ''/'' \<notin> set f" "CHR 0x5C \<notin> set f"
    by (auto simp: validate_pull_filename_def split: if_splits)
  have "split_on (CHR ''/'') f = [f]" using f(4) by (induction f) auto
  moreover have "\<not> starts_with f ''/''" using f(1,4) by (cases f) (auto simp: starts_with_def)
  ultimately have "path_components f = [NormalPart f]"
    using f by (simp add: path_components_def piece_component_def)
  then show ?thesis using f by blast
qed

lemma pull_destination_ok: "validate_pull_filename f = None \<Longrightarrow> pull_destination dirpath f = None"
  by (simp add: pull_destination_def path_parent_def validate_pull_filename_None)

lemma expected_sha256_pinned:
  "expected_sha256 spec given = Inr d \<Longrightarrow> alias_row spec = Some (n, repo, f, p, k) \<Longrightarrow> d = k"
  by (auto simp: expected_sha256_def Let_def split: sum.splits option.splits if_splits)

lemma put_entry_get: "hm_wf dir \<Longrightarrow> hm_get (put_entry n e dir) k = (if k = n then e else hm_get dir k)"
  by (auto simp: put_entry_def map_laws split: option.splits)

lemma put_entry_wf [simp]: "hm_wf dir \<Longrightarrow> hm_wf (put_entry n e dir)"
  by (auto simp: put_entry_def map_laws split: option.splits)

lemma file_sha256_Inr: "file_sha256 sha rd e = Inr d \<Longrightarrow> \<exists>bytes. e = Some (RegularFile bytes) \<and> sha bytes = d"
  by (auto simp: file_sha256_def split: option.splits entry.splits read_outcome.splits)

section \<open>Properties\<close>

text \<open>C8. A model is installed only with the digest it was asked for.  When a pull reports success, the cache
  holds under the reported name a regular file whose SHA-256 is the expected one (for an alias the pinned
  digest, whatever the caller supplied); the name is a single component with no separator of either style.
  In every other outcome the model's own file is untouched, and in all outcomes nothing else in the cache
  changes but the partial download.\<close>

theorem pull_verified:
  assumes "hm_wf dir" and "pull_with_checksum sha io dirpath spec given dir = (r, dir')"
    and "spec_to_url spec = Inr (url, f)"
  shows "(\<forall>g. r = Inr g \<longrightarrow> g = f \<and> (\<exists>bytes. hm_get dir' f = Some (RegularFile bytes) \<and> expected_sha256 spec given = Inr (sha bytes) \<and>
            (\<forall>row. alias_row spec = Some row \<longrightarrow> sha bytes = snd (snd (snd (snd row)))))) \<and>
         path_components f = [NormalPart f] \<and> CHR 0x5C \<notin> set f \<and>
         (\<forall>e. r = Inl e \<longrightarrow> hm_get dir' f = hm_get dir f) \<and>
         (\<forall>n. n \<noteq> f \<and> n \<noteq> f @ ''.part'' \<longrightarrow> hm_get dir' n = hm_get dir n)"
proof (intro conjI)
  have v: "validate_pull_filename f = None" by (rule spec_to_url_name [OF assms(3)])
  show "path_components f = [NormalPart f]" "CHR 0x5C \<notin> set f" using validate_pull_filename_None [OF v] by blast+
  have p: "f @ ''.part'' \<noteq> f" by simp
  note run = assms(2) [unfolded pull_with_checksum_def assms(3) sum.case prod.case pull_destination_ok [OF v] option.case Let_def]
  show "\<forall>e. r = Inl e \<longrightarrow> hm_get dir' f = hm_get dir f" "\<forall>n. n \<noteq> f \<and> n \<noteq> f @ ''.part'' \<longrightarrow> hm_get dir' n = hm_get dir n"
    using run assms(1) p by (auto simp: put_entry_get map_laws split: sum.splits option.splits if_splits prod.splits)
  show "\<forall>g. r = Inr g \<longrightarrow> g = f \<and> (\<exists>bytes. hm_get dir' f = Some (RegularFile bytes) \<and> expected_sha256 spec given = Inr (sha bytes) \<and>
            (\<forall>row. alias_row spec = Some row \<longrightarrow> sha bytes = snd (snd (snd (snd row)))))"
  proof (intro allI impI)
    fix g assume r: "r = Inr g"
    have "\<exists>d. expected_sha256 spec given = Inr d \<and> g = f \<and> (\<exists>rd e. file_sha256 sha rd e = Inr d \<and> hm_get dir' f = e)"
      using run assms(1) p unfolding r
      by (auto simp: put_entry_get map_laws split: sum.splits option.splits if_splits prod.splits)
    then obtain d bytes where "expected_sha256 spec given = Inr d" "g = f" "hm_get dir' f = Some (RegularFile bytes)" "sha bytes = d"
      using file_sha256_Inr by metis
    then show "g = f \<and> (\<exists>bytes. hm_get dir' f = Some (RegularFile bytes) \<and> expected_sha256 spec given = Inr (sha bytes) \<and>
            (\<forall>row. alias_row spec = Some row \<longrightarrow> sha bytes = snd (snd (snd (snd row)))))"
      using expected_sha256_pinned by auto
  qed
qed

definition example_pull_io :: PullIo where
  "example_pull_io = \<lparr>pi_create = True, pi_df = None, pi_head = None, pi_curl = Some (True, Some (RegularFile ''weights'')),
     pi_read_cached = Steady, pi_read_part = Steady, pi_remove = True, pi_rename = True\<rparr>"

definition example_sha :: "string \<Rightarrow> string" where
  "example_sha bytes = (if bytes = ''weights'' then ''9fecc3b3cd76bba89d504f29b616eedf7da85b96540e490ca5824d3f7d2776a0'' else [])"

lemma example_pull_runs:
  "fst (pull_with_checksum example_sha example_pull_io [RootDir] ''tinyllama'' None []) = Inr ''tinyllama.gguf''"
  "spec_to_url ''tinyllama'' = Inr (hugging_face_url ''TheBloke/TinyLlama-1.1B-Chat-v1.0-GGUF'' ''tinyllama-1.1b-chat-v1.0.Q4_K_M.gguf'', ''tinyllama.gguf'')"
  by code_simp+

theorem pull_verified_witness:
  "\<exists>bytes. hm_get (snd (pull_with_checksum example_sha example_pull_io [RootDir] ''tinyllama'' None [])) ''tinyllama.gguf'' = Some (RegularFile bytes) \<and>
     expected_sha256 ''tinyllama'' None = Inr (example_sha bytes)"
  using pull_verified [OF hm_wf_Nil _ example_pull_runs(2), of example_sha example_pull_io "[RootDir]" None] example_pull_runs(1)
  by (metis prod.collapse)

text \<open>The recommendation is the best pinned profile.  There always is one, it is in the alias table, and its
  fit is what the capacity says; a profile that fits the accelerator is never passed over for one that does
  not, nor one that fits the host pool for one that fits nowhere; among the profiles of the chosen fit none
  has a higher score for the workload; and if nothing fits, the smallest is recommended.\<close>

lemma recommend_best:
  "\<exists>r p. recommend cap w = Some r \<and> p \<in> set RECOMMENDATION_PROFILES \<and> rec_model r = pf_alias p \<and>
     alias_row (rec_model r) \<noteq> None \<and> rec_estimated_runtime_bytes r = estimated_runtime_bytes (pf_alias p) \<and>
     (rec_fit r = Accelerator \<longrightarrow> hc_accelerator_available cap \<and> rec_estimated_runtime_bytes r \<le> hc_accelerator_bytes cap) \<and>
     (rec_fit r = HostOffload \<longrightarrow> rec_estimated_runtime_bytes r \<le> sat_mul (hc_host_bytes cap) 3 div 4) \<and>
     (\<forall>q \<in> set RECOMMENDATION_PROFILES.
        (hc_accelerator_available cap \<and> estimated_runtime_bytes (pf_alias q) \<le> hc_accelerator_bytes cap \<longrightarrow>
           rec_fit r = Accelerator \<and> profile_score q w \<le> profile_score p w) \<and>
        (estimated_runtime_bytes (pf_alias q) \<le> sat_mul (hc_host_bytes cap) 3 div 4 \<longrightarrow>
           rec_fit r \<noteq> ConservativeFallback \<and> (rec_fit r = HostOffload \<longrightarrow> profile_score q w \<le> profile_score p w)) \<and>
        (rec_fit r = ConservativeFallback \<longrightarrow> rec_estimated_runtime_bytes r \<le> estimated_runtime_bytes (pf_alias q)))"
proof -
  obtain r p where r: "recommend cap w = Some r" and p: "p \<in> set RECOMMENDATION_PROFILES" "rec_model r = pf_alias p"
    and fit: "profile_fit cap p = (p, rec_fit r, rec_estimated_runtime_bytes r)"
    and best: "\<And>q. q \<in> set RECOMMENDATION_PROFILES \<Longrightarrow> \<not> ranks_before w (profile_fit cap q) (profile_fit cap p)"
    by (rule recommend_Some [of cap w]) blast
  have pin: "alias_row (rec_model r) \<noteq> None" using profiles_pinned(2) p by (simp add: list_all_iff)
  have need: "rec_estimated_runtime_bytes r = estimated_runtime_bytes (pf_alias p)"
    and rf: "rec_fit r = (if hc_accelerator_available cap \<and> rec_estimated_runtime_bytes r \<le> hc_accelerator_bytes cap then Accelerator
      else if rec_estimated_runtime_bytes r \<le> sat_mul (hc_host_bytes cap) 3 div 4 then HostOffload else ConservativeFallback)"
    using fit unfolding profile_fit_case by blast+
  have q: "\<not> ranks_before w (q, snd (profile_fit cap q)) (p, rec_fit r, rec_estimated_runtime_bytes r)"
    if "q \<in> set RECOMMENDATION_PROFILES" for q
    using best [OF that] fit profile_fit_fst [of cap q] by (metis prod.collapse)
  have all: "(hc_accelerator_available cap \<and> estimated_runtime_bytes (pf_alias q) \<le> hc_accelerator_bytes cap \<longrightarrow>
           rec_fit r = Accelerator \<and> profile_score q w \<le> profile_score p w) \<and>
        (estimated_runtime_bytes (pf_alias q) \<le> sat_mul (hc_host_bytes cap) 3 div 4 \<longrightarrow>
           rec_fit r \<noteq> ConservativeFallback \<and> (rec_fit r = HostOffload \<longrightarrow> profile_score q w \<le> profile_score p w)) \<and>
        (rec_fit r = ConservativeFallback \<longrightarrow> rec_estimated_runtime_bytes r \<le> estimated_runtime_bytes (pf_alias q))"
    if "q \<in> set RECOMMENDATION_PROFILES" for q
    using q [OF that] by (cases "rec_fit r") (auto simp: ranks_before_def profile_fit_def Let_def split: if_splits)
  have fits: "(rec_fit r = Accelerator \<longrightarrow> hc_accelerator_available cap \<and> rec_estimated_runtime_bytes r \<le> hc_accelerator_bytes cap) \<and>
      (rec_fit r = HostOffload \<longrightarrow> rec_estimated_runtime_bytes r \<le> sat_mul (hc_host_bytes cap) 3 div 4)"
    using rf by (auto split: if_splits)
  show ?thesis using r p pin need fits all by blast
qed

text \<open>A download whose name ends in upper-case letters is accepted and stored, but no listing shows it:
  \<open>validate_pull_filename\<close> ignores case and \<open>cached_models\<close> does not.\<close>

lemma uppercase_pull_unlisted:
  "spec_to_url ''acme/repo:Model.GGUF'' = Inr (hugging_face_url ''acme/repo'' ''Model.GGUF'', ''Model.GGUF'')"
  "cached_models (Some [(''Model.GGUF'', RegularFile bytes)]) = []"
proof -
  show "spec_to_url ''acme/repo:Model.GGUF'' = Inr (hugging_face_url ''acme/repo'' ''Model.GGUF'', ''Model.GGUF'')"
    by code_simp
  have "extension ''Model.GGUF'' = Some ''GGUF''" by code_simp
  then show "cached_models (Some [(''Model.GGUF'', RegularFile bytes)]) = []" by (simp add: cached_models_def listed_def)
qed

lemma remove_in_frame:
  "hm_wf dir \<Longrightarrow> remove_in removable name dir = (r, dir') \<Longrightarrow> n \<noteq> name \<and> n \<noteq> name @ ''.gguf'' \<Longrightarrow> hm_get dir' n = hm_get dir n"
  by (auto simp: remove_in_def map_laws find_Some_iff split: if_splits option.splits)

end
