(* ===== verification/Dispatch.thy ===== *)
theory Dispatch
  imports Router Catalog
begin

text \<open>
  \<open>cameod/src/dispatch.rs\<close>: the hub turns the roster of online nodes into a routing decision and keeps a ledger
  of the admissions it has granted.  Descriptions are JSON values behind the accessors of \<open>JsonApi\<close>; the
  serialisation of a request, its fingerprint, is the parameter \<open>to_json\<close>; the clock is an argument.  The
  ledger's lock makes every operation atomic, so interleavings are sequences of operations.
\<close>

section \<open>Requests\<close>

record DispatchBody =
  db_model :: string
  db_params :: "fl option"
  db_quant :: string
  db_moe :: bool
  db_task :: "string option"
  db_min_tier :: "u8 option"
  db_execute :: bool
  db_port :: u16
  db_session_affinity :: "string option"
  db_privacy :: MeshPrivacy
  db_preference :: MeshPreference
  db_deadline_ms :: "u64 option"
  db_expected_output_tokens :: u32
  db_priority :: u8
  db_allow_legacy_token :: bool
  db_protocol_major :: u16
  db_request_id :: "string option"

definition default_quant :: string where "default_quant = ''Q4_K_M''"
definition default_port :: u16 where "default_port = 8080"
definition default_expected_output_tokens :: u32 where "default_expected_output_tokens = 512"
definition default_priority :: u8 where "default_priority = 5"
definition default_true :: bool where "default_true = True"
definition default_protocol_major :: u16 where "default_protocol_major = 1"

datatype body_defect = BadModel | BadQuant string | BadTask | BadMinTier | BadPort | BadPriority
  | BadOutputTokens | BadDeadline | BadProtocol | BadAffinity | BadRequestId

definition body_validate :: "DispatchBody \<Rightarrow> body_defect option" where
  "body_validate b =
     (if trim (db_model b) = [] \<or> 512 < length (db_model b) then Some BadModel
      else if quant_parse (db_quant b) = None then Some (BadQuant (db_quant b))
      else if db_task b \<notin> {None, Some ''inference'', Some ''training'', Some ''train''} then Some BadTask
      else if (case db_min_tier b of None \<Rightarrow> False | Some t \<Rightarrow> \<not> (1 \<le> t \<and> t \<le> 3)) then Some BadMinTier
      else if db_execute b \<and> db_port b = 0 then Some BadPort
      else if 9 < db_priority b then Some BadPriority
      else if db_expected_output_tokens b = 0 \<or> 1000000 < db_expected_output_tokens b then Some BadOutputTokens
      else if db_deadline_ms b = Some 0 then Some BadDeadline
      else if db_protocol_major b = 0 then Some BadProtocol
      else if (case db_session_affinity b of None \<Rightarrow> False | Some i \<Rightarrow> i = [] \<or> 256 < length i) then Some BadAffinity
      else if (case db_request_id b of None \<Rightarrow> False | Some i \<Rightarrow> i = [] \<or> 128 < length i) then Some BadRequestId
      else None)"

definition model_meta :: "DispatchBody \<Rightarrow> ModelMeta" where
  "model_meta b =
     (let quant = (case quant_parse (db_quant b) of None \<Rightarrow> Q4_K_M | Some q \<Rightarrow> q);
          params = (case db_params b of
                      Some p \<Rightarrow> p
                    | None \<Rightarrow> (case params_b_for (db_model b) of Some p \<Rightarrow> p | None \<Rightarrow> round64 7))
      in if db_moe b then moe (db_model b) params quant else dense (db_model b) params quant)"

definition body_task :: "DispatchBody \<Rightarrow> Task" where
  "body_task b = (if db_task b = Some ''training'' \<or> db_task b = Some ''train'' then Training else Inference)"

definition body_route_request :: "DispatchBody \<Rightarrow> RouteRequest" where
  "body_route_request b = \<lparr>rr_model = model_meta b, rr_task = body_task b, rr_min_tier = db_min_tier b\<rparr>"

definition mesh_request :: "DispatchBody \<Rightarrow> MeshRequest" where
  "mesh_request b =
     \<lparr>mr_placement = body_route_request b, mr_session_affinity = db_session_affinity b, mr_privacy = db_privacy b,
      mr_preference = db_preference b, mr_deadline_ms = db_deadline_ms b,
      mr_expected_output_tokens = db_expected_output_tokens b, mr_priority = db_priority b,
      mr_allow_legacy_token = db_allow_legacy_token b, mr_protocol_major = db_protocol_major b\<rparr>"

section \<open>Nodes\<close>

text \<open>The accessors of a JSON value and the two typed readings the code asks for.\<close>

record 'j JsonApi =
  jv_get :: "'j \<Rightarrow> string \<Rightarrow> 'j option"
  jv_str :: "'j \<Rightarrow> string option"
  jv_u64 :: "'j \<Rightarrow> u64 option"
  jv_f64 :: "'j \<Rightarrow> fl option"
  jv_bool :: "'j \<Rightarrow> bool option"
  jv_array :: "'j \<Rightarrow> 'j list option"
  jv_topology :: "'j \<Rightarrow> Topology option"
  jv_gpus :: "'j \<Rightarrow> TierAssessment list option"

record ParsedNode =
  pa_node_id :: string
  pa_info :: NodeInfo
  pa_load :: NodeLoad
  pa_health :: MeshHealth
  pa_protocol_major :: u16
  pa_owner_reclaim :: bool
  pa_inflight :: u32
  pa_estimated_ttft_ms :: u64
  pa_tokens_per_second :: fl
  pa_trust :: TrustState

definition endpoint_load :: "'j JsonApi \<Rightarrow> NodeLoad \<Rightarrow> 'j \<Rightarrow> NodeLoad" where
  "endpoint_load js load e =
     (if Option.bind (jv_get js e ''state'') (jv_str js) \<noteq> Some ''running'' then load
      else load\<lparr>nl_serving := nl_serving load @
                  (case Option.bind (jv_get js e ''model'') (jv_str js) of None \<Rightarrow> [] | Some m \<Rightarrow> [m]),
                nl_used_vram_bytes := sat_add (nl_used_vram_bytes load)
                  (case Option.bind (jv_get js e ''vram_bytes'') (jv_u64 js) of None \<Rightarrow> 0 | Some v \<Rightarrow> v)\<rparr>)"

definition load_from_endpoints :: "'j JsonApi \<Rightarrow> 'j option \<Rightarrow> NodeLoad" where
  "load_from_endpoints js endpoints =
     foldl (endpoint_load js) \<lparr>nl_serving = [], nl_used_vram_bytes = 0\<rparr>
       (case Option.bind endpoints (jv_array js) of None \<Rightarrow> [] | Some es \<Rightarrow> es)"

definition try_narrow :: "u64 \<Rightarrow> 'a::len word option" where
  "try_narrow v = (if unat v < 2 ^ LENGTH('a) then Some (ucast v) else None)"

definition or_else :: "'a \<Rightarrow> 'a option \<Rightarrow> 'a" where
  "or_else d x = (case x of None \<Rightarrow> d | Some v \<Rightarrow> v)"

definition parse_node :: "'j JsonApi \<Rightarrow> string \<Rightarrow> 'j \<Rightarrow> ParsedNode option" where
  "parse_node js node_id desc =
     (case Option.bind (jv_get js desc ''topology'') (jv_topology js) of
        None \<Rightarrow> None
      | Some topology \<Rightarrow>
          (case Option.bind (jv_get js desc ''gpus'') (jv_gpus js) of
             None \<Rightarrow> None
           | Some assessments \<Rightarrow>
               (let name = or_else node_id (Option.bind (jv_get js desc ''name'') (jv_str js));
                    load = load_from_endpoints js (jv_get js desc ''endpoints'');
                    field = (\<lambda>k. Option.bind (jv_get js desc ''mesh'') (\<lambda>m. jv_get js m k));
                    health = Option.bind (field ''health'') (jv_str js);
                    trust = Option.bind (Option.bind (jv_get js desc ''_cameo_hub'') (\<lambda>h. jv_get js h ''trust'')) (jv_str js)
                in Some
                     \<lparr>pa_node_id = node_id,
                      pa_info = \<lparr>ni_name = name, ni_address = [], ni_topology = topology,
                                 ni_assessments = assessments, ni_resident = nl_serving load\<rparr>,
                      pa_load = load,
                      pa_health = (if health = Some ''degraded'' then Degraded else if health = Some ''draining'' then Draining
                                   else if health = Some ''offline'' then Offline else Ready),
                      pa_protocol_major = or_else 1 (Option.bind (Option.bind (field ''protocol_major'') (jv_u64 js)) try_narrow),
                      pa_owner_reclaim = or_else False (Option.bind (field ''owner_reclaim'') (jv_bool js)),
                      pa_inflight = or_else 0 (Option.bind (Option.bind (field ''inflight'') (jv_u64 js)) try_narrow),
                      pa_estimated_ttft_ms = or_else 750 (Option.bind (field ''estimated_ttft_ms'') (jv_u64 js)),
                      pa_tokens_per_second =
                        (case Option.bind (field ''tokens_per_second'') (jv_f64 js) of
                           None \<Rightarrow> round64 20
                         | Some v \<Rightarrow> if is_finite v \<and> flt (round64 0) v then v else round64 20),
                      pa_trust = (if trust = Some ''paired'' then Paired else if trust = Some ''untrusted'' then Untrusted
                                  else LegacyToken)\<rparr>)))"

section \<open>Decisions and the ledger\<close>

record Dispatch =
  di_choice :: MeshRouteChoice
  di_node_id :: string

definition mesh_candidate :: "ParsedNode \<Rightarrow> MeshCandidate" where
  "mesh_candidate p =
     \<lparr>mc_node_id = pa_node_id p, mc_node = pa_info p, mc_load = pa_load p, mc_local = False, mc_trust = pa_trust p,
      mc_health = pa_health p, mc_protocol_major = pa_protocol_major p, mc_owner_reclaim = pa_owner_reclaim p,
      mc_inflight = pa_inflight p, mc_estimated_ttft_ms = pa_estimated_ttft_ms p,
      mc_tokens_per_second = pa_tokens_per_second p\<rparr>"

definition add_reserved :: "(string, u64) btree_map \<Rightarrow> ParsedNode \<Rightarrow> ParsedNode" where
  "add_reserved reserved p =
     p\<lparr>pa_load := (pa_load p)\<lparr>nl_used_vram_bytes :=
         sat_add (nl_used_vram_bytes (pa_load p)) (or_else 0 (bt_get reserved (pa_node_id p)))\<rparr>\<rparr>"

definition decide_with_reserved ::
    "'j JsonApi \<Rightarrow> (string \<times> 'j) list \<Rightarrow> DispatchBody \<Rightarrow> (string, u64) btree_map \<Rightarrow> RouteError + Dispatch" where
  "decide_with_reserved js roster body reserved =
     (let parsed = map (add_reserved reserved) (List.map_filter (\<lambda>(i, desc). parse_node js i desc) roster)
      in case route_mesh (map mesh_candidate parsed) (mesh_request body) of
           Inl e \<Rightarrow> Inl e
         | Inr choice \<Rightarrow> Inr \<lparr>di_choice = choice, di_node_id = mx_node_id choice\<rparr>)"

definition ADMISSION_TTL :: time where "ADMISSION_TTL = secs 45"
definition MAX_ADMISSIONS :: nat where "MAX_ADMISSIONS = 4096"

datatype AdmissionState = Reserved | Committed | AdmissionFailed

record AdmissionLease =
  la_id :: string
  la_request_id :: string
  la_node_id :: string
  la_model :: string
  la_reserved_vram_bytes :: u64
  la_expires_in_ms :: u64
  la_state :: AdmissionState

record AdmissionOutcome =
  ao_dispatch :: Dispatch
  ao_lease :: "AdmissionLease option"
  ao_replayed :: bool

record Reservation =
  rs_fingerprint :: string
  rs_dispatch :: Dispatch
  rs_lease :: AdmissionLease
  rs_expires :: time

record AdmissionBook =
  ab_by_request :: "(string, Reservation) btree_map"
  ab_next_id :: u64

datatype AdmissionError = RouteFailed RouteError | Invalid | Conflict string | Capacity

definition admission_status :: "AdmissionError \<Rightarrow> u16" where
  "admission_status e = (case e of Invalid \<Rightarrow> 400 | Conflict _ \<Rightarrow> 409 | RouteFailed _ \<Rightarrow> 409 | Capacity \<Rightarrow> 429)"

definition book_new :: AdmissionBook where
  "book_new = \<lparr>ab_by_request = [], ab_next_id = 1\<rparr>"

definition lease_active :: "AdmissionLease \<Rightarrow> bool" where
  "lease_active l = (la_state l = Reserved \<or> la_state l = Committed)"

definition reserve_step :: "(string, u64) btree_map \<Rightarrow> Reservation \<Rightarrow> (string, u64) btree_map" where
  "reserve_step by_node item =
     (let l = rs_lease item
      in bt_insert (la_node_id l) (sat_add (or_else 0 (bt_get by_node (la_node_id l))) (la_reserved_vram_bytes l)) by_node)"

definition active_reserved_by_node :: "(string, Reservation) btree_map \<Rightarrow> (string, u64) btree_map" where
  "active_reserved_by_node m = foldl reserve_step [] (filter (lease_active \<circ> rs_lease) (map snd m))"

definition book_admit ::
    "'j JsonApi \<Rightarrow> (DispatchBody \<Rightarrow> string option) \<Rightarrow> time \<Rightarrow> (string \<times> 'j) list \<Rightarrow> DispatchBody \<Rightarrow> AdmissionBook
     \<Rightarrow> (AdmissionError + AdmissionOutcome) \<times> AdmissionBook" where
  "book_admit js to_json now roster body book =
     (case to_json body of
        None \<Rightarrow> (Inl Invalid, book)
      | Some fingerprint \<Rightarrow>
          (let m = bt_retain (\<lambda>_ item. now < rs_expires item) (ab_by_request book);
               book1 = book\<lparr>ab_by_request := m\<rparr>
           in case Option.bind (db_request_id body) (bt_get m) of
                Some existing \<Rightarrow>
                  if rs_fingerprint existing \<noteq> fingerprint then (Inl (Conflict (or_else [] (db_request_id body))), book1)
                  else (Inr \<lparr>ao_dispatch = rs_dispatch existing, ao_lease = Some (rs_lease existing), ao_replayed = True\<rparr>, book1)
              | None \<Rightarrow>
                  (case decide_with_reserved js roster body (active_reserved_by_node m) of
                     Inl e \<Rightarrow> (Inl (RouteFailed e), book1)
                   | Inr dispatch \<Rightarrow>
                       if \<not> db_execute body
                       then (Inr \<lparr>ao_dispatch = dispatch, ao_lease = None, ao_replayed = False\<rparr>, book1)
                       else if MAX_ADMISSIONS \<le> length m then (Inl Capacity, book1)
                       else
                         (let serial = ab_next_id book;
                              request_id = or_else (''legacy-'' @ show_word serial) (db_request_id body);
                              lease = \<lparr>la_id = ''adm-'' @ show_word serial, la_request_id = request_id,
                                la_node_id = di_node_id dispatch, la_model = db_model body,
                                la_reserved_vram_bytes =
                                  (if mx_warm (di_choice dispatch) then 0 else model_total_bytes (model_meta body)),
                                la_expires_in_ms = 45000, la_state = Reserved\<rparr>
                          in (Inr \<lparr>ao_dispatch = dispatch, ao_lease = Some lease, ao_replayed = False\<rparr>,
                              \<lparr>ab_by_request = bt_insert request_id
                                 \<lparr>rs_fingerprint = fingerprint, rs_dispatch = dispatch, rs_lease = lease,
                                  rs_expires = now + ADMISSION_TTL\<rparr> m,
                               ab_next_id = serial + 1\<rparr>)))))"

definition book_finish :: "string \<Rightarrow> bool \<Rightarrow> AdmissionBook \<Rightarrow> AdmissionBook" where
  "book_finish admission_id success book =
     (case List.find (\<lambda>(_, item). la_id (rs_lease item) = admission_id) (ab_by_request book) of
        None \<Rightarrow> book
      | Some (k, item) \<Rightarrow>
          book\<lparr>ab_by_request := bt_insert k
            (item\<lparr>rs_lease := (rs_lease item)\<lparr>la_state := if success then Committed else AdmissionFailed\<rparr>\<rparr>) (ab_by_request book)\<rparr>)"

section \<open>Lemmas\<close>

lemma or_else_simps [simp]: "or_else d None = d" "or_else d (Some x) = x"
  by (simp_all add: or_else_def)

text \<open>The bytes the active leases of a node hold.\<close>

definition node_leases :: "string \<Rightarrow> (string, Reservation) btree_map \<Rightarrow> u64 list" where
  "node_leases n m =
     map (la_reserved_vram_bytes \<circ> rs_lease) (filter (\<lambda>r. lease_active (rs_lease r) \<and> la_node_id (rs_lease r) = n) (map snd m))"

lemma reserve_fold:
  "bt_wf acc \<Longrightarrow> or_else 0 (bt_get (foldl reserve_step acc items) n)
     = foldl sat_add (or_else 0 (bt_get acc n)) (map (la_reserved_vram_bytes \<circ> rs_lease) (filter (\<lambda>r. la_node_id (rs_lease r) = n) items))"
  by (induction items arbitrary: acc) (simp_all add: reserve_step_def Let_def map_laws)

lemma active_reserved_get: "or_else 0 (bt_get (active_reserved_by_node m) n) = sat_sum (node_leases n m)"
proof -
  have f: "filter (\<lambda>r. la_node_id (rs_lease r) = n) (filter (lease_active \<circ> rs_lease) xs)
      = filter (\<lambda>r. lease_active (rs_lease r) \<and> la_node_id (rs_lease r) = n) xs" for xs
    by (simp add: conj_commute)
  show ?thesis
    unfolding active_reserved_by_node_def node_leases_def sat_sum_def by (simp only: reserve_fold [OF bt_wf_Nil] bt_get_Nil or_else_simps f)
qed

lemma node_leases_insert:
  "sum_list (map unat (node_leases n (bt_insert k r m)))
     \<le> sum_list (map unat (node_leases n m)) + unat (la_reserved_vram_bytes (rs_lease r))"
  by (induction k r m rule: bt_insert.induct) (auto simp: node_leases_def)

lemma decide_Inr:
  assumes "decide_with_reserved js roster body reserved = Inr d"
  obtains p desc r where "(di_node_id d, desc) \<in> set roster" "parse_node js (di_node_id d) desc = Some p"
    "mesh_rank (mesh_request body) (mesh_candidate (add_reserved reserved p)) = Some r" "mx_warm (di_choice d) = ra_warm r"
proof -
  let ?parsed = "map (add_reserved reserved) (List.map_filter (\<lambda>(i, desc). parse_node js i desc) roster)"
  obtain c where c: "route_mesh (map mesh_candidate ?parsed) (mesh_request body) = Inr c" "d = \<lparr>di_choice = c, di_node_id = mx_node_id c\<rparr>"
    using assms by (auto simp: decide_with_reserved_def Let_def split: sum.splits)
  obtain r where r: "mx_index c < length (map mesh_candidate ?parsed)"
      "mesh_rank (mesh_request body) (map mesh_candidate ?parsed ! mx_index c) = Some r"
      "mx_node_id c = mc_node_id (map mesh_candidate ?parsed ! mx_index c)" "mx_warm c = ra_warm r"
    using route_mesh_Inr [OF c(1)] by metis
  have "map mesh_candidate ?parsed ! mx_index c \<in> set (map mesh_candidate ?parsed)" using r(1) by (rule nth_mem)
  then obtain i desc p where p: "(i, desc) \<in> set roster" "parse_node js i desc = Some p"
      "map mesh_candidate ?parsed ! mx_index c = mesh_candidate (add_reserved reserved p)"
    by (auto simp: List.map_filter_def)
  have "pa_node_id p = i" using p(2) by (auto simp: parse_node_def Let_def split: option.splits)
  then have "mx_node_id c = i" using r(3) p(3) by (simp add: mesh_candidate_def add_reserved_def)
  then show ?thesis using that [of desc p r] p r(2,4) c(2) by simp
qed

lemma sat_room:
  assumes "need \<le> sat_sub usable (sat_add used held)" and "0 < (need :: u64)"
  shows "unat used + unat held + unat need \<le> unat usable"
proof -
  have "unat need \<le> unat usable - min (unat used + unat held) (2 ^ 64 - 1)"
    using assms(1) by (simp add: word_le_nat_alt u_nat)
  moreover have "0 < unat need" using assms(2) by (simp add: word_less_nat_alt)
  moreover have "unat usable \<le> 2 ^ 64 - 1" using unat_le_max [of usable] by simp
  ultimately show ?thesis by (simp add: min_def split: if_splits)
qed

lemma sat_sum_unsaturated:
  "unat (sat_sum xs) < 2 ^ 64 - 1 \<Longrightarrow> unat (sat_sum (xs :: u64 list)) = sum_list (map unat xs)"
  by (simp add: u_nat min_def split: if_splits)

text \<open>The ways an admission can go.\<close>

definition live_part :: "time \<Rightarrow> AdmissionBook \<Rightarrow> (string, Reservation) btree_map" where
  "live_part now book = bt_retain (\<lambda>_ item. now < rs_expires item) (ab_by_request book)"

definition new_lease :: "u64 \<Rightarrow> DispatchBody \<Rightarrow> Dispatch \<Rightarrow> AdmissionLease" where
  "new_lease serial body d =
     \<lparr>la_id = ''adm-'' @ show_word serial, la_request_id = or_else (''legacy-'' @ show_word serial) (db_request_id body),
      la_node_id = di_node_id d, la_model = db_model body,
      la_reserved_vram_bytes = (if mx_warm (di_choice d) then 0 else model_total_bytes (model_meta body)),
      la_expires_in_ms = 45000, la_state = Reserved\<rparr>"

lemma book_admit_cases:
  assumes "book_admit js to_json now roster body book = (res, book')"
  obtains
    (plain) "ab_by_request book' = ab_by_request book \<or> ab_by_request book' = live_part now book" "ab_next_id book' = ab_next_id book"
      "\<And>out. res = Inr out \<Longrightarrow> ao_replayed out \<or> ao_lease out = None"
  | (granted) fp d where "to_json body = Some fp" "Option.bind (db_request_id body) (bt_get (live_part now book)) = None"
      "decide_with_reserved js roster body (active_reserved_by_node (live_part now book)) = Inr d"
      "db_execute body" "length (live_part now book) < MAX_ADMISSIONS"
      "res = Inr \<lparr>ao_dispatch = d, ao_lease = Some (new_lease (ab_next_id book) body d), ao_replayed = False\<rparr>"
      "book' = \<lparr>ab_by_request = bt_insert (la_request_id (new_lease (ab_next_id book) body d))
          \<lparr>rs_fingerprint = fp, rs_dispatch = d, rs_lease = new_lease (ab_next_id book) body d, rs_expires = now + ADMISSION_TTL\<rparr>
          (live_part now book), ab_next_id = ab_next_id book + 1\<rparr>"
  using assms unfolding book_admit_def Let_def live_part_def [symmetric]
  by (auto simp: new_lease_def not_le split: option.splits sum.splits if_splits)

text \<open>Histories of the ledger: its operations in the order in which they took the lock.\<close>

datatype 'j book_op = Admits time "(string \<times> 'j) list" DispatchBody | Finishes string bool

fun book_step :: "'j JsonApi \<Rightarrow> (DispatchBody \<Rightarrow> string option) \<Rightarrow> AdmissionBook \<Rightarrow> 'j book_op \<Rightarrow> AdmissionBook" where
  "book_step js to_json book (Admits now roster body) = snd (book_admit js to_json now roster body book)"
| "book_step js to_json book (Finishes i ok) = book_finish i ok book"

definition book_run :: "'j JsonApi \<Rightarrow> (DispatchBody \<Rightarrow> string option) \<Rightarrow> 'j book_op list \<Rightarrow> AdmissionBook \<Rightarrow> AdmissionBook" where
  "book_run js to_json ops book = foldl (book_step js to_json) book ops"

fun op_before :: "time \<Rightarrow> 'j book_op \<Rightarrow> bool" where
  "op_before t (Admits now _ _) = (now < t)"
| "op_before t (Finishes _ _) = True"

text \<open>A reservation that is on record, up to the progress of its lease.\<close>

definition on_record :: "string \<Rightarrow> string \<Rightarrow> Dispatch \<Rightarrow> AdmissionLease \<Rightarrow> time \<Rightarrow> AdmissionBook \<Rightarrow> bool" where
  "on_record rid fp d l e book =
     (bt_wf (ab_by_request book) \<and>
      (case bt_get (ab_by_request book) rid of
         None \<Rightarrow> False
       | Some item \<Rightarrow> rs_fingerprint item = fp \<and> rs_dispatch item = d \<and> rs_expires item = e \<and>
           rs_lease item = l\<lparr>la_state := la_state (rs_lease item)\<rparr>))"

lemma bt_wf_live [simp]: "bt_wf (ab_by_request book) \<Longrightarrow> bt_wf (live_part now book)"
  by (simp add: live_part_def map_laws)

lemma live_part_get:
  "bt_wf (ab_by_request book) \<Longrightarrow> bt_get (live_part now book) k
     = (case bt_get (ab_by_request book) k of None \<Rightarrow> None | Some item \<Rightarrow> if now < rs_expires item then Some item else None)"
  by (simp add: live_part_def map_laws)

lemma book_finish_get:
  assumes "bt_wf (ab_by_request book)"
  shows "bt_wf (ab_by_request (book_finish i ok book))"
    and "bt_get (ab_by_request (book_finish i ok book)) k = None \<longleftrightarrow> bt_get (ab_by_request book) k = None"
    and "bt_get (ab_by_request book) k = Some item \<Longrightarrow>
      \<exists>st. bt_get (ab_by_request (book_finish i ok book)) k = Some (item\<lparr>rs_lease := (rs_lease item)\<lparr>la_state := st\<rparr>\<rparr>)"
proof -
  have f: "bt_get (ab_by_request book) k' = Some it"
    if "List.find (\<lambda>(_, item). la_id (rs_lease item) = i) (ab_by_request book) = Some (k', it)" for k' it
    using that assms by (auto simp: find_Some_iff in_set_conv_nth intro!: bt_in_set_get)
  show "bt_wf (ab_by_request (book_finish i ok book))"
    "bt_get (ab_by_request (book_finish i ok book)) k = None \<longleftrightarrow> bt_get (ab_by_request book) k = None"
    using assms f by (auto simp: book_finish_def map_laws split: option.splits)
  show "\<exists>st. bt_get (ab_by_request (book_finish i ok book)) k = Some (item\<lparr>rs_lease := (rs_lease item)\<lparr>la_state := st\<rparr>\<rparr>)"
    if g: "bt_get (ab_by_request book) k = Some item"
  proof (cases "List.find (\<lambda>(_, item). la_id (rs_lease item) = i) (ab_by_request book)")
    case None
    then show ?thesis using g by (intro exI [of _ "la_state (rs_lease item)"]) (simp add: book_finish_def)
  next
    case (Some kit)
    then obtain k' it where kit: "kit = (k', it)" by (cases kit) auto
    have it: "k = k' \<Longrightarrow> it = item" using f Some kit g by fastforce
    show ?thesis
    proof (cases "k = k'")
      case True
      then show ?thesis using Some kit it assms by (auto simp: book_finish_def map_laws)
    next
      case False
      then show ?thesis using Some kit g assms
        by (intro exI [of _ "la_state (rs_lease item)"]) (simp add: book_finish_def map_laws)
    qed
  qed
qed

lemma on_record_step:
  assumes "on_record rid fp d l e book" and "op_before e op" and "\<not> starts_with rid ''legacy-''"
  shows "on_record rid fp d l e (book_step js to_json book op)"
proof -
  obtain item where item: "bt_wf (ab_by_request book)" "bt_get (ab_by_request book) rid = Some item" "rs_fingerprint item = fp"
      "rs_dispatch item = d" "rs_expires item = e" "rs_lease item = l\<lparr>la_state := la_state (rs_lease item)\<rparr>"
    using assms(1) by (auto simp: on_record_def split: option.splits)
  show ?thesis
  proof (cases op)
    case (Admits now roster body)
    then have live: "bt_get (live_part now book) rid = Some item" using item assms(2) by (simp add: live_part_get)
    obtain res book' where run: "book_admit js to_json now roster body book = (res, book')" by fastforce
    then show ?thesis
    proof (cases rule: book_admit_cases)
      case plain
      then show ?thesis using Admits run item live by (auto simp: on_record_def)
    next
      case (granted fp' d')
      have "la_request_id (new_lease (ab_next_id book) body d') \<noteq> rid"
        using granted(2) live assms(3) by (cases "db_request_id body") (auto simp: new_lease_def starts_with_def)
      then show ?thesis using Admits run granted(7) item live by (simp add: on_record_def map_laws)
    qed
  next
    case (Finishes i ok)
    obtain st where "bt_get (ab_by_request (book_finish i ok book)) rid = Some (item\<lparr>rs_lease := (rs_lease item)\<lparr>la_state := st\<rparr>\<rparr>)"
      using book_finish_get(3) [OF item(1,2)] by blast
    moreover have "rs_lease item\<lparr>la_state := st\<rparr> = l\<lparr>la_state := st\<rparr>" using item(6) by (metis AdmissionLease.surjective AdmissionLease.update_convs(7))
    ultimately show ?thesis using Finishes item(3-5) book_finish_get(1) [OF item(1)] by (simp add: on_record_def)
  qed
qed

lemma on_record_run:
  "on_record rid fp d l e book \<Longrightarrow> list_all (op_before e) ops \<Longrightarrow> \<not> starts_with rid ''legacy-'' \<Longrightarrow>
   on_record rid fp d l e (book_run js to_json ops book)"
  by (induction ops arbitrary: book) (simp_all add: book_run_def on_record_step)

text \<open>Every lease is filed under its request id, and its own id is a serial number below the next one.\<close>

definition serial_of :: "AdmissionLease \<Rightarrow> nat \<Rightarrow> bool" where
  "serial_of l n = (la_id l = ''adm-'' @ show_nat n)"

definition book_inv :: "AdmissionBook \<Rightarrow> bool" where
  "book_inv book =
     (bt_wf (ab_by_request book) \<and> length (ab_by_request book) \<le> MAX_ADMISSIONS \<and>
      (\<forall>k r. bt_get (ab_by_request book) k = Some r \<longrightarrow>
         la_request_id (rs_lease r) = k \<and> (\<exists>n < unat (ab_next_id book). serial_of (rs_lease r) n)) \<and>
      (\<forall>k r k' r'. bt_get (ab_by_request book) k = Some r \<longrightarrow> bt_get (ab_by_request book) k' = Some r' \<longrightarrow>
         la_id (rs_lease r) = la_id (rs_lease r') \<longrightarrow> k = k'))"

lemma show_nat_inject [simp]: "show_nat m = show_nat n \<longleftrightarrow> m = n"
  using parse_show_nat by (metis option.inject)

lemma book_invD:
  assumes "book_inv book"
  shows "bt_wf (ab_by_request book)" "length (ab_by_request book) \<le> MAX_ADMISSIONS"
    "bt_get (ab_by_request book) k = Some r \<Longrightarrow> la_request_id (rs_lease r) = k"
    "bt_get (ab_by_request book) k = Some r \<Longrightarrow> \<exists>n < unat (ab_next_id book). serial_of (rs_lease r) n"
    "bt_get (ab_by_request book) k = Some r \<Longrightarrow> bt_get (ab_by_request book) k' = Some r' \<Longrightarrow>
       la_id (rs_lease r) = la_id (rs_lease r') \<Longrightarrow> k = k'"
  using assms unfolding book_inv_def by blast+

text \<open>Dropping entries, and changing nothing of a lease but its progress, keeps the invariant.\<close>

lemma book_inv_sub:
  assumes "book_inv book" and "bt_wf (ab_by_request book')" and "length (ab_by_request book') \<le> length (ab_by_request book)"
    and "ab_next_id book' = ab_next_id book"
    and "\<And>k r. bt_get (ab_by_request book') k = Some r \<Longrightarrow>
      \<exists>r0. bt_get (ab_by_request book) k = Some r0 \<and> la_id (rs_lease r) = la_id (rs_lease r0) \<and> la_request_id (rs_lease r) = la_request_id (rs_lease r0)"
  shows "book_inv book'"
  unfolding book_inv_def
proof (intro conjI allI impI)
  show "length (ab_by_request book') \<le> MAX_ADMISSIONS" using assms(3) book_invD(2) [OF assms(1)] by linarith
next
  fix k r assume "bt_get (ab_by_request book') k = Some r"
  then obtain r0 where r0: "bt_get (ab_by_request book) k = Some r0" "la_id (rs_lease r) = la_id (rs_lease r0)"
      "la_request_id (rs_lease r) = la_request_id (rs_lease r0)" using assms(5) by blast
  show "la_request_id (rs_lease r) = k" using r0 book_invD(3) [OF assms(1)] by simp
  show "\<exists>n < unat (ab_next_id book'). serial_of (rs_lease r) n"
    using r0(2) book_invD(4) [OF assms(1) r0(1)] assms(4) by (simp add: serial_of_def)
next
  fix k r k' r'
  assume "bt_get (ab_by_request book') k = Some r" "bt_get (ab_by_request book') k' = Some r'" "la_id (rs_lease r) = la_id (rs_lease r')"
  then show "k = k'" using assms(5) [of k r] assms(5) [of k' r'] book_invD(5) [OF assms(1)] by fastforce
qed (rule assms(2))

lemma book_inv_grant:
  assumes "book_inv book" and "unat (ab_next_id book) < 2 ^ 64 - 1" and "length (ab_by_request book) < MAX_ADMISSIONS"
    and "la_request_id (rs_lease item) = rid" and "serial_of (rs_lease item) (unat (ab_next_id book))"
  shows "book_inv \<lparr>ab_by_request = bt_insert rid item (ab_by_request book), ab_next_id = ab_next_id book + 1\<rparr>"
proof -
  let ?m = "ab_by_request book"
  have wf: "bt_wf ?m" using book_invD(1) [OF assms(1)] .
  have succ: "unat (ab_next_id book + 1) = Suc (unat (ab_next_id book))" using assms(2) by (simp add: unat_word_ariths)
  have fresh: "la_id (rs_lease r) \<noteq> la_id (rs_lease item)" if "bt_get ?m k = Some r" for k r
    using book_invD(4) [OF assms(1) that] assms(5) by (auto simp: serial_of_def)
  have len: "length (bt_insert rid item ?m) \<le> MAX_ADMISSIONS"
    using assms(3) bt_insert_length [of ?m rid item] wf by (simp add: bt_wf_def)
  have g: "bt_get (bt_insert rid item ?m) k = (if k = rid then Some item else bt_get ?m k)" for k
    using wf by (simp add: map_laws)
  show ?thesis
    unfolding book_inv_def
  proof (simp only: AdmissionBook.select_convs, intro conjI allI impI)
    show "bt_wf (bt_insert rid item ?m)" using wf by (simp add: map_laws)
    show "length (bt_insert rid item ?m) \<le> MAX_ADMISSIONS" by (rule len)
  next
    fix k r assume r: "bt_get (bt_insert rid item ?m) k = Some r"
    show "la_request_id (rs_lease r) = k" using r assms(4) book_invD(3) [OF assms(1)] by (auto simp: g split: if_splits)
    show "\<exists>n < unat (ab_next_id book + 1). serial_of (rs_lease r) n"
      using r assms(5) book_invD(4) [OF assms(1), of k r] unfolding succ by (auto simp: g less_Suc_eq split: if_splits)
  next
    fix k r k' r'
    assume "bt_get (bt_insert rid item ?m) k = Some r" "bt_get (bt_insert rid item ?m) k' = Some r'" "la_id (rs_lease r) = la_id (rs_lease r')"
    then show "k = k'" using fresh [of k r] fresh [of k' r'] book_invD(5) [OF assms(1), of k r k' r'] by (auto simp: g split: if_splits)
  qed
qed

lemma book_inv_live:
  assumes "book_inv book"
  shows "book_inv (book\<lparr>ab_by_request := live_part now book\<rparr>)"
proof (rule book_inv_sub [OF assms])
  have wf: "bt_wf (ab_by_request book)" using book_invD(1) [OF assms] .
  then show "bt_wf (ab_by_request (book\<lparr>ab_by_request := live_part now book\<rparr>))" by simp
  show "\<exists>r0. bt_get (ab_by_request book) k = Some r0 \<and> la_id (rs_lease r) = la_id (rs_lease r0) \<and>
      la_request_id (rs_lease r) = la_request_id (rs_lease r0)"
    if "bt_get (ab_by_request (book\<lparr>ab_by_request := live_part now book\<rparr>)) k = Some r" for k r
    using that wf by (auto simp: live_part_get split: option.splits if_splits)
qed (simp_all add: live_part_def bt_retain_def)

lemma book_finish_length:
  assumes "bt_wf (ab_by_request book)"
  shows "length (ab_by_request (book_finish i ok book)) = length (ab_by_request book)"
proof (cases "List.find (\<lambda>(_, item). la_id (rs_lease item) = i) (ab_by_request book)")
  case (Some kit)
  then obtain k it where kit: "kit = (k, it)" "(k, it) \<in> set (ab_by_request book)"
    by (cases kit) (auto simp: find_Some_iff intro!: nth_mem dest: nth_mem)
  then have "map_of (ab_by_request book) k \<noteq> None" using weak_map_of_SomeI by fastforce
  then show ?thesis using Some kit(1) assms bt_insert_length [of "ab_by_request book" k] by (simp add: book_finish_def bt_wf_def)
qed (simp add: book_finish_def)

lemma book_inv_finish:
  assumes "book_inv book"
  shows "book_inv (book_finish i ok book)"
proof (rule book_inv_sub [OF assms])
  have wf: "bt_wf (ab_by_request book)" using book_invD(1) [OF assms] .
  show "bt_wf (ab_by_request (book_finish i ok book))" by (rule book_finish_get(1) [OF wf])
  show "length (ab_by_request (book_finish i ok book)) \<le> length (ab_by_request book)" by (simp add: book_finish_length [OF wf])
  show "ab_next_id (book_finish i ok book) = ab_next_id book" by (simp add: book_finish_def split: option.splits)
  show "\<exists>r0. bt_get (ab_by_request book) k = Some r0 \<and> la_id (rs_lease r) = la_id (rs_lease r0) \<and>
      la_request_id (rs_lease r) = la_request_id (rs_lease r0)"
    if r: "bt_get (ab_by_request (book_finish i ok book)) k = Some r" for k r
  proof -
    obtain item where item: "bt_get (ab_by_request book) k = Some item"
      using r book_finish_get(2) [OF wf, of i ok k] by fastforce
    then obtain st where "r = item\<lparr>rs_lease := (rs_lease item)\<lparr>la_state := st\<rparr>\<rparr>"
      using book_finish_get(3) [OF wf item, of i ok] r by auto
    then show ?thesis using item by simp
  qed
qed

lemma book_inv_step:
  assumes "book_inv book" and "unat (ab_next_id book) < 2 ^ 64 - 1"
  shows "book_inv (book_step js to_json book op) \<and> unat (ab_next_id (book_step js to_json book op)) \<le> Suc (unat (ab_next_id book))"
proof (cases op)
  case (Finishes i ok)
  then show ?thesis using book_inv_finish [OF assms(1), of i ok] by (simp add: book_finish_def split: option.splits)
next
  case (Admits now roster body)
  obtain res book' where run: "book_admit js to_json now roster body book = (res, book')" by fastforce
  then show ?thesis
  proof (cases rule: book_admit_cases)
    case plain
    then have "book' = book \<or> book' = book\<lparr>ab_by_request := live_part now book\<rparr>" by auto
    then show ?thesis using Admits run assms(1) book_inv_live plain(2) by auto
  next
    case (granted fp d)
    have "serial_of (new_lease (ab_next_id book) body d) (unat (ab_next_id book))" by (simp add: serial_of_def new_lease_def)
    then have "book_inv book'"
      using book_inv_grant [OF book_inv_live [OF assms(1), of now], of "\<lparr>rs_fingerprint = fp, rs_dispatch = d,
          rs_lease = new_lease (ab_next_id book) body d, rs_expires = now + ADMISSION_TTL\<rparr>" "la_request_id (new_lease (ab_next_id book) body d)"]
        assms(2) granted(5,7) by simp
    moreover have "unat (ab_next_id book + 1) \<le> Suc (unat (ab_next_id book))" using assms(2) by (simp add: unat_word_ariths)
    ultimately show ?thesis using Admits run granted(7) by simp
  qed
qed

lemma book_finish_exact:
  assumes "book_inv book" and "bt_get (ab_by_request book) k = Some r"
  shows "bt_get (ab_by_request (book_finish (la_id (rs_lease r)) ok book)) k' =
    (if k' = k then Some (r\<lparr>rs_lease := (rs_lease r)\<lparr>la_state := if ok then Committed else AdmissionFailed\<rparr>\<rparr>)
     else bt_get (ab_by_request book) k')"
proof -
  let ?P = "\<lambda>(_ :: string, item). la_id (rs_lease item) = la_id (rs_lease r)"
  have wf: "bt_wf (ab_by_request book)" using book_invD(1) [OF assms(1)] .
  have "List.find ?P (ab_by_request book) \<noteq> None"
    using bt_get_in_set [OF assms(2)] by (auto simp: find_None_iff)
  then obtain k0 it where f: "List.find ?P (ab_by_request book) = Some (k0, it)" by auto
  then have "(k0, it) \<in> set (ab_by_request book)" "la_id (rs_lease it) = la_id (rs_lease r)"
    by (auto simp: find_Some_iff dest: nth_mem)
  then have g: "bt_get (ab_by_request book) k0 = Some it" using bt_in_set_get [OF wf] by blast
  then have "k0 = k" using book_invD(5) [OF assms(1) g assms(2)] \<open>la_id (rs_lease it) = la_id (rs_lease r)\<close> by blast
  then have "it = r" using g assms(2) by simp
  then show ?thesis using f \<open>k0 = k\<close> wf by (simp add: book_finish_def map_laws)
qed

text \<open>A request without an id is filed under \<open>legacy-\<close> and its serial number, and replaces whatever a client
  that chose that very id had on record.\<close>

lemma legacy_id_collides:
  assumes "bt_wf (ab_by_request book)" and "book_admit js to_json now roster body book = (Inr out, book')"
    and "ao_lease out = Some l" and "\<not> ao_replayed out" and "db_request_id body = None"
  shows "map_option rs_lease (bt_get (ab_by_request book') (''legacy-'' @ show_word (ab_next_id book))) = Some l"
  using assms(2)
proof (cases rule: book_admit_cases)
  case (granted fp d)
  then show ?thesis using assms by (auto simp: new_lease_def map_laws)
qed (use assms in auto)

section \<open>Properties\<close>

text \<open>C4. A node is never overbooked.  When an inference request is granted memory on a node whose VRAM is
  known, what the node reports in use plus everything the ledger then holds for it, the new lease included,
  is within the node's usable VRAM; the sums are those of the integers, so no addition has wrapped.\<close>

theorem no_overbooking:
  assumes "book_admit js to_json now roster body book = (Inr out, book')"
    and "ao_lease out = Some l" and "\<not> ao_replayed out"
    and "body_task body = Inference" and "0 < la_reserved_vram_bytes l"
  shows "\<exists>desc p. (la_node_id l, desc) \<in> set roster \<and> parse_node js (la_node_id l) desc = Some p \<and>
    (snd (node_usable_vram (pa_info p)) \<longrightarrow>
       unat (nl_used_vram_bytes (pa_load p)) + sum_list (map unat (node_leases (la_node_id l) (ab_by_request book')))
         \<le> unat (fst (node_usable_vram (pa_info p))))"
  using assms(1)
proof (cases rule: book_admit_cases)
  case (granted fp d)
  let ?m = "live_part now book"
  have l: "l = new_lease (ab_next_id book) body d" using granted(6) assms(2) by simp
  then have node: "la_node_id l = di_node_id d" and cold: "\<not> mx_warm (di_choice d)"
    and need: "la_reserved_vram_bytes l = model_total_bytes (model_meta body)"
    using assms(5) by (auto simp: new_lease_def split: if_splits)
  obtain p desc r where p: "(di_node_id d, desc) \<in> set roster" "parse_node js (di_node_id d) desc = Some p"
      and r: "mesh_rank (mesh_request body) (mesh_candidate (add_reserved (active_reserved_by_node ?m) p)) = Some r"
        "mx_warm (di_choice d) = ra_warm r"
    using decide_Inr [OF granted(3)] .
  have pid: "pa_node_id p = di_node_id d" using p(2) by (auto simp: parse_node_def Let_def split: option.splits)
  let ?held = "sat_sum (node_leases (di_node_id d) ?m)"
  have "unat (nl_used_vram_bytes (pa_load p)) + sum_list (map unat (node_leases (di_node_id d) (ab_by_request book')))
      \<le> unat (fst (node_usable_vram (pa_info p)))" if known: "snd (node_usable_vram (pa_info p))"
  proof -
    have "model_total_bytes (model_meta body)
        \<le> sat_sub (fst (node_usable_vram (pa_info p))) (sat_add (nl_used_vram_bytes (pa_load p)) ?held)"
      using mesh_rank_Some(8) [OF r(1)] mesh_rank_room(1) [OF r(1)] cold r(2) known assms(4) pid
      by (auto simp: free_vram_def mesh_candidate_def add_reserved_def mesh_request_def body_route_request_def saturating_need_def
          active_reserved_get split: prod.splits)
    then have room: "unat (nl_used_vram_bytes (pa_load p)) + unat ?held + unat (model_total_bytes (model_meta body))
        \<le> unat (fst (node_usable_vram (pa_info p)))"
      using assms(5) need by (intro sat_room) simp_all
    moreover have "unat (fst (node_usable_vram (pa_info p))) \<le> 2 ^ 64 - 1" using unat_le_max [of "fst (node_usable_vram (pa_info p))"] by simp
    moreover have "0 < unat (model_total_bytes (model_meta body))" using assms(5) need by (simp add: word_less_nat_alt)
    ultimately have "unat ?held = sum_list (map unat (node_leases (di_node_id d) ?m))"
      by (intro sat_sum_unsaturated) linarith
    moreover have "sum_list (map unat (node_leases (di_node_id d) (ab_by_request book')))
        \<le> sum_list (map unat (node_leases (di_node_id d) ?m)) + unat (model_total_bytes (model_meta body))"
      using node_leases_insert granted(7) l need by (metis AdmissionBook.select_convs(1) Reservation.select_convs(3))
    ultimately show ?thesis using room by linarith
  qed
  then show ?thesis using p node by auto
qed (use assms in auto)

text \<open>A node description with a topology and its cards, and a request for it.\<close>

definition sample_api :: "string JsonApi" where
  "sample_api = \<lparr>jv_get = \<lambda>v k. if v = ''node'' \<and> (k = ''topology'' \<or> k = ''gpus'') then Some k else None,
     jv_str = \<lambda>_. None, jv_u64 = \<lambda>_. None, jv_f64 = \<lambda>_. None, jv_bool = \<lambda>_. None, jv_array = \<lambda>_. None,
     jv_topology = \<lambda>_. Some (ni_topology (example_node ''n'' 1)), jv_gpus = \<lambda>_. Some (ni_assessments (example_node ''n'' 1))\<rparr>"

definition sample_body :: DispatchBody where
  "sample_body = \<lparr>db_model = ''tinyllama'', db_params = None, db_quant = default_quant, db_moe = False, db_task = None,
     db_min_tier = None, db_execute = True, db_port = default_port, db_session_affinity = None, db_privacy = Pool,
     db_preference = Latency, db_deadline_ms = None, db_expected_output_tokens = default_expected_output_tokens,
     db_priority = default_priority, db_allow_legacy_token = default_true, db_protocol_major = default_protocol_major,
     db_request_id = Some ''r1''\<rparr>"

lemma route_mesh_total:
  assumes "c \<in> set cs" and "mesh_rank req c \<noteq> None"
  shows "\<exists>ch. route_mesh cs req = Inr ch"
proof (cases "pick_best (mesh_better_than (mr_preference req)) None (ranked_list (mesh_rank req) cs)")
  case None
  then show ?thesis using assms by (auto simp: pick_best_None_iff ranked_list_empty)
next
  case (Some ir)
  then show ?thesis using assms(1) by (cases ir) (auto simp: route_mesh_def Let_def)
qed

definition sample_node :: ParsedNode where
  "sample_node = the (parse_node sample_api ''n'' ''node'')"

lemma sample_facts:
  "parse_node sample_api ''n'' ''node'' = Some sample_node" "body_task sample_body = Inference"
  "nl_serving (pa_load sample_node) = []" "0 < model_total_bytes (model_meta sample_body)"
  "mesh_rank (mesh_request sample_body) (mesh_candidate (add_reserved [] sample_node)) \<noteq> None"
proof -
  show "parse_node sample_api ''n'' ''node'' = Some sample_node" by (simp add: sample_node_def parse_node_def sample_api_def Let_def)
qed (code_simp+)

lemma sample_admitted:
  obtains out l book' where
    "book_admit sample_api (\<lambda>_. Some ''fp'') 0 [(''n'', ''node'')] sample_body book_new = (Inr out, book')"
    "ao_lease out = Some l" "\<not> ao_replayed out" "0 < la_reserved_vram_bytes l"
proof -
  let ?c = "mesh_candidate (add_reserved [] sample_node)"
  obtain ch where ch: "route_mesh [?c] (mesh_request sample_body) = Inr ch"
    using route_mesh_total [OF _ sample_facts(5), of "[?c]"] by auto
  have d: "decide_with_reserved sample_api [(''n'', ''node'')] sample_body [] = Inr \<lparr>di_choice = ch, di_node_id = mx_node_id ch\<rparr>"
    by (simp add: decide_with_reserved_def List.map_filter_def sample_facts(1) ch)
  obtain r where "mesh_rank (mesh_request sample_body) ([?c] ! mx_index ch) = Some r" "mx_index ch < length [?c]" "mx_warm ch = ra_warm r"
    using route_mesh_Inr [OF ch] by metis
  then have "\<not> mx_warm ch"
    using mesh_rank_Some(7) [of "mesh_request sample_body" ?c r] by (simp add: mesh_candidate_def add_reserved_def sample_facts(3) serves_def)
  moreover let ?d = "\<lparr>di_choice = ch, di_node_id = mx_node_id ch\<rparr>"
  have "db_execute sample_body" "db_request_id sample_body = Some ''r1''" by (simp_all add: sample_body_def)
  then have "fst (book_admit sample_api (\<lambda>_. Some ''fp'') 0 [(''n'', ''node'')] sample_body book_new)
      = Inr \<lparr>ao_dispatch = ?d, ao_lease = Some (new_lease 1 sample_body ?d), ao_replayed = False\<rparr>"
    using d by (simp add: book_admit_def book_new_def bt_retain_def active_reserved_by_node_def MAX_ADMISSIONS_def Let_def new_lease_def)
  ultimately show ?thesis
    using that sample_facts(4) by (auto simp: new_lease_def) (metis AdmissionLease.select_convs(5) AdmissionOutcome.select_convs(2,3) prod.collapse)
qed

theorem no_overbooking_witness:
  "\<exists>out l book' desc p. book_admit sample_api (\<lambda>_. Some ''fp'') 0 [(''n'', ''node'')] sample_body book_new = (Inr out, book') \<and>
     ao_lease out = Some l \<and> parse_node sample_api (la_node_id l) desc = Some p \<and>
     (snd (node_usable_vram (pa_info p)) \<longrightarrow>
       unat (nl_used_vram_bytes (pa_load p)) + sum_list (map unat (node_leases (la_node_id l) (ab_by_request book')))
         \<le> unat (fst (node_usable_vram (pa_info p))))"
proof -
  obtain out l book' where a: "book_admit sample_api (\<lambda>_. Some ''fp'') 0 [(''n'', ''node'')] sample_body book_new = (Inr out, book')"
      "ao_lease out = Some l" "\<not> ao_replayed out" "0 < la_reserved_vram_bytes l"
    by (rule sample_admitted)
  show ?thesis using no_overbooking [OF a(1-3) sample_facts(2) a(4)] a(1,2) by blast
qed

text \<open>C13. Retries are idempotent.  Once an execute request with a request id of its own has been granted, a
  repetition of it before the 45 seconds are over, after any operations of other callers in between, returns
  the very same decision and lease (up to the lease's progress), marked as replayed, and reserves nothing
  more; another request under the same id is refused as a conflict.\<close>

theorem retries_idempotent:
  assumes "bt_wf (ab_by_request book)" and "book_admit js to_json t roster body book = (Inr out, book1)"
    and "ao_lease out = Some l" and "\<not> ao_replayed out"
    and "db_request_id body = Some rid" and "\<not> starts_with rid ''legacy-''"
    and "list_all (op_before (t + ADMISSION_TTL)) ops" and "t' < t + ADMISSION_TTL"
  shows "let book2 = book_run js to_json ops book1 in
    (case book_admit js to_json t' roster' body book2 of
       (Inl _, _) \<Rightarrow> False
     | (Inr out', book3) \<Rightarrow> ao_replayed out' \<and> ao_dispatch out' = ao_dispatch out \<and>
         (\<exists>st. ao_lease out' = Some (l\<lparr>la_state := st\<rparr>)) \<and>
         ab_next_id book3 = ab_next_id book2 \<and> ab_by_request book3 = live_part t' book2) \<and>
    (\<forall>body' fp'. db_request_id body' = Some rid \<longrightarrow> to_json body' = Some fp' \<longrightarrow> to_json body \<noteq> Some fp' \<longrightarrow>
       fst (book_admit js to_json t' roster' body' book2) = Inl (Conflict rid))"
  using assms(2)
proof (cases rule: book_admit_cases)
  case (granted fp d)
  let ?book2 = "book_run js to_json ops book1"
  have "l = new_lease (ab_next_id book) body d" "la_request_id l = rid"
    using granted(6) assms(3,5) by (auto simp: new_lease_def)
  then have "on_record rid fp d l (t + ADMISSION_TTL) book1"
    using granted(7) assms(1) by (simp add: on_record_def map_laws)
  then have "on_record rid fp d l (t + ADMISSION_TTL) ?book2" using assms(6,7) by (intro on_record_run)
  then obtain item where item: "bt_wf (ab_by_request ?book2)" "bt_get (ab_by_request ?book2) rid = Some item" "rs_fingerprint item = fp"
      "rs_dispatch item = d" "rs_expires item = t + ADMISSION_TTL" "rs_lease item = l\<lparr>la_state := la_state (rs_lease item)\<rparr>"
    by (auto simp: on_record_def split: option.splits)
  then have live: "bt_get (live_part t' ?book2) rid = Some item" using assms(8) by (simp add: live_part_get)
  have d: "ao_dispatch out = d" using granted(6) by simp
  show ?thesis
    using granted(1) live item(3,4,6) assms(5) d
    by (auto simp: book_admit_def Let_def live_part_def [symmetric])
qed (use assms in auto)

theorem retries_idempotent_witness:
  "\<exists>out l book1. book_admit sample_api (\<lambda>_. Some ''fp'') 0 [(''n'', ''node'')] sample_body book_new = (Inr out, book1) \<and>
     ao_lease out = Some l \<and>
     (case book_admit sample_api (\<lambda>_. Some ''fp'') 5 [] sample_body (book_run sample_api (\<lambda>_. Some ''fp'') [Finishes ''adm-1'' True] book1) of
        (Inl _, _) \<Rightarrow> False | (Inr out', _) \<Rightarrow> ao_replayed out' \<and> ao_dispatch out' = ao_dispatch out)"
proof -
  obtain out l book1 where a: "book_admit sample_api (\<lambda>_. Some ''fp'') 0 [(''n'', ''node'')] sample_body book_new = (Inr out, book1)"
      "ao_lease out = Some l" "\<not> ao_replayed out" "0 < la_reserved_vram_bytes l"
    by (rule sample_admitted)
  have "bt_wf (ab_by_request book_new)" "db_request_id sample_body = Some ''r1''" "\<not> starts_with ''r1'' ''legacy-''"
    "list_all (op_before (0 + ADMISSION_TTL)) [Finishes ''adm-1'' True]" "(5 :: time) < 0 + ADMISSION_TTL"
    by (simp_all add: book_new_def sample_body_def starts_with_def ADMISSION_TTL_def)
  from retries_idempotent [OF this(1) a(1-3) this(2-5), of "[]"] show ?thesis
    using a(1,2) by (auto simp: Let_def split: prod.splits sum.splits)
qed

text \<open>C29. The ledger stays small and its leases stay apart.  After any history of fewer than \<open>2^64 - 1\<close>
  operations there are at most 4096 reservations, each filed under its own request id, no two leases share
  an id, and reporting the outcome of a lease changes that lease and no other.\<close>

theorem ledger_invariant:
  assumes "length ops < 2 ^ 64 - 2"
  shows "let book = book_run js to_json ops book_new in
    bt_wf (ab_by_request book) \<and> length (ab_by_request book) \<le> MAX_ADMISSIONS \<and>
    (\<forall>k r. bt_get (ab_by_request book) k = Some r \<longrightarrow>
       la_request_id (rs_lease r) = k \<and>
       (\<forall>ok k'. bt_get (ab_by_request (book_finish (la_id (rs_lease r)) ok book)) k' =
          (if k' = k then Some (r\<lparr>rs_lease := (rs_lease r)\<lparr>la_state := if ok then Committed else AdmissionFailed\<rparr>\<rparr>)
           else bt_get (ab_by_request book) k')))"
proof -
  have "book_inv (book_run js to_json ops book_new) \<and> unat (ab_next_id (book_run js to_json ops book_new)) \<le> Suc (length ops)"
    using assms
  proof (induction ops rule: rev_induct)
    case Nil
    then show ?case by (simp add: book_run_def book_new_def book_inv_def)
  next
    case (snoc op ops)
    then show ?case using book_inv_step [of "book_run js to_json ops book_new" js to_json op] by (auto simp: book_run_def)
  qed
  then have inv: "book_inv (book_run js to_json ops book_new)" ..
  show ?thesis
    using book_invD [OF inv] book_finish_exact [OF inv] by (auto simp: Let_def)
qed

theorem ledger_invariant_witness:
  "let book = book_run sample_api (\<lambda>_. Some ''fp'') [Admits 0 [(''n'', ''node'')] sample_body, Finishes ''adm-1'' False] book_new in
   bt_wf (ab_by_request book) \<and> length (ab_by_request book) \<le> MAX_ADMISSIONS"
  using ledger_invariant [of "[Admits 0 [(''n'', ''node'')] sample_body, Finishes ''adm-1'' False]" sample_api "\<lambda>_. Some ''fp''"]
  by (simp add: Let_def)

end
