(* ===== verification/Detect.thy ===== *)
theory Detect
  imports Gpu
begin

text \<open>
  \<open>core/gpu-detect/src/parse.rs\<close>, \<open>memfacts.rs\<close> and \<open>detect.rs\<close>: the parsers of the tools' output, the pairing of
  \<open>rocminfo\<close> agents with \<open>lspci\<close> cards, the captured memory facts, and their assembly into a topology.  The
  three regular expressions are written out as the matchers they denote; the JSON and TOML readers and the
  live collector are parameters.  The loops that update cards through an index keep the cards, the claimed
  agents and the count in a record.
\<close>

section \<open>PCI addresses and identifiers\<close>

fun hex_value :: "nat \<Rightarrow> string \<Rightarrow> nat" where
  "hex_value acc [] = acc"
| "hex_value acc (c # cs) =
     hex_value (acc * 16 + (let n = ccode (lower_char c) in if n \<le> 57 then n - 48 else n - 87)) cs"

text \<open>\<open>uN::from_str_radix(s, 16)\<close>.\<close>

definition from_hex :: "string \<Rightarrow> 'a::len word option" where
  "from_hex s =
     (let d = (case s of [] \<Rightarrow> [] | c # cs \<Rightarrow> if c = CHR ''+'' then cs else s)
      in if d \<noteq> [] \<and> list_all is_hexdigit d \<and> hex_value 0 d < 2 ^ LENGTH('a) then Some (of_nat (hex_value 0 d)) else None)"

text \<open>A match of the bracketed \<open>vendor:device\<close> pattern at the head of a string, and all matches in order.\<close>

definition pci_id_here :: "string \<Rightarrow> (string \<times> string) option" where
  "pci_id_here s =
     (if 11 \<le> length s \<and> s ! 0 = CHR ''['' \<and> list_all is_hexdigit (take 4 (drop 1 s)) \<and> s ! 5 = CHR '':''
         \<and> list_all is_hexdigit (take 4 (drop 6 s)) \<and> s ! 10 = CHR '']''
      then Some (take 4 (drop 1 s), take 4 (drop 6 s)) else None)"

function pci_ids :: "string \<Rightarrow> (string \<times> string) list" where
  "pci_ids [] = []"
| "pci_ids (c # cs) =
     (case pci_id_here (c # cs) of Some m \<Rightarrow> m # pci_ids (drop 10 cs) | None \<Rightarrow> pci_ids cs)"
  by pat_completeness auto
termination by (relation "measure length") auto

fun before_pci_id :: "string \<Rightarrow> string" where
  "before_pci_id [] = []"
| "before_pci_id (c # cs) = (if pci_id_here (c # cs) \<noteq> None then [] else c # before_pci_id cs)"

text \<open>The first architecture token.\<close>

fun gfx_find :: "string \<Rightarrow> string option" where
  "gfx_find [] = None"
| "gfx_find (c # cs) =
     (case strip_prefix ''gfx'' (c # cs) of
        Some rest \<Rightarrow> (case takeWhile is_hexdigit rest of [] \<Rightarrow> gfx_find cs | ds \<Rightarrow> Some (''gfx'' @ ds))
      | None \<Rightarrow> gfx_find cs)"

text \<open>The anchored address pattern: domain (if any), bus, device and function.\<close>

definition pci_addr_tail :: "string \<Rightarrow> (string \<times> string \<times> string) option" where
  "pci_addr_tail s =
     (if length s = 7 \<and> list_all is_hexdigit (take 2 s) \<and> s ! 2 = CHR '':'' \<and> list_all is_hexdigit (take 2 (drop 3 s))
         \<and> s ! 5 = CHR ''.'' \<and> 48 \<le> ccode (s ! 6) \<and> ccode (s ! 6) \<le> 55
      then Some (take 2 s, take 2 (drop 3 s), [s ! 6]) else None)"

definition pci_addr_captures :: "string \<Rightarrow> (string option \<times> string \<times> string \<times> string) option" where
  "pci_addr_captures s =
     (if length s = 12 \<and> list_all is_hexdigit (take 4 s) \<and> s ! 4 = CHR '':''
      then map_option (Pair (Some (take 4 s))) (pci_addr_tail (drop 5 s))
      else map_option (Pair None) (pci_addr_tail s))"

record Bdf =
  bdf_bus :: u8
  bdf_device :: u8
  bdf_function :: u8

definition from_bdfid :: "u32 \<Rightarrow> Bdf" where
  "from_bdfid i = \<lparr>bdf_bus = ucast (and (drop_bit 8 i) 0xFF), bdf_device = ucast (and (drop_bit 3 i) 0x1F), bdf_function = ucast (and i 7)\<rparr>"

definition bdf_parse :: "string \<Rightarrow> Bdf option" where
  "bdf_parse addr =
     (case pci_addr_captures (trim addr) of
        None \<Rightarrow> None
      | Some (_, b, d, f) \<Rightarrow>
          (case from_hex b of
             None \<Rightarrow> None
           | Some bus \<Rightarrow>
               (case from_hex d of
                  None \<Rightarrow> None
                | Some dev \<Rightarrow> map_option (\<lambda>fn. \<lparr>bdf_bus = bus, bdf_device = dev, bdf_function = fn\<rparr>) (parse_word f))))"

definition normalize_pci_addr :: "string \<Rightarrow> string option" where
  "normalize_pci_addr addr =
     (case pci_addr_captures (trim addr) of
        None \<Rightarrow> None
      | Some (dm, b, d, f) \<Rightarrow>
          Some (to_lower (case dm of None \<Rightarrow> ''0000'' | Some x \<Rightarrow> x) @ '':'' @ to_lower b @ '':'' @ to_lower d @ ''.'' @ f))"

section \<open>The tools' output\<close>

fun split_once_str :: "string \<Rightarrow> string \<Rightarrow> string option" where
  "split_once_str p [] = (if p = [] then Some [] else None)"
| "split_once_str p (c # cs) =
     (case strip_prefix p (c # cs) of Some rest \<Rightarrow> Some rest | None \<Rightarrow> split_once_str p cs)"

definition VENDOR_PREFIXES :: "string list" where
  "VENDOR_PREFIXES = [''Advanced Micro Devices, Inc. [AMD/ATI]'', ''Advanced Micro Devices, Inc.'', ''NVIDIA Corporation'', ''Intel Corporation'']"

definition strip_vendor :: "string \<Rightarrow> string" where
  "strip_vendor model =
     (case List.map_filter (\<lambda>p. strip_prefix p model) VENDOR_PREFIXES of [] \<Rightarrow> model | rest # _ \<Rightarrow> trim_start rest)"

definition extract_model :: "string \<Rightarrow> string option" where
  "extract_model line =
     (let after_class = (case split_once_str '']:'' line of None \<Rightarrow> line | Some r \<Rightarrow> r);
          model = strip_vendor (trim (before_pci_id after_class))
      in if model = [] then None else Some model)"

definition lspci_line :: "string \<Rightarrow> GpuInfo option" where
  "lspci_line line =
     (let lower = to_lower line in
      if \<not> (has_sub lower ''vga compatible controller'' \<or> has_sub lower ''display controller'' \<or> has_sub lower ''3d controller'') then None
      else case List.find (\<lambda>(v, _). is_known_gpu (from_pci_id v)) (pci_ids line) of
             None \<Rightarrow> None
           | Some (v, d) \<Rightarrow>
               (let pci_id = to_lower v @ '':'' @ to_lower d;
                    model = (case extract_model line of None \<Rightarrow> pci_id | Some m \<Rightarrow> m)
                in Some ((GpuInfo_new model pci_id)
                     \<lparr>gi_pci_addr := (case split_whitespace line of [] \<Rightarrow> None | w # _ \<Rightarrow> normalize_pci_addr w)\<rparr>)))"

definition parse_lspci :: "string \<Rightarrow> GpuInfo list" where
  "parse_lspci output = List.map_filter lspci_line (lines output)"

record RocmCliGpu =
  rcg_name :: string
  rcg_gfx :: "string option"
  rcg_pci_addr :: "string option"
  rcg_is_apu :: "bool option"

record RocmCliGpuRaw =
  raw_name :: string
  raw_gfx_target :: string
  raw_pci_id :: string
  raw_is_apu :: "bool option"
  raw_is_amd :: bool

record RocmCliExamination =
  ex_os_family :: string
  ex_rocminfo_status :: string
  ex_hipinfo_status :: string
  ex_gpus :: "RocmCliGpuRaw list"

definition parse_rocm_cli_examine :: "(string \<Rightarrow> RocmCliExamination option) \<Rightarrow> string \<Rightarrow> RocmCliGpu list" where
  "parse_rocm_cli_examine from_json output =
     (case from_json output of
        None \<Rightarrow> []
      | Some doc \<Rightarrow>
          (let verified = (if ex_os_family doc = ''linux'' then ex_rocminfo_status doc = ''ok''
                           else if ex_os_family doc = ''windows'' then ex_hipinfo_status doc = ''ok'' else False)
           in map (\<lambda>g. \<lparr>rcg_name = trim (raw_name g),
                        rcg_gfx = (if verified then map_option to_lower (gfx_find (raw_gfx_target g)) else None),
                        rcg_pci_addr = normalize_pci_addr (raw_pci_id g), rcg_is_apu = raw_is_apu g\<rparr>)
                (filter raw_is_amd (ex_gpus doc))))"

definition apply_rocm_cli_record :: "RocmCliGpu \<Rightarrow> GpuInfo \<Rightarrow> GpuInfo" where
  "apply_rocm_cli_record r g =
     (let g1 = (if gi_gfx_arch g = None then g\<lparr>gi_gfx_arch := rcg_gfx r\<rparr> else g)
      in if gi_memory g1 = Unknown \<and> rcg_is_apu r = Some True then g1\<lparr>gi_memory := Shared\<rparr> else g1)"

definition gpus_from_rocm_cli :: "RocmCliGpu list \<Rightarrow> GpuInfo list" where
  "gpus_from_rocm_cli records =
     map (\<lambda>r. (GpuInfo_new (if rcg_name r = [] then ''AMD GPU'' else rcg_name r) ''1002:0000'')
                \<lparr>gi_pci_addr := rcg_pci_addr r, gi_gfx_arch := rcg_gfx r,
                 gi_memory := (if rcg_is_apu r = Some True then Shared else Unknown)\<rparr>) records"

record RocmAgent =
  ra_gfx :: string
  ra_chip_id :: "u16 option"
  ra_bdf :: "Bdf option"

record AgentBlock =
  blk_gfx :: "string option"
  blk_is_gpu :: bool
  blk_chip_id :: "u16 option"
  blk_bdf :: "Bdf option"

definition block_default :: AgentBlock where
  "block_default = \<lparr>blk_gfx = None, blk_is_gpu = False, blk_chip_id = None, blk_bdf = None\<rparr>"

definition flush_into :: "AgentBlock \<Rightarrow> RocmAgent list \<Rightarrow> RocmAgent list" where
  "flush_into b agents =
     (case blk_gfx b of
        Some gfx \<Rightarrow> if blk_is_gpu b then agents @ [\<lparr>ra_gfx = gfx, ra_chip_id = blk_chip_id b, ra_bdf = blk_bdf b\<rparr>] else agents
      | None \<Rightarrow> agents)"

definition trim_parens :: "string \<Rightarrow> string" where
  "trim_parens s = rev (dropWhile (\<lambda>c. c = CHR '')'') (rev s))"

definition parse_chip_id :: "string \<Rightarrow> u16 option" where
  "parse_chip_id val =
     (case Option.bind (split_once_str ''(0x'' val) (\<lambda>h. from_hex (trim (trim_parens h)) :: u32 option) of
        Some v \<Rightarrow> Some (ucast v)
      | None \<Rightarrow> (case split_whitespace val of [] \<Rightarrow> None | w # _ \<Rightarrow> map_option ucast (parse_word w :: u32 option)))"

definition rocminfo_field :: "string \<Rightarrow> string \<Rightarrow> AgentBlock \<Rightarrow> AgentBlock" where
  "rocminfo_field key val b =
     (if key = ''Name'' then
        (case gfx_find val of Some m \<Rightarrow> if length m = length val then b\<lparr>blk_gfx := Some (to_lower val)\<rparr> else b | None \<Rightarrow> b)
      else if key = ''Device Type'' then b\<lparr>blk_is_gpu := eq_ignore_case val ''GPU''\<rparr>
      else if key = ''Chip ID'' then b\<lparr>blk_chip_id := parse_chip_id val\<rparr>
      else if key = ''BDFID'' then b\<lparr>blk_bdf := map_option from_bdfid (parse_word val)\<rparr>
      else b)"

definition rocminfo_line :: "AgentBlock \<times> RocmAgent list \<Rightarrow> string \<Rightarrow> AgentBlock \<times> RocmAgent list" where
  "rocminfo_line st line =
     (case st of (b, agents) \<Rightarrow>
        let t = trim line in
        if (case strip_prefix ''Agent '' t of None \<Rightarrow> False | Some rest \<Rightarrow> (parse_word (trim rest) :: u32 option) \<noteq> None)
        then (block_default, flush_into b agents)
        else (case split_once (CHR '':'') t of
                None \<Rightarrow> (b, agents)
              | Some (key, val) \<Rightarrow> (rocminfo_field (trim key) (trim val) b, agents)))"

definition parse_rocminfo_agents :: "string \<Rightarrow> RocmAgent list" where
  "parse_rocminfo_agents output =
     (case foldl rocminfo_line (block_default, []) (lines output) of (b, agents) \<Rightarrow> flush_into b agents)"

definition parse_rocminfo_gfx :: "string \<Rightarrow> string option" where
  "parse_rocminfo_gfx output =
     (case parse_rocminfo_agents output of
        a # _ \<Rightarrow> Some (ra_gfx a)
      | [] \<Rightarrow> map_option to_lower (gfx_find output))"

definition parse_vram_mib :: "string \<Rightarrow> u64 option" where
  "parse_vram_mib s = map_option (\<lambda>b. b div mib) (parse_word (trim s))"

definition parse_memory_kind :: "string \<Rightarrow> MemoryKind" where
  "parse_memory_kind s =
     (let t = to_upper (trim s) in
      if t = [] \<or> t = ''UNKNOWN'' then Unknown
      else if starts_with t ''GDDR'' \<or> starts_with t ''HBM'' then Dedicated
      else if starts_with t ''DDR'' \<or> starts_with t ''LPDDR'' then Shared
      else Unknown)"

section \<open>Pairing cards with what the tools report\<close>

text \<open>\<open>pg_gpu_taken\<close> is used by the ROCm CLI pairing only.\<close>

record pairing =
  pg_gpus :: "GpuInfo list"
  pg_taken :: "bool list"
  pg_gpu_taken :: "bool list"
  pg_matched :: nat

definition pairing_start :: "GpuInfo list \<Rightarrow> nat \<Rightarrow> pairing" where
  "pairing_start gs n = \<lparr>pg_gpus = gs, pg_taken = replicate n False, pg_gpu_taken = replicate (length gs) False, pg_matched = 0\<rparr>"

definition untaken :: "pairing \<Rightarrow> (nat \<Rightarrow> bool) \<Rightarrow> nat list" where
  "untaken st P = filter (\<lambda>i. \<not> pg_taken st ! i \<and> P i) [0..<length (pg_taken st)]"

definition claim :: "(nat \<Rightarrow> GpuInfo \<Rightarrow> GpuInfo) \<Rightarrow> nat \<Rightarrow> nat \<Rightarrow> pairing \<Rightarrow> pairing" where
  "claim apply_item gi ai st =
     st\<lparr>pg_gpus := (pg_gpus st)[gi := apply_item ai (pg_gpus st ! gi)], pg_taken := (pg_taken st)[ai := True],
        pg_gpu_taken := (pg_gpu_taken st)[gi := True], pg_matched := pg_matched st + 1\<rparr>"

text \<open>One card of a pass: skipped by its guard or without a key; otherwise claimed when exactly one untaken
  item has that key.\<close>

definition claim_step ::
    "(nat \<Rightarrow> GpuInfo \<Rightarrow> GpuInfo) \<Rightarrow> (GpuInfo \<Rightarrow> bool) \<Rightarrow> (nat \<Rightarrow> GpuInfo \<Rightarrow> 'k option) \<Rightarrow> (nat \<Rightarrow> 'k option) \<Rightarrow> pairing \<Rightarrow> nat \<Rightarrow> pairing" where
  "claim_step apply_item open_card key item_key st gi =
     (let g = pg_gpus st ! gi in
      if \<not> open_card g then st
      else case key gi g of
             None \<Rightarrow> st
           | Some k \<Rightarrow> (case untaken st (\<lambda>ai. item_key ai = Some k) of [ai] \<Rightarrow> claim apply_item gi ai st | _ \<Rightarrow> st))"

definition eliminate :: "(nat \<Rightarrow> GpuInfo \<Rightarrow> GpuInfo) \<Rightarrow> nat list \<Rightarrow> pairing \<Rightarrow> pairing" where
  "eliminate apply_item free_gpus st =
     (case (free_gpus, untaken st (\<lambda>_. True)) of ([gi], [ai]) \<Rightarrow> claim apply_item gi ai st | _ \<Rightarrow> st)"

definition pci_device_id :: "string \<Rightarrow> u16 option" where
  "pci_device_id pci_id = (case drop 1 (split_on (CHR '':'') pci_id) of [] \<Rightarrow> None | d # _ \<Rightarrow> from_hex d)"

definition distinctive :: "GpuInfo list \<Rightarrow> nat \<Rightarrow> u16 option" where
  "distinctive gs gi =
     (let dev_ids = map (\<lambda>g. pci_device_id (gi_pci_id g)) gs
      in if length (filter (\<lambda>o'. o' = dev_ids ! gi) dev_ids) = 1 then dev_ids ! gi else None)"

definition give_arch :: "RocmAgent list \<Rightarrow> nat \<Rightarrow> GpuInfo \<Rightarrow> GpuInfo" where
  "give_arch agents ai g = g\<lparr>gi_gfx_arch := Some (ra_gfx (agents ! ai))\<rparr>"

definition archless :: "GpuInfo \<Rightarrow> bool" where
  "archless g = (gi_gfx_arch g = None)"

definition correlate_rocm_agents :: "GpuInfo list \<Rightarrow> RocmAgent list \<Rightarrow> GpuInfo list \<times> nat" where
  "correlate_rocm_agents gs agents =
     (let st1 = foldl (claim_step (give_arch agents) archless (\<lambda>gi _. distinctive gs gi) (\<lambda>ai. ra_chip_id (agents ! ai)))
                  (pairing_start gs (length agents)) [0..<length gs];
          st2 = foldl (claim_step (give_arch agents) archless (\<lambda>_ g. Option.bind (gi_pci_addr g) bdf_parse) (\<lambda>ai. ra_bdf (agents ! ai)))
                  st1 [0..<length gs];
          st3 = eliminate (give_arch agents) (filter (\<lambda>i. archless (pg_gpus st2 ! i)) [0..<length gs]) st2
      in (pg_gpus st3, pg_matched st3))"

definition correlate_rocm_cli_gpus :: "GpuInfo list \<Rightarrow> RocmCliGpu list \<Rightarrow> GpuInfo list \<times> nat" where
  "correlate_rocm_cli_gpus gs records =
     (let ap = (\<lambda>ri. apply_rocm_cli_record (records ! ri));
          st1 = foldl (claim_step ap (\<lambda>g. gi_vendor g = Amd) (\<lambda>_ g. gi_pci_addr g) (\<lambda>ri. rcg_pci_addr (records ! ri)))
                  (pairing_start gs (length records)) [0..<length gs];
          st2 = eliminate ap (filter (\<lambda>i. gi_vendor (pg_gpus st1 ! i) = Amd \<and> \<not> pg_gpu_taken st1 ! i) [0..<length gs]) st1
      in (pg_gpus st2, pg_matched st2))"

section \<open>Captured facts and the topology\<close>

record GpuMemoryFact =
  mf_pci_addr :: string
  mf_vram_mb :: "u64 option"
  mf_gtt_mb :: "u64 option"
  mf_vram_type :: "string option"

definition fact_update :: "GpuMemoryFact \<Rightarrow> GpuInfo \<Rightarrow> GpuInfo" where
  "fact_update f g =
     (let g1 = (if mf_vram_mb f \<noteq> None then g\<lparr>gi_vram_mb := mf_vram_mb f\<rparr> else g);
          g2 = (if mf_gtt_mb f \<noteq> None then g1\<lparr>gi_gtt_mb := mf_gtt_mb f\<rparr> else g1)
      in case mf_vram_type f of None \<Rightarrow> g2 | Some t \<Rightarrow> g2\<lparr>gi_memory := parse_memory_kind t\<rparr>)"

definition apply_fact :: "GpuInfo list \<times> nat \<Rightarrow> GpuMemoryFact \<Rightarrow> GpuInfo list \<times> nat" where
  "apply_fact st f =
     (case st of (gs, applied) \<Rightarrow>
        (case normalize_pci_addr (mf_pci_addr f) of
           None \<Rightarrow> st
         | Some want \<Rightarrow>
             (map (\<lambda>g. if gi_pci_addr g = Some want then fact_update f g else g) gs,
              applied + length (filter (\<lambda>g. gi_pci_addr g = Some want) gs))))"

definition apply_gpu_memory :: "GpuInfo list \<Rightarrow> GpuMemoryFact list \<Rightarrow> GpuInfo list \<times> nat" where
  "apply_gpu_memory gs facts = foldl apply_fact (gs, 0) facts"

record Captures =
  cp_lspci :: "string option"
  cp_rocm_examine :: "string option"
  cp_rocminfo :: "string option"
  cp_topo :: "string option"
  cp_meminfo :: "string option"
  cp_gpu_mem :: "string option"

definition captures_live :: "Captures \<Rightarrow> bool" where
  "captures_live c =
     (cp_lspci c = None \<and> cp_rocm_examine c = None \<and> cp_rocminfo c = None \<and> cp_topo c = None \<and> cp_meminfo c = None \<and> cp_gpu_mem c = None)"

text \<open>\<open>live\<close> is what the live collector finds, \<open>from_json\<close> and \<open>read_facts\<close> read the two structured captures.\<close>

definition detect_topology ::
    "detect_error + Topology \<Rightarrow> (string \<Rightarrow> RocmCliExamination option) \<Rightarrow> (string \<Rightarrow> detect_error + GpuMemoryFact list) \<Rightarrow> Captures
     \<Rightarrow> detect_error + Topology" where
  "detect_topology live from_json read_facts c =
     (if captures_live c then live
      else
        let gs0 = (case cp_lspci c of None \<Rightarrow> [] | Some t \<Rightarrow> parse_lspci t);
            gs1 = (case cp_rocm_examine c of
                     None \<Rightarrow> gs0
                   | Some t \<Rightarrow>
                       (let records = parse_rocm_cli_examine from_json t
                        in if gs0 = [] then gpus_from_rocm_cli records else fst (correlate_rocm_cli_gpus gs0 records)));
            gs2 = (case cp_rocminfo c of None \<Rightarrow> gs1 | Some t \<Rightarrow> fst (correlate_rocm_agents gs1 (parse_rocminfo_agents t)))
        in case (case cp_gpu_mem c of
                   None \<Rightarrow> Inr gs2
                 | Some t \<Rightarrow> (case read_facts t of Inl e \<Rightarrow> Inl e | Inr facts \<Rightarrow> Inr (fst (apply_gpu_memory gs2 facts)))) of
             Inl e \<Rightarrow> Inl e
           | Inr gs3 \<Rightarrow>
               if gs3 = [] then Inl NoGpus
               else Inr (with_host_memory
                      (Topology_new gs3 (case cp_topo c of None \<Rightarrow> [] | Some t \<Rightarrow> parse_rocm_smi_topo t))
                      (Option.bind (cp_meminfo c) parse_meminfo)))"

definition host_memory_for :: "HostMemory option \<Rightarrow> Captures \<Rightarrow> HostMemory option" where
  "host_memory_for live_mem c = (case cp_meminfo c of Some t \<Rightarrow> parse_meminfo t | None \<Rightarrow> live_mem)"

definition detect_topology_or_cpu ::
    "detect_error + Topology \<Rightarrow> HostMemory option \<Rightarrow> (string \<Rightarrow> RocmCliExamination option) \<Rightarrow> (string \<Rightarrow> detect_error + GpuMemoryFact list) \<Rightarrow> Captures
     \<Rightarrow> detect_error + Topology" where
  "detect_topology_or_cpu live live_mem from_json read_facts c =
     (case detect_topology live from_json read_facts c of
        Inl NoGpus \<Rightarrow> Inr (cpu_only (host_memory_for live_mem c))
      | other \<Rightarrow> other)"

section \<open>Lemmas\<close>

text \<open>Hexadecimal numbers evaluate on binary integers.\<close>

fun hex_int :: "int \<Rightarrow> string \<Rightarrow> int" where
  "hex_int acc [] = acc"
| "hex_int acc (c # cs) =
     hex_int (acc * 16 + int (let n = ccode (lower_char c) in if n \<le> 57 then n - 48 else n - 87)) cs"

lemma hex_int_value: "hex_int (int n) s = int (hex_value n s)"
proof (induction s arbitrary: n)
  case (Cons c cs)
  show ?case unfolding hex_int.simps hex_value.simps Cons.IH [symmetric] by simp
qed simp

lemma from_hex_code [code]:
  "from_hex s =
     (let d = (case s of [] \<Rightarrow> [] | c # cs \<Rightarrow> if c = CHR ''+'' then cs else s)
      in if d \<noteq> [] \<and> list_all is_hexdigit d \<and> hex_int 0 d < 2 ^ LENGTH('a::len) then Some (word_of_int (hex_int 0 d) :: 'a word) else None)"
proof -
  have "hex_int 0 d = int (hex_value 0 d)" for d using hex_int_value [of 0 d] by simp
  moreover have "int n < 2 ^ k \<longleftrightarrow> n < 2 ^ k" for n k by (metis of_nat_less_iff of_nat_numeral of_nat_power)
  ultimately show ?thesis by (simp add: from_hex_def Let_def)
qed







lemma archless_give [simp]: "\<not> archless (give_arch agents a g)"
  by (simp add: archless_def give_arch_def)
































section \<open>Properties\<close>






text \<open>The elimination pass counts every card, not only AMD's: a single NVIDIA card beside a single agent is
  given that agent's architecture.\<close>

lemma nvidia_given_gfx:
  "map gi_gfx_arch (fst (correlate_rocm_agents [GpuInfo_new ''RTX'' ''10de:2684''] [\<lparr>ra_gfx = ''gfx1100'', ra_chip_id = None, ra_bdf = None\<rparr>]))
     = [Some ''gfx1100'']"
  "gi_vendor (GpuInfo_new ''RTX'' ''10de:2684'') = Nvidia"
  by code_simp+

end
