(* ===== verification/Delegate.thy ===== *)
theory Delegate
  imports Farm Dispatch
begin

text \<open>
  \<open>POST /hub/dispatch\<close> of \<open>cameod/src/app.rs\<close> (\<open>api_dispatch\<close>, \<open>node_call\<close>): the registry supplies the roster, the
  ledger grants an admission, and a cold node is called back to serve the model.  \<open>dial url key\<close> is what the
  outbound request returned, \<open>tag\<close> the insertion of the hub's own note into a description.  The result keeps the
  status, whether the work was executed, the endpoint and the decision; the other fields of the JSON text
  repeat the decision.  The source releases the registry's lock between the roster, the admission and the
  look-up of the push target; the model runs the handler as a whole, with no other change of the registry
  in between.
\<close>

section \<open>Model\<close>

datatype dispatch_reply = DispatchRefused u16 | Dispatched u16 bool "string option" Dispatch

definition node_call :: "(string \<Rightarrow> string option \<Rightarrow> string option) \<Rightarrow> string \<Rightarrow> string \<Rightarrow> 'v Farm \<Rightarrow> u16 + string" where
  "node_call dial node_id path farm =
     (case push_target node_id farm of
        None \<Rightarrow> Inl 404
      | Some (address, key) \<Rightarrow>
          if \<not> push_address_ok address then Inl 400
          else (case dial (trim_end_matches ''/'' address @ path) key of None \<Rightarrow> Inl 502 | Some out \<Rightarrow> Inr out))"

definition v1_endpoint :: "string \<Rightarrow> string" where
  "v1_endpoint address = trim_end_matches ''/'' address @ ''/v1''"

definition finish_lease :: "AdmissionLease option \<Rightarrow> bool \<Rightarrow> AdmissionBook \<Rightarrow> AdmissionBook" where
  "finish_lease l ok book = (case l of None \<Rightarrow> book | Some lease \<Rightarrow> book_finish (la_id lease) ok book)"

definition api_dispatch ::
    "'j JsonApi \<Rightarrow> ('j \<Rightarrow> string \<Rightarrow> 'j) \<Rightarrow> (DispatchBody \<Rightarrow> string option) \<Rightarrow> (string \<Rightarrow> string option \<Rightarrow> string option)
     \<Rightarrow> time \<Rightarrow> time \<Rightarrow> DispatchBody option \<Rightarrow> 'j Farm \<Rightarrow> AdmissionBook \<Rightarrow> dispatch_reply \<times> 'j Farm \<times> AdmissionBook" where
  "api_dispatch js tag to_json dial now now' parsed farm book =
     (case parsed of
        None \<Rightarrow> (DispatchRefused 400, farm, book)
      | Some body \<Rightarrow>
          if body_validate body \<noteq> None then (DispatchRefused 400, farm, book)
          else case online_descriptions tag now farm of (roster, farm1) \<Rightarrow>
            (case book_admit js to_json now' roster body book of
               (Inl e, book1) \<Rightarrow> (DispatchRefused (admission_status e), farm1, book1)
             | (Inr out, book1) \<Rightarrow>
                 (let d = ao_dispatch out; target = push_target (di_node_id d) farm1 in
                  if ao_replayed out then
                    (case map_option la_state (ao_lease out) of
                       Some Committed \<Rightarrow> (Dispatched 200 True (map_option (\<lambda>(a, _). v1_endpoint a) target) d, farm1, book1)
                     | Some Reserved \<Rightarrow> (Dispatched 202 False None d, farm1, book1)
                     | Some AdmissionFailed \<Rightarrow> (DispatchRefused 409, farm1, book1)
                     | None \<Rightarrow> (DispatchRefused 409, farm1, book1))
                  else if \<not> db_execute body then (Dispatched 200 False None d, farm1, book1)
                  else let endpoint = v1_endpoint (case target of None \<Rightarrow> [] | Some (a, _) \<Rightarrow> a) in
                  if mx_warm (di_choice d) then
                    (Dispatched 200 True (Some endpoint) d, farm1, finish_lease (ao_lease out) True book1)
                  else (case node_call dial (di_node_id d) ''/api/servers'' farm1 of
                          Inr _ \<Rightarrow> (Dispatched 200 True (Some endpoint) d, farm1, finish_lease (ao_lease out) True book1)
                        | Inl status \<Rightarrow> (DispatchRefused status, farm1, finish_lease (ao_lease out) False book1)))))"

section \<open>Lemmas\<close>

text \<open>What the hub relies on: the note it inserted is what reading the description gives back.\<close>

definition note_read_back :: "'j JsonApi \<Rightarrow> ('j \<Rightarrow> string \<Rightarrow> 'j) \<Rightarrow> bool" where
  "note_read_back js tag =
     (\<forall>v t. jv_get js (tag v t) ''topology'' \<noteq> None \<longrightarrow>
        Option.bind (Option.bind (jv_get js (tag v t) ''_cameo_hub'') (\<lambda>h. jv_get js h ''trust'')) (jv_str js) = Some t)"

lemma online_entry:
  assumes "farm_inv farm" and "(i, desc) \<in> set (fst (online_descriptions tag now farm))"
  obtains e where "bt_get (fm_inner farm) i = Some e" "now - en_last_seen e < ONLINE_WINDOW"
    "desc = tag (rg_node (en_reg e)) (trust_name (en_enrollment e))"
proof -
  have inv: "map_inv (fm_inner farm)" "map_inv (farm_prune now (fm_inner farm))"
    using assms(1) map_inv_prune by (auto simp: farm_inv_map)
  obtain k e where e: "(k, e) \<in> set (farm_prune now (fm_inner farm))" "now - en_last_seen e < ONLINE_WINDOW"
      "i = rg_node_id (en_reg e)" "desc = tag (rg_node (en_reg e)) (trust_name (en_enrollment e))"
    using assms(2) by (auto simp: online_descriptions_def Let_def)
  have g: "bt_get (farm_prune now (fm_inner farm)) k = Some e"
    using e(1) inv(2) by (intro bt_in_set_get) (simp_all add: map_inv_def)
  then have "k = i" using inv(2) e(3) by (auto simp: map_inv_def entry_ok_def)
  moreover have "bt_get (fm_inner farm) k = Some e"
    using g inv(1) by (auto simp: farm_prune_get map_inv_def split: option.splits if_splits)
  ultimately show ?thesis using that e by blast
qed

lemma parse_node_trust:
  assumes "note_read_back js tag" and "parse_node js i (tag v (trust_name en)) = Some p"
  shows "pa_trust p = (if is_paired en then TrustState.Paired else TrustState.LegacyToken)"
proof -
  have "jv_get js (tag v (trust_name en)) ''topology'' \<noteq> None"
    using assms(2) by (cases "jv_get js (tag v (trust_name en)) ''topology''") (auto simp: parse_node_def)
  then have "Option.bind (Option.bind (jv_get js (tag v (trust_name en)) ''_cameo_hub'') (\<lambda>h. jv_get js h ''trust'')) (jv_str js)
      = Some (trust_name en)" using assms(1) unfolding note_read_back_def by blast
  then show ?thesis
    using assms(2) by (auto simp: parse_node_def Let_def is_paired_def trust_name_def split: option.splits Enrollment.splits)
qed

section \<open>Properties\<close>

text \<open>C5. Work is delegated to registered nodes only, on the registry's word.  A fresh decision of the hub names
  a node that is in the registry and was heard of within the online window; when the request does not allow
  the shared token, that node is a paired device, whatever its own description claims about its trust; and
  the endpoint handed to the client is the node's registered callback.\<close>

theorem delegation_sound:
  assumes "farm_inv farm" and "note_read_back js tag"
    and "api_dispatch js tag to_json dial now now' (Some body) farm book = (Dispatched status executed endpoint d, farm', book')"
    and "Option.bind (db_request_id body) (bt_get (live_part now' book)) = None"
  shows "\<exists>e. bt_get (fm_inner farm) (di_node_id d) = Some e \<and> now - en_last_seen e < ONLINE_WINDOW \<and>
    (\<not> db_allow_legacy_token body \<longrightarrow> is_paired (en_enrollment e)) \<and>
    (\<forall>url. endpoint = Some url \<longrightarrow> url = v1_endpoint (rg_address (en_reg e)))"
proof -
  obtain roster farm1 where on: "online_descriptions tag now farm = (roster, farm1)" by fastforce
  obtain res book1 where ad: "book_admit js to_json now' roster body book = (res, book1)" by fastforce
  note run = assms(3) [unfolded api_dispatch_def option.case on prod.case ad]
  obtain out where out: "res = Inr out" "ao_dispatch out = d"
    using run by (auto simp: Let_def split: if_splits sum.splits option.splits AdmissionState.splits)
  have fresh: "\<not> ao_replayed out" and dec: "decide_with_reserved js roster body (active_reserved_by_node (live_part now' book)) = Inr d"
    using ad out assms(4) by (auto simp: book_admit_def Let_def live_part_def [symmetric] split: option.splits sum.splits if_splits)
  obtain p desc r where p: "(di_node_id d, desc) \<in> set roster" "parse_node js (di_node_id d) desc = Some p"
      and r: "mesh_rank (mesh_request body) (mesh_candidate (add_reserved (active_reserved_by_node (live_part now' book)) p)) = Some r"
    using decide_Inr [OF dec] by metis
  obtain e where e: "bt_get (fm_inner farm) (di_node_id d) = Some e" "now - en_last_seen e < ONLINE_WINDOW"
      "desc = tag (rg_node (en_reg e)) (trust_name (en_enrollment e))"
    using online_entry [OF assms(1), of "di_node_id d" desc tag now] p(1) on by auto
  have trust: "pa_trust p = (if is_paired (en_enrollment e) then TrustState.Paired else TrustState.LegacyToken)"
    using parse_node_trust [OF assms(2)] p(2) e(3) by blast
  have paired: "is_paired (en_enrollment e)" if "\<not> db_allow_legacy_token body"
    using mesh_rank_Some(1) [OF r] trust that
    by (auto simp: mesh_gate_def Let_def mesh_candidate_def add_reserved_def mesh_request_def split: if_splits)
  have "entry_live now e" using e(2) by (simp add: entry_live_def ONLINE_WINDOW_def DROP_AFTER_def)
  then have "push_target (di_node_id d) farm1 = Some (rg_address (en_reg e), rg_key (en_reg e))"
    using on e(1) assms(1) by (auto simp: online_descriptions_def Let_def push_target_def farm_prune_get farm_inv_def)
  then have "\<forall>url. endpoint = Some url \<longrightarrow> url = v1_endpoint (rg_address (en_reg e))"
    using run out fresh by (auto simp: Let_def split: if_splits sum.splits)
  then show ?thesis using e paired by blast
qed

text \<open>A registry of one paired node whose description says that it is untrusted.\<close>

definition noted_api :: "(string \<times> string) JsonApi" where
  "noted_api = \<lparr>jv_get = \<lambda>(v, t) k. if v = ''node'' \<and> k \<in> {''topology'', ''gpus'', ''_cameo_hub''} then Some (k, t)
       else if v = ''_cameo_hub'' \<and> k = ''trust'' then Some (k, t) else None,
     jv_str = \<lambda>(_, t). Some t, jv_u64 = \<lambda>_. None, jv_f64 = \<lambda>_. None, jv_bool = \<lambda>_. None, jv_array = \<lambda>_. None,
     jv_topology = \<lambda>_. Some (ni_topology (example_node ''n'' 1)), jv_gpus = \<lambda>_. Some (ni_assessments (example_node ''n'' 1))\<rparr>"

definition note_tag :: "string \<times> string \<Rightarrow> string \<Rightarrow> string \<times> string" where
  "note_tag v t = (fst v, t)"

definition noted_entry :: "(string \<times> string) Enrolled" where
  "noted_entry = \<lparr>en_reg = \<lparr>rg_node_id = ''n'', rg_name = ''n'', rg_address = ''https://n'', rg_key = None, rg_cameo_version = [],
     rg_node = (''node'', ''untrusted'')\<rparr>, en_last_seen = 0, en_enrollment = Enrollment.Paired [1] ''l''\<rparr>"

definition noted_farm :: "(string \<times> string) Farm" where
  "noted_farm = \<lparr>fm_inner = [(''n'', noted_entry)], fm_file = None\<rparr>"

definition noted_body :: DispatchBody where
  "noted_body = sample_body\<lparr>db_execute := False, db_allow_legacy_token := False\<rparr>"

definition noted_node :: ParsedNode where
  "noted_node = the (parse_node noted_api ''n'' (''node'', ''paired''))"

lemma noted_facts:
  "parse_node noted_api ''n'' (''node'', ''paired'') = Some noted_node"
  "mesh_rank (mesh_request noted_body) (mesh_candidate (add_reserved [] noted_node)) \<noteq> None"
  "note_read_back noted_api note_tag" "farm_inv noted_farm"
  "online_descriptions note_tag 5 noted_farm = ([(''n'', (''node'', ''paired''))], noted_farm)"
proof -
  show "parse_node noted_api ''n'' (''node'', ''paired'') = Some noted_node"
    by (simp add: noted_node_def parse_node_def noted_api_def Let_def)
  show "mesh_rank (mesh_request noted_body) (mesh_candidate (add_reserved [] noted_node)) \<noteq> None" by code_simp
  show "note_read_back noted_api note_tag" by (simp add: note_read_back_def noted_api_def note_tag_def)
  have [simp]: "trim ''n'' = ''n''" by code_simp
  show "farm_inv noted_farm"
    by (auto simp: farm_inv_def noted_farm_def bt_wf_def bt_get_def entry_ok_def noted_entry_def MAX_NODES_def split: if_splits)
  show "online_descriptions note_tag 5 noted_farm = ([(''n'', (''node'', ''paired''))], noted_farm)"
    by (simp add: online_descriptions_def noted_farm_def farm_prune_def bt_retain_def noted_entry_def note_tag_def is_paired_def
        trust_name_def ONLINE_WINDOW_def)
qed

theorem delegation_sound_witness:
  "\<exists>d e. fst (api_dispatch noted_api note_tag (\<lambda>_. Some ''fp'') (\<lambda>_ _. None) 5 5 (Some noted_body) noted_farm book_new) = Dispatched 200 False None d \<and>
     bt_get (fm_inner noted_farm) (di_node_id d) = Some e \<and> is_paired (en_enrollment e)"
proof -
  let ?c = "mesh_candidate (add_reserved [] noted_node)"
  have "body_validate noted_body = None" by code_simp
  obtain ch where ch: "route_mesh [?c] (mesh_request noted_body) = Inr ch"
    using route_mesh_total [OF _ noted_facts(2), of "[?c]"] by auto
  let ?d = "\<lparr>di_choice = ch, di_node_id = mx_node_id ch\<rparr>"
  have d: "decide_with_reserved noted_api [(''n'', (''node'', ''paired''))] noted_body [] = Inr ?d"
    by (simp add: decide_with_reserved_def List.map_filter_def noted_facts(1) ch)
  have b: "\<not> db_execute noted_body" "\<not> db_allow_legacy_token noted_body" by (simp_all add: noted_body_def)
  have n: "Option.bind (db_request_id noted_body) (bt_get (live_part 5 book_new)) = None"
    by (cases "db_request_id noted_body") (simp_all add: live_part_def book_new_def bt_retain_def)
  then have "book_admit noted_api (\<lambda>_. Some ''fp'') 5 [(''n'', (''node'', ''paired''))] noted_body book_new
      = (Inr \<lparr>ao_dispatch = ?d, ao_lease = None, ao_replayed = False\<rparr>, book_new)"
    using d b(1) by (simp add: book_admit_def book_new_def live_part_def bt_retain_def active_reserved_by_node_def Let_def)
  then obtain f' b' where r: "api_dispatch noted_api note_tag (\<lambda>_. Some ''fp'') (\<lambda>_ _. None) 5 5 (Some noted_body) noted_farm book_new
      = (Dispatched 200 False None ?d, f', b')"
    using b(1) \<open>body_validate noted_body = None\<close> noted_facts(5) by (simp add: api_dispatch_def Let_def)
  show ?thesis using delegation_sound [OF noted_facts(4,3) r n] b(2) r by auto
qed

end
