(* ===== verification/Spec2Isabelle.thy ===== *)
theory Spec2Isabelle
  imports Prelude Text Ieee Gpu Config Model Plan Fleet Router RateLimit Pairing Drain Sessions
    Command Net Agents Auth Http Admission Store Endpoint Supervisor Access Farm Gguf Catalog Dispatch Detect
    Delegate
begin

text \<open>
  A verification library for Cameo, the local-inference planner and control plane.

  \<^bold>\<open>The program.\<close>  \<open>core/\<close> finds out what hardware there is (\<open>gpu-detect\<close>), which models there are
  (\<open>models\<close>), and plans where a model runs: on one machine (\<open>placement/plan.rs\<close>, with the estimates of
  \<open>placement/model.rs\<close> and the expert offload of \<open>moe-harness\<close>), on one of several nodes
  (\<open>placement/fleet.rs\<close>, \<open>router.rs\<close>, \<open>mesh.rs\<close>), or as the servers of a set of agents
  (\<open>placement/agents.rs\<close>, \<open>command.rs\<close>, \<open>net-strategy\<close>).  \<open>cameod/\<close> is the daemon: an HTTP listener
  (\<open>http.rs\<close>) in front of a router of requests (\<open>app.rs\<close>) with its credentials (\<open>auth.rs\<close>), rate limits
  (\<open>rate_limit.rs\<close>) and drain (\<open>drain.rs\<close>); a supervisor of model servers (\<open>supervisor.rs\<close>) that keeps its
  intents in a store (\<open>endpoint_store.rs\<close>), decides residency (\<open>supervisor/admission.rs\<close>, \<open>lease.rs\<close>) and
  serves sessions (\<open>sessions.rs\<close>); and a hub that enrols nodes (\<open>hub.rs\<close>, \<open>pairing.rs\<close>) and delegates work to
  them (\<open>dispatch.rs\<close>).

  \<^bold>\<open>The theories,\<close> each named with the sources it models (under \<open>src/\<close>) and what it shows.
  \<^item> \<open>Prelude\<close>: saturating and checked words; the interface \<open>keyed_map\<close> with its two interpretations, the
    hash map (an association list with distinct keys) and the B-tree map (a sorted one); the one-pass choice
    \<open>pick_best\<close> and the interfaces \<open>ranking\<close> and \<open>strict_ranking\<close> that the routers' comparisons interpret.
  \<^item> \<open>Text\<close>, \<open>Ieee\<close>: the part of \<open>str\<close> the sources use, on bytes; \<open>f64\<close> and \<open>f32\<close> as rationals rounded to
    nearest even, with the casts to and from integers.
  \<^item> \<open>Gpu\<close>, \<open>Detect\<close> (\<open>core/gpu-detect\<close>): types, tiers, overrides, topology; the parsers and the pairing of tools'
    records with cards, each of which is handed out at most once.
  \<^item> \<open>Gguf\<close>, \<open>Catalog\<close> (\<open>core/models\<close>): the GGUF reader, which ends on every file and inverts the encoding; pinned
    models, recommendation, the cache and downloads that are installed only with the expected digest.
  \<^item> \<open>Config\<close>, \<open>Model\<close>, \<open>Plan\<close>, \<open>Fleet\<close>, \<open>Router\<close> (\<open>core/config\<close>, \<open>core/placement\<close>, \<open>core/moe-harness\<close>): layers of
    settings; sizes; when a plan exists, that it fits physical memory and is consistent; the gates and the
    order-independence of the mesh.
  \<^item> \<open>Command\<close>, \<open>Net\<close>, \<open>Agents\<close>: command lines that a shell reads back, curl configurations that curl reads back,
    agents' servers that are authenticated or local.
  \<^item> \<open>Http\<close>, \<open>Access\<close>, \<open>Auth\<close>, \<open>RateLimit\<close>, \<open>Drain\<close>: framing, responses that cannot be split, connection limits; the
    credential every handler needs; admission bounds; the drain's firm deadline.
  \<^item> \<open>Admission\<close>, \<open>Store\<close>, \<open>Endpoint\<close>, \<open>Supervisor\<close>, \<open>Sessions\<close>: residency as least-recently-used eviction; durable
    commits and restores; restart budgets and probes; no running server without a tracked endpoint (one race of a
    restart excepted, and counted), no eviction of a leased one.
  \<^item> \<open>Pairing\<close>, \<open>Farm\<close>, \<open>Dispatch\<close>, \<open>Delegate\<close>: single-use codes; a registry the shared token cannot rewrite and that
    survives a restart; a ledger that never overbooks a node and makes retries idempotent; and their
    composition, in which work only goes to registered nodes on the registry's word.

  \<^bold>\<open>Conventions.\<close>  A struct is a record, an enum a datatype, and a function one definition with the source's
  name (prefixed where it would clash); a small definition that has no function of its own models the
  lines of a loop body.  Unsigned integers are words; plain operators wrap, as in a release build, and
  \<open>saturating_\<close> and \<open>checked_\<close> ones do not.  Lengths and \<open>usize\<close> counters are natural numbers.  Time is a count
  of nanoseconds and the clock an argument.  Errors are the left part of a sum or \<open>Some\<close> error; messages
  that interpolate values are constructors carrying them.  A lock makes an operation atomic, so concurrent
  behaviour is a sequence of operations (the step relations and histories of \<open>Drain\<close>, \<open>Endpoint\<close>,
  \<open>Supervisor\<close>, \<open>Farm\<close> and \<open>Dispatch\<close>); a method that gives its lock up in between is split there, except
  the handler of a dispatch (\<open>api_dispatch\<close>), taken as a whole.  Case conversion and white space are those of ASCII.

  \<^bold>\<open>Parameters.\<close>  Third-party code and the operating system are arguments: serde_json and toml readers and
  writers, SHA-256, the random source, process creation and termination, and the outcome of each file-system
  call, \<open>df\<close> and \<open>curl\<close>.  What is relied on is a named hypothesis (\<open>farm_json_ok\<close>, the codec laws of \<open>Store\<close>,
  \<open>note_read_back\<close>) with an instance in the witness of the theorem that uses it.

  \<^bold>\<open>Bounds.\<close>  Only the GGUF reader carries fuel, for its recursion on nested arrays; \<open>Gguf.gguf_terminates\<close>
  shows that one more than the file's length is always enough.  All other loops are structural or have a
  measure.

  \<^bold>\<open>Not modelled.\<close>  Sockets, TLS, timeouts, splicing and streaming of \<open>http.rs\<close>, \<open>proxy.rs\<close>, \<open>openai.rs\<close> and
  \<open>tls.rs\<close>, because they only move bytes between connections; live hardware collection (\<open>collect.rs\<close>) and
  the outbound loop of \<open>agent.rs\<close>, which run external tools; start-up and flags (\<open>main.rs\<close>), the
  command-line client (\<open>cli/\<close>), the dashboard and the JSON texts of responses, which render what the modelled
  components compute; the branches for Windows.
\<close>

end
